(* ===== verification/Kerno_Prelude.thy ===== *)
theory Kerno_Prelude
  imports
    Main
    "HOL-Library.Word"
    "HOL-Library.Multiset"
    "HOL-Library.AList"
    "HOL-Library.Char_ord"
    "HOL-Library.List_Lexorder"
begin

text \<open>
  What every component of the model shares: the result of a Go operation that may return a
  value, return an error or panic; the slice and index expressions with their run-time checks;
  \<open>io.ReadFull\<close> on a finite stream; the conversions between \<open>string\<close> and \<open>[]byte\<close>;
  and Go maps as association lists with distinct keys.

  A Go \<open>string\<close> is a sequence of bytes, which is what Isabelle's \<^typ>\<open>string\<close> is.
  \<open>int\<close> is 64 bits wide (the development models the linux/amd64 build), so a length
  computed from a 32-bit field never overflows an \<open>int\<close> and is a natural number here.
\<close>

type_synonym byte = "8 word"
type_synonym bytes = "8 word list"

unbundle bit_operations_syntax

section \<open>Results of Go operations\<close>

named_theorems outcome_iff \<open>when a composed operation returns, fails or panics\<close>

datatype ('e, 'a) outcome = Ok 'a | Err 'e | Panic

fun obind :: "('e, 'a) outcome \<Rightarrow> ('a \<Rightarrow> ('e, 'b) outcome) \<Rightarrow> ('e, 'b) outcome" where
  "obind (Ok x) f = f x"
| "obind (Err e) f = Err e"
| "obind Panic f = Panic"

text \<open>\<open>fmt.Errorf("...: %w", err)\<close> wraps an error and leaves values and panics alone.\<close>

fun wrap_err :: "('e \<Rightarrow> 'f) \<Rightarrow> ('e, 'a) outcome \<Rightarrow> ('f, 'a) outcome" where
  "wrap_err w (Ok x) = Ok x"
| "wrap_err w (Err e) = Err (w e)"
| "wrap_err w Panic = Panic"

lemma obind_eq_Ok [outcome_iff]: "obind m f = Ok y \<longleftrightarrow> (\<exists>x. m = Ok x \<and> f x = Ok y)"
  by (cases m) auto

lemma obind_eq_Panic [outcome_iff]:
  "obind m f = Panic \<longleftrightarrow> m = Panic \<or> (\<exists>x. m = Ok x \<and> f x = Panic)"
  by (cases m) auto

lemma wrap_err_eq_Ok [outcome_iff]: "wrap_err w m = Ok y \<longleftrightarrow> m = Ok y"
  by (cases m) auto

lemma wrap_err_eq_Panic [outcome_iff]: "wrap_err w m = Panic \<longleftrightarrow> m = Panic"
  by (cases m) auto

section \<open>Slices, indices and streams\<close>

text \<open>The slice expression \<open>xs[lo:hi]\<close> panics unless \<open>lo \<le> hi \<le> len(xs)\<close> (every slice the
  code cuts has its length as its capacity).\<close>

definition go_slice :: "'a list \<Rightarrow> nat \<Rightarrow> nat \<Rightarrow> ('e, 'a list) outcome" where
  "go_slice xs lo hi =
     (if lo \<le> hi \<and> hi \<le> length xs then Ok (take (hi - lo) (drop lo xs)) else Panic)"

definition go_index :: "'a list \<Rightarrow> nat \<Rightarrow> ('e, 'a) outcome" where
  "go_index xs i = (if i < length xs then Ok (xs ! i) else Panic)"

lemma go_slice_Ok [simp]:
  "lo \<le> hi \<Longrightarrow> hi \<le> length xs \<Longrightarrow> go_slice xs lo hi = Ok (take (hi - lo) (drop lo xs))"
  by (simp add: go_slice_def)

lemma go_slice_eq_Panic [outcome_iff]: "go_slice xs lo hi = Panic \<longleftrightarrow> \<not> (lo \<le> hi \<and> hi \<le> length xs)"
  by (simp add: go_slice_def)

lemma go_slice_not_Err [simp]: "go_slice xs lo hi \<noteq> Err e"
  by (simp add: go_slice_def)

lemma go_index_Ok [simp]: "i < length xs \<Longrightarrow> go_index xs i = Ok (xs ! i)"
  by (simp add: go_index_def)

lemma go_index_eq_Panic [outcome_iff]: "go_index xs i = Panic \<longleftrightarrow> length xs \<le> i"
  by (auto simp: go_index_def)

text \<open>\<open>io.ReadFull\<close> on a stream that ends after the bytes \<open>s\<close>: \<open>io.EOF\<close> when nothing was
  read, \<open>io.ErrUnexpectedEOF\<close> when the stream ended inside the buffer.\<close>

datatype io_err = EOF | UnexpectedEOF

definition read_full :: "nat \<Rightarrow> 'a list \<Rightarrow> (io_err, 'a list \<times> 'a list) outcome" where
  "read_full n s =
     (if n \<le> length s then Ok (take n s, drop n s)
      else if s = [] then Err EOF
      else Err UnexpectedEOF)"

lemma read_full_append [simp]: "length xs = n \<Longrightarrow> read_full n (xs @ ys) = Ok (xs, ys)"
  by (simp add: read_full_def)

lemma read_full_not_Panic [simp]: "read_full n s \<noteq> Panic"
  by (simp add: read_full_def)

lemma read_full_eq_Ok [outcome_iff]:
  "read_full n s = Ok (xs, ys) \<longleftrightarrow> s = xs @ ys \<and> length xs = n"
  by (auto simp: read_full_def)

lemma read_full_extend: "read_full n s = Ok (xs, ys) \<Longrightarrow> read_full n (s @ t) = Ok (xs, ys @ t)"
  by (auto simp: outcome_iff)

section \<open>Strings and bytes\<close>

definition string_of_bytes :: "bytes \<Rightarrow> string" where
  "string_of_bytes bs = map (\<lambda>b. char_of (unat b)) bs"

definition bytes_of_string :: "string \<Rightarrow> bytes" where
  "bytes_of_string s = map (\<lambda>c. word_of_nat (of_char c)) s"

lemma length_string_of_bytes [simp]: "length (string_of_bytes bs) = length bs"
  by (simp add: string_of_bytes_def)

lemma length_bytes_of_string [simp]: "length (bytes_of_string s) = length s"
  by (simp add: bytes_of_string_def)

lemma string_bytes_inverse [simp]: "string_of_bytes (bytes_of_string s) = s"
proof -
  have "char_of (unat (word_of_nat (of_char c) :: byte)) = c" for c
  proof -
    have "(of_char c :: nat) < 256" by (rule nat_of_char_less_256)
    then show ?thesis by (simp add: unat_of_nat)
  qed
  then show ?thesis by (simp add: string_of_bytes_def bytes_of_string_def map_idI)
qed

lemma bytes_string_inverse [simp]: "bytes_of_string (string_of_bytes bs) = bs"
proof -
  have "(word_of_nat (of_char (char_of (unat b) :: char)) :: byte) = b" for b
  proof -
    have "unat b < 2 ^ LENGTH(8)" by (rule unsigned_less)
    then show ?thesis by simp
  qed
  then show ?thesis by (simp add: string_of_bytes_def bytes_of_string_def map_idI)
qed

section \<open>Bounds of machine words\<close>

lemma unat_bound8: "unat (w :: 8 word) < 2 ^ 8"
proof -
  have "unat w < 2 ^ LENGTH(8)" by (rule unsigned_less)
  then show ?thesis by simp
qed

lemma unat_bound16: "unat (w :: 16 word) < 2 ^ 16"
proof -
  have "unat w < 2 ^ LENGTH(16)" by (rule unsigned_less)
  then show ?thesis by simp
qed

lemma unat_bound32: "unat (w :: 32 word) < 2 ^ 32"
proof -
  have "unat w < 2 ^ LENGTH(32)" by (rule unsigned_less)
  then show ?thesis by simp
qed

section \<open>Go maps\<close>

text \<open>A Go map is an association list with distinct keys. Its order is the order one \<open>range\<close>
  loop meets the entries in, which Go leaves open, so a theorem about all such lists holds for
  every iteration order.\<close>

type_synonym 'v go_map = "(string \<times> 'v) list"

definition go_map_ok :: "'v go_map \<Rightarrow> bool" where
  "go_map_ok m \<longleftrightarrow> distinct (map fst m)"

lemma go_map_ok_Nil [simp]: "go_map_ok []"
  by (simp add: go_map_ok_def)

lemma go_map_ok_update [simp]: "go_map_ok m \<Longrightarrow> go_map_ok (AList.update k v m)"
  by (simp add: go_map_ok_def distinct_update)

lemma go_map_ok_delete [simp]: "go_map_ok m \<Longrightarrow> go_map_ok (AList.delete k m)"
  by (simp add: go_map_ok_def distinct_delete)

lemma map_of_update [simp]: "map_of (AList.update k v m) = (map_of m)(k \<mapsto> v)"
  by (rule update_conv')

lemma map_of_delete [simp]: "map_of (AList.delete k m) = (map_of m)(k := None)"
  by (rule delete_conv')

lemma go_map_Some_iff: "go_map_ok m \<Longrightarrow> map_of m k = Some v \<longleftrightarrow> (k, v) \<in> set m"
  by (auto simp: go_map_ok_def)

text \<open>A write through the pointer stored under a key: nothing happens when the key is absent.\<close>

definition gm_modify :: "string \<Rightarrow> ('v \<Rightarrow> 'v) \<Rightarrow> 'v go_map \<Rightarrow> 'v go_map" where
  "gm_modify k f m = (case map_of m k of None \<Rightarrow> m | Some v \<Rightarrow> AList.update k (f v) m)"

lemma gm_modify_ok [simp]: "go_map_ok m \<Longrightarrow> go_map_ok (gm_modify k f m)"
  by (simp add: gm_modify_def split: option.split)

lemma map_of_gm_modify [simp]:
  "map_of (gm_modify k f m) = (map_of m)(k := map_option f (map_of m k))"
  by (auto simp: gm_modify_def fun_upd_idem split: option.split)

lemma update_keys_present:
  "map_of m k \<noteq> None \<Longrightarrow> map fst (AList.update k v m) = map fst m"
  by (induction m) (auto split: if_splits)

lemma gm_modify_keys [simp]: "map fst (gm_modify k f m) = map fst m"
  by (simp add: gm_modify_def update_keys_present split: option.split)

lemma gm_modify_keys_set [simp]: "fst ` set (gm_modify k f m) = fst ` set m"
  by (metis gm_modify_keys set_map)

section \<open>Sorting\<close>

text \<open>\<open>sort.Slice\<close> is not stable: all that is known of the result is that it is a permutation of the
  slice in the order of the key. Where keys may repeat, the sort is a parameter with this contract,
  which \<^const>\<open>sort_key\<close> meets.\<close>

definition go_sort :: "('a \<Rightarrow> 'k :: linorder) \<Rightarrow> ('a list \<Rightarrow> 'a list) \<Rightarrow> bool" where
  "go_sort key srt \<longleftrightarrow> (\<forall>xs. mset (srt xs) = mset xs \<and> sorted (map key (srt xs)))"

lemma go_sort_key [simp]: "go_sort key (sort_key key)"
  by (simp add: go_sort_def)

lemma go_sort_set: "go_sort key srt \<Longrightarrow> set (srt xs) = set xs"
  by (metis go_sort_def mset_eq_setD)

lemma go_sort_sorted: "go_sort key srt \<Longrightarrow> sorted (map key (srt xs))"
  by (simp add: go_sort_def)

lemma go_sort_mset: "go_sort key srt \<Longrightarrow> mset (srt xs) = mset xs"
  by (simp add: go_sort_def)

lemma go_sort_Nil: "go_sort key srt \<Longrightarrow> srt [] = []"
  using go_sort_set [of key srt "[]"] by auto

section \<open>Stores of named records\<close>

text \<open>The interface every manager keeps its records behind: look one up by name, write one, change
  one in place. Looking up after a write or a change finds what was put there and nothing else.\<close>

locale keyed_store =
  fixes lookup :: "'s \<Rightarrow> string \<Rightarrow> 'v option"
    and put :: "string \<Rightarrow> 'v \<Rightarrow> 's \<Rightarrow> 's"
    and modify :: "string \<Rightarrow> ('v \<Rightarrow> 'v) \<Rightarrow> 's \<Rightarrow> 's"
    and inv :: "'s \<Rightarrow> bool"
  assumes lookup_put: "lookup (put k v s) = (lookup s)(k \<mapsto> v)"
    and lookup_modify: "lookup (modify k f s) = (lookup s)(k := map_option f (lookup s k))"
    and inv_put: "inv s \<Longrightarrow> inv (put k v s)"
    and inv_modify: "inv s \<Longrightarrow> inv (modify k f s)"
begin

lemma modify_absent: "lookup s k = None \<Longrightarrow> lookup (modify k f s) = lookup s"
  by (auto simp: lookup_modify fun_upd_idem)

lemma modify_other: "j \<noteq> k \<Longrightarrow> lookup (modify k f s) j = lookup s j"
  by (simp add: lookup_modify)

lemma modify_dom: "dom (lookup (modify k f s)) = dom (lookup s)"
  by (auto simp: lookup_modify dom_def)

lemma modify_put: "lookup (modify k f (put k v s)) k = Some (f v)"
  by (simp add: lookup_modify lookup_put)

lemma modify_modify: "lookup (modify k f (modify k g s)) = lookup (modify k (f \<circ> g) s)"
  by (auto simp: lookup_modify option.map_comp)

lemma modify_commute: "j \<noteq> k \<Longrightarrow> lookup (modify j f (modify k g s)) = lookup (modify k g (modify j f s))"
  by (auto simp: lookup_modify fun_upd_twist)

end

section \<open>Operations on one named record\<close>

text \<open>Start and stop of a daemon or a program look at all records but write one. What follows for a loop
  that applies such an operation to a list of names is proved once here.\<close>

locale named_op =
  fixes lookup :: "'s \<Rightarrow> string \<Rightarrow> 'v option"
    and op :: "string \<Rightarrow> 's \<Rightarrow> 's"
  assumes op_other: "k \<noteq> n \<Longrightarrow> lookup (op n s) k = lookup s k"
    and op_present: "lookup (op n s) n = None \<longleftrightarrow> lookup s n = None"
begin

fun each :: "string list \<Rightarrow> 's \<Rightarrow> 's" where
  "each [] s = s"
| "each (n # ns) s = each ns (op n s)"

lemma each_append: "each (ns @ ns') s = each ns' (each ns s)"
  by (induction ns arbitrary: s) auto

lemma each_other: "k \<notin> set ns \<Longrightarrow> lookup (each ns s) k = lookup s k"
  by (induction ns arbitrary: s) (auto simp: op_other)

lemma op_dom: "dom (lookup (op n s)) = dom (lookup s)"
proof (rule set_eqI)
  show "k \<in> dom (lookup (op n s)) \<longleftrightarrow> k \<in> dom (lookup s)" for k
    using op_other [of k n s] op_present [of n s] by (cases "k = n") (simp_all add: domIff)
qed

lemma each_dom: "dom (lookup (each ns s)) = dom (lookup s)"
  by (induction ns arbitrary: s) (auto simp: op_dom)

text \<open>Each record gets the result of its own step, taken from its own old value.\<close>

lemma each_own:
  assumes "distinct (as @ n # bs)"
  shows "lookup (each (as @ n # bs) s) n = lookup (op n (each as s)) n
    \<and> lookup (each as s) n = lookup s n"
  using assms by (simp add: each_append each_other)

end

end
