(* ===== verification/Go_Text.thy ===== *)
theory Go_Text
  imports Kerno_Prelude
begin

text \<open>
  The parts of Go's \<open>strings\<close>, \<open>strconv\<close> and \<open>bufio\<close> packages that several components use:
  \<open>TrimSpace\<close>, \<open>HasPrefix\<close>, \<open>HasSuffix\<close>, \<open>Join\<close>, \<open>Cut\<close>, \<open>Itoa\<close>, \<open>ParseInt\<close> with base 10 and 64
  bits, \<open>Fields\<close>, \<open>ReplaceAll\<close>, \<open>Split\<close> on one character, and \<open>ReadString\<close>.
\<close>

abbreviation NL :: char where "NL \<equiv> CHR 0x0A"
abbreviation QUOTE :: char where "QUOTE \<equiv> CHR 0x22"

section \<open>Prefixes, suffixes, joining\<close>

definition has_prefix :: "string \<Rightarrow> string \<Rightarrow> bool" where
  "has_prefix s p \<longleftrightarrow> take (length p) s = p"

definition has_suffix :: "string \<Rightarrow> string \<Rightarrow> bool" where
  "has_suffix s p \<longleftrightarrow> length p \<le> length s \<and> drop (length s - length p) s = p"

fun join :: "string list \<Rightarrow> string \<Rightarrow> string" where
  "join [] sep = []"
| "join [x] sep = x"
| "join (x # xs) sep = x @ sep @ join xs sep"

text \<open>\<open>strings.Cut(s, sep)\<close> for a separator of one byte.\<close>

fun cut :: "char \<Rightarrow> string \<Rightarrow> (string \<times> string) option" where
  "cut d [] = None"
| "cut d (c # cs) = (if c = d then Some ([], cs) else map_option (\<lambda>(k, v). (c # k, v)) (cut d cs))"

text \<open>\<open>strings.Split(s, sep)\<close> for a separator of one byte: always at least one part.\<close>

fun split_on :: "char \<Rightarrow> string \<Rightarrow> string list" where
  "split_on d [] = [[]]"
| "split_on d (c # cs) =
     (if c = d then [] # split_on d cs
      else case split_on d cs of [] \<Rightarrow> [[c]] | p # ps \<Rightarrow> (c # p) # ps)"

lemma has_suffix_append [simp]: "has_suffix (s @ p) p"
  by (simp add: has_suffix_def)

lemma has_suffix_append_iff: "has_suffix s p \<longleftrightarrow> (\<exists>t. s = t @ p)"
  unfolding has_suffix_def
  by (metis append_take_drop_id diff_diff_cancel length_append le_add2 append_eq_conv_conj
      add_diff_cancel_right')

lemma has_prefix_append_iff: "has_prefix s p \<longleftrightarrow> (\<exists>t. s = p @ t)"
  unfolding has_prefix_def by (metis append_eq_conv_conj append_take_drop_id)

lemma cut_Some_iff: "cut d s = Some (k, v) \<longleftrightarrow> s = k @ d # v \<and> d \<notin> set k"
proof (induction s arbitrary: k)
  case Nil
  then show ?case by simp
next
  case (Cons c cs)
  then show ?case by (cases k) (auto split: option.splits)
qed

lemma cut_None_iff: "cut d s = None \<longleftrightarrow> d \<notin> set s"
  by (induction s) auto

lemma split_on_nonempty [simp]: "split_on d s \<noteq> []"
  by (induction s) (auto split: list.splits)

lemma split_on_plain: "d \<notin> set x \<Longrightarrow> split_on d x = [x]"
  by (induction x) auto

lemma split_on_append: "d \<notin> set x \<Longrightarrow> split_on d (x @ d # y) = x # split_on d y"
  by (induction x) auto

lemma split_on_join:
  "xs \<noteq> [] \<Longrightarrow> \<forall>x \<in> set xs. d \<notin> set x \<Longrightarrow> split_on d (join xs [d]) = xs"
  by (induction xs "[d]" rule: join.induct) (auto simp: split_on_plain split_on_append)

lemma set_split_on: "p \<in> set (split_on d s) \<Longrightarrow> d \<notin> set p \<and> set p \<subseteq> set s"
proof (induction s arbitrary: p)
  case Nil
  then show ?case by simp
next
  case (Cons c cs)
  then show ?case by (cases "split_on d cs") (fastforce split: if_splits)+
qed

section \<open>White space\<close>

text \<open>The runes of \<open>unicode.IsSpace\<close> in UTF-8: the six of ASCII, U+0085, U+00A0, U+1680,
  U+2000 to U+200A, U+2028, U+2029, U+202F, U+205F and U+3000.\<close>

definition space_runes :: "string list" where
  "space_runes =
     [[CHR 0x09], [CHR 0x0A], [CHR 0x0B], [CHR 0x0C], [CHR 0x0D], [CHR 0x20],
      [CHR 0xC2, CHR 0x85], [CHR 0xC2, CHR 0xA0], [CHR 0xE1, CHR 0x9A, CHR 0x80]]
     @ map (\<lambda>b. [CHR 0xE2, CHR 0x80, b])
         [CHR 0x80, CHR 0x81, CHR 0x82, CHR 0x83, CHR 0x84, CHR 0x85, CHR 0x86, CHR 0x87,
          CHR 0x88, CHR 0x89, CHR 0x8A, CHR 0xA8, CHR 0xA9, CHR 0xAF]
     @ [[CHR 0xE2, CHR 0x81, CHR 0x9F], [CHR 0xE3, CHR 0x80, CHR 0x80]]"

lemma space_runes_nonempty: "[] \<notin> set space_runes"
  by (simp add: space_runes_def)

text \<open>Drop leading runes of \<open>rs\<close>, an empty one never.\<close>

function trim_with :: "string list \<Rightarrow> string \<Rightarrow> string" where
  "trim_with rs s =
     (case List.find (\<lambda>r. r \<noteq> [] \<and> has_prefix s r) rs of
        None \<Rightarrow> s
      | Some r \<Rightarrow> trim_with rs (drop (length r) s))"
  by pat_completeness auto
termination
proof (relation "measure (\<lambda>(_, s). length s)")
  fix rs s r assume "List.find (\<lambda>r. r \<noteq> [] \<and> has_prefix s r) rs = Some r"
  then have "r \<noteq> [] \<and> has_prefix s r" by (auto simp: find_Some_iff)
  then show "((rs, drop (length r) s), (rs, s)) \<in> measure (\<lambda>(_, s). length s)"
    by (auto simp: has_prefix_append_iff)
qed simp

declare trim_with.simps [simp del]

definition trim_left :: "string \<Rightarrow> string" where
  "trim_left s = trim_with space_runes s"

definition trim_right :: "string \<Rightarrow> string" where
  "trim_right s = rev (trim_with (map rev space_runes) (rev s))"

definition trim_space :: "string \<Rightarrow> string" where
  "trim_space s = trim_right (trim_left s)"

lemma trim_with_suffix: "\<exists>t. s = t @ trim_with rs s"
proof (induction rs s rule: trim_with.induct)
  case (1 rs s)
  show ?case
  proof (cases "List.find (\<lambda>r. r \<noteq> [] \<and> has_prefix s r) rs")
    case None
    then show ?thesis by (subst trim_with.simps) auto
  next
    case (Some r)
    from 1 [OF Some] obtain t where t: "drop (length r) s = t @ trim_with rs (drop (length r) s)"
      by blast
    have "trim_with rs s = trim_with rs (drop (length r) s)"
      by (subst trim_with.simps) (simp add: Some)
    with t have "drop (length r) s = t @ trim_with rs s" by simp
    then have "take (length r) s @ drop (length r) s = (take (length r) s @ t) @ trim_with rs s"
      by simp
    then show ?thesis by (metis append_take_drop_id)
  qed
qed

lemma set_trim_with: "set (trim_with rs s) \<subseteq> set s"
proof -
  obtain t where "s = t @ trim_with rs s" using trim_with_suffix by blast
  then show ?thesis by (metis Un_upper2 set_append)
qed

lemma set_trim_space: "set (trim_space s) \<subseteq> set s"
  using set_trim_with [of "map rev space_runes" "rev (trim_with space_runes s)"]
    set_trim_with [of space_runes s]
  by (auto simp: trim_space_def trim_right_def trim_left_def)

text \<open>No rune of white space starts or ends the string: \<open>TrimSpace\<close> leaves it alone.\<close>

definition trimmed :: "string \<Rightarrow> bool" where
  "trimmed s \<longleftrightarrow> (\<forall>r \<in> set space_runes. \<not> has_prefix s r \<and> \<not> has_prefix (rev s) (rev r))"

lemma trim_with_id: "(\<And>r. r \<in> set rs \<Longrightarrow> \<not> has_prefix s r) \<Longrightarrow> trim_with rs s = s"
proof -
  assume "\<And>r. r \<in> set rs \<Longrightarrow> \<not> has_prefix s r"
  then have "List.find (\<lambda>r. r \<noteq> [] \<and> has_prefix s r) rs = None"
    by (auto simp: find_None_iff)
  then show ?thesis by (subst trim_with.simps) simp
qed

lemma trim_left_trimmed: "trimmed s \<Longrightarrow> trim_left s = s"
  unfolding trim_left_def by (rule trim_with_id) (simp add: trimmed_def)

lemma trim_right_trimmed:
  assumes "trimmed s"
  shows "trim_right s = s"
proof -
  have "trim_with (map rev space_runes) (rev s) = rev s"
    using assms by (auto simp: trimmed_def intro!: trim_with_id)
  then show ?thesis by (simp add: trim_right_def)
qed

lemma trim_space_trimmed: "trimmed s \<Longrightarrow> trim_space s = s"
  by (simp add: trim_space_def trim_left_trimmed trim_right_trimmed)

lemma NL_rune: "[NL] \<in> set space_runes"
  by (simp add: space_runes_def)

lemma trim_right_NL: "trim_right (s @ [NL]) = trim_right s"
proof -
  have find: "List.find (\<lambda>r. r \<noteq> [] \<and> has_prefix (NL # rev s) r) (map rev space_runes) = Some [NL]"
    by (simp add: space_runes_def has_prefix_def)
  show ?thesis
    unfolding trim_right_def by (subst trim_with.simps) (simp add: find)
qed

section \<open>Decimal numbers\<close>

definition digit_char :: "nat \<Rightarrow> char" where
  "digit_char d = char_of (48 + d)"

definition digit_val :: "char \<Rightarrow> nat option" where
  "digit_val c = (let n = of_char c :: nat in if 48 \<le> n \<and> n \<le> 57 then Some (n - 48) else None)"

fun show_nat :: "nat \<Rightarrow> string" where
  "show_nat n = (if n < 10 then [digit_char n] else show_nat (n div 10) @ [digit_char (n mod 10)])"

declare show_nat.simps [simp del]

text \<open>\<open>strconv.Itoa\<close> and \<open>%d\<close>.\<close>

definition show_int :: "int \<Rightarrow> string" where
  "show_int i = (if i < 0 then CHR ''-'' # show_nat (nat (- i)) else show_nat (nat i))"

fun parse_digits :: "nat \<Rightarrow> string \<Rightarrow> nat option" where
  "parse_digits n [] = Some n"
| "parse_digits n (c # cs) =
     (case digit_val c of None \<Rightarrow> None | Some d \<Rightarrow> parse_digits (n * 10 + d) cs)"

text \<open>\<open>strconv.ParseInt(s, 10, 64)\<close> and \<open>strconv.Atoi\<close>: an optional sign, at least one digit, and
  a value of 64 bits; every error is \<^const>\<open>None\<close>.\<close>

definition go_parse_int :: "string \<Rightarrow> int option" where
  "go_parse_int s =
     (let neg = has_prefix s ''-'';
          ds = (if neg \<or> has_prefix s ''+'' then tl s else s)
      in if ds = [] then None
         else case parse_digits 0 ds of
           None \<Rightarrow> None
         | Some n \<Rightarrow>
             if \<not> neg \<and> n \<ge> 2 ^ 63 then None
             else if neg \<and> n > 2 ^ 63 then None
             else Some (if neg then - int n else int n))"

definition int64_range :: "int \<Rightarrow> bool" where
  "int64_range i \<longleftrightarrow> - (2 ^ 63) \<le> i \<and> i < 2 ^ 63"

lemma go_parse_int_range: "go_parse_int s = Some i \<Longrightarrow> int64_range i"
  by (auto simp: go_parse_int_def int64_range_def Let_def split: if_splits option.splits)

lemma digit_val_char: "d < 10 \<Longrightarrow> digit_val (digit_char d) = Some d"
  by (simp add: digit_val_def digit_char_def Let_def)

lemma digit_char_not_sign: "d < 10 \<Longrightarrow> digit_char d \<noteq> CHR ''-'' \<and> digit_char d \<noteq> CHR ''+''"
proof -
  assume d: "d < 10"
  have "digit_val CHR ''-'' = None" "digit_val CHR ''+'' = None"
    by (simp_all add: digit_val_def Let_def)
  then show ?thesis using digit_val_char [OF d] by auto
qed

lemma parse_digits_append:
  "parse_digits n (xs @ ys) = (case parse_digits n xs of None \<Rightarrow> None | Some m \<Rightarrow> parse_digits m ys)"
  by (induction xs arbitrary: n) (auto split: option.splits)

lemma parse_show_nat: "parse_digits 0 (show_nat n) = Some n"
proof (induction n rule: show_nat.induct)
  case (1 n)
  then show ?case
    by (subst show_nat.simps) (auto simp: digit_val_char parse_digits_append)
qed

lemma show_nat_Cons: "\<exists>d ds. show_nat n = digit_char d # ds \<and> d < 10"
proof (induction n rule: show_nat.induct)
  case (1 n)
  then show ?case by (subst show_nat.simps) fastforce
qed

lemma parse_show_int: "int64_range i \<Longrightarrow> go_parse_int (show_int i) = Some i"
proof -
  assume i: "int64_range i"
  obtain d ds where s: "show_nat (nat \<bar>i\<bar>) = digit_char d # ds" "d < 10"
    using show_nat_Cons by blast
  then have p: "parse_digits 0 (digit_char d # ds) = Some (nat \<bar>i\<bar>)"
    by (metis parse_show_nat)
  show ?thesis
  proof (cases "i < 0")
    case True
    with i s p show ?thesis
      by (simp add: go_parse_int_def show_int_def has_prefix_def int64_range_def Let_def nat_le_iff)
  next
    case False
    with i s p digit_char_not_sign [of d] show ?thesis
      by (simp add: go_parse_int_def show_int_def has_prefix_def int64_range_def Let_def not_le nat_less_iff)
  qed
qed

section \<open>Buffered reading\<close>

text \<open>\<open>ReadString(d)\<close>: the bytes up to and including the first \<open>d\<close>; \<^const>\<open>None\<close> when the stream
  ends first (\<open>io.EOF\<close>; what was read is lost to a caller that drops it).\<close>

fun read_string :: "char \<Rightarrow> string \<Rightarrow> (string \<times> string) option" where
  "read_string d [] = None"
| "read_string d (c # cs) =
     (if c = d then Some ([c], cs) else map_option (\<lambda>(l, r). (c # l, r)) (read_string d cs))"

lemma read_string_eq_cut:
  "read_string d s = map_option (\<lambda>(l, r). (l @ [d], r)) (cut d s)"
  by (induction s) (auto simp: option.map_comp comp_def case_prod_beta)

lemma read_string_line: "d \<notin> set l \<Longrightarrow> read_string d (l @ d # rest) = Some (l @ [d], rest)"
  by (induction l) auto

lemma read_string_length: "read_string d s = Some (l, r) \<Longrightarrow> length r < length s"
  by (auto simp: read_string_eq_cut cut_Some_iff)

lemma read_string_None_iff: "read_string d s = None \<longleftrightarrow> d \<notin> set s"
  by (simp add: read_string_eq_cut cut_None_iff)

lemma read_string_extend: "read_string d s = Some (l, r) \<Longrightarrow> read_string d (s @ t) = Some (l, r @ t)"
  by (induction s arbitrary: l) (auto split: if_splits)

section \<open>Fields\<close>

text \<open>\<open>strings.Fields\<close>: the maximal runs without white space.\<close>

definition at_space :: "string \<Rightarrow> bool" where
  "at_space s \<longleftrightarrow> (\<exists>r \<in> set space_runes. has_prefix s r)"

fun take_field :: "string \<Rightarrow> string \<times> string" where
  "take_field [] = ([], [])"
| "take_field (c # cs) =
     (if at_space (c # cs) then ([], c # cs) else case take_field cs of (w, rest) \<Rightarrow> (c # w, rest))"

lemma take_field_append: "take_field s = (w, rest) \<Longrightarrow> s = w @ rest"
  by (induction s arbitrary: w) (auto split: if_splits prod.splits)

lemma trim_left_length: "length (trim_left s) \<le> length s"
  using trim_with_suffix [of s space_runes] unfolding trim_left_def by (metis length_append le_add2)

lemma trim_with_stops: "trim_with rs s = s' \<Longrightarrow> r \<in> set rs \<Longrightarrow> r \<noteq> [] \<Longrightarrow> \<not> has_prefix s' r"
proof (induction rs s arbitrary: s' rule: trim_with.induct)
  case (1 rs s)
  show ?case
  proof (cases "List.find (\<lambda>r. r \<noteq> [] \<and> has_prefix s r) rs")
    case None
    then have "trim_with rs s = s" by (subst trim_with.simps) simp
    with None 1(2,3,4) show ?thesis by (auto simp: find_None_iff)
  next
    case (Some q)
    then have "trim_with rs s = trim_with rs (drop (length q) s)" by (subst trim_with.simps) simp
    with 1 Some show ?thesis by simp
  qed
qed

lemma trim_left_not_space: "\<not> at_space (trim_left s)"
  using trim_with_stops [of space_runes s "trim_left s"] space_runes_nonempty
  by (auto simp: at_space_def trim_left_def)

function text_fields :: "string \<Rightarrow> string list" where
  "text_fields s =
     (case take_field (trim_left s) of
        (w, rest) \<Rightarrow> if w = [] then [] else w # text_fields rest)"
  by pat_completeness auto
termination
proof (relation "measure length", goal_cases)
  case (2 s w rest)
  then have "trim_left s = w @ rest" using take_field_append by (metis (no_types))
  then have "length rest < length (trim_left s)" using 2 by (cases w) simp_all
  then show ?case using trim_left_length [of s] by simp
qed simp

declare text_fields.simps [simp del]

lemma fields_Nil_iff: "text_fields s = [] \<longleftrightarrow> trim_left s = []"
proof -
  have "fst (take_field (trim_left s)) = [] \<longleftrightarrow> trim_left s = []"
    using trim_left_not_space [of s]
    by (cases "trim_left s") (auto split: prod.split)
  then show ?thesis by (subst text_fields.simps) (auto split: prod.split)
qed

lemma fields_nonempty: "w \<in> set (text_fields s) \<Longrightarrow> w \<noteq> []"
proof (induction s rule: text_fields.induct)
  case (1 s)
  then show ?case by (subst (asm) text_fields.simps) (auto split: prod.splits if_splits)
qed

end
