(* ===== verification/Go_Runes.thy ===== *)
theory Go_Runes
  imports Go_Text
begin

text \<open>
  Runes in the bytes of a Go string: how many bytes the next rune takes, counting runes, and what a
  \<open>range\<close> loop with \<open>WriteRune\<close> makes of bytes that are no UTF-8. The lines a \<open>bufio.Scanner\<close> delivers.
\<close>

section \<open>Runes\<close>

text \<open>The number of bytes of the first rune of a text that is not empty, 1 where the bytes are no
  UTF-8: \<open>utf8.DecodeRuneInString\<close>.\<close>

definition byte_in :: "nat \<Rightarrow> nat \<Rightarrow> char \<Rightarrow> bool" where
  "byte_in lo hi c \<longleftrightarrow> lo \<le> (of_char c :: nat) \<and> (of_char c :: nat) \<le> hi"

definition rune_tail :: "char \<Rightarrow> (nat \<times> nat) list" where
  "rune_tail c =
     (if byte_in 0xC2 0xDF c then [(0x80, 0xBF)]
      else if byte_in 0xE0 0xE0 c then [(0xA0, 0xBF), (0x80, 0xBF)]
      else if byte_in 0xED 0xED c then [(0x80, 0x9F), (0x80, 0xBF)]
      else if byte_in 0xE1 0xEF c then [(0x80, 0xBF), (0x80, 0xBF)]
      else if byte_in 0xF0 0xF0 c then [(0x90, 0xBF), (0x80, 0xBF), (0x80, 0xBF)]
      else if byte_in 0xF4 0xF4 c then [(0x80, 0x8F), (0x80, 0xBF), (0x80, 0xBF)]
      else if byte_in 0xF1 0xF3 c then [(0x80, 0xBF), (0x80, 0xBF), (0x80, 0xBF)]
      else [])"

definition rune_width :: "char \<Rightarrow> string \<Rightarrow> nat" where
  "rune_width c cs =
     (let ranges = rune_tail c
      in if length ranges \<le> length cs \<and> list_all2 (\<lambda>(lo, hi). byte_in lo hi) ranges (take (length ranges) cs)
         then Suc (length ranges) else 1)"

text \<open>\<open>utf8.RuneCountInString\<close>.\<close>

function rune_count :: "string \<Rightarrow> nat" where
  "rune_count [] = 0"
| "rune_count (c # cs) = Suc (rune_count (drop (rune_width c cs - 1) cs))"
  by pat_completeness auto
termination
  by (relation "measure length") auto

text \<open>\<open>WriteRune\<close> of the first rune: U+FFFD where the bytes are no UTF-8.\<close>

definition is_ascii :: "char \<Rightarrow> bool" where
  "is_ascii c \<longleftrightarrow> (of_char c :: nat) < 128"

definition rune_out :: "char \<Rightarrow> string \<Rightarrow> string" where
  "rune_out c cs =
     (if is_ascii c \<or> rune_width c cs > 1 then c # take (rune_width c cs - 1) cs
      else [CHR 0xEF, CHR 0xBF, CHR 0xBD])"

function valid_utf8 :: "string \<Rightarrow> bool" where
  "valid_utf8 [] = True"
| "valid_utf8 (c # cs) =
     ((is_ascii c \<or> rune_width c cs > 1) \<and> valid_utf8 (drop (rune_width c cs - 1) cs))"
  by pat_completeness auto
termination
  by (relation "measure length") auto

lemma rune_width_ascii [simp]: "is_ascii c \<Longrightarrow> rune_width c cs = 1"
  by (simp add: is_ascii_def rune_width_def rune_tail_def byte_in_def Let_def)

text \<open>The bytes of a rune after the first are no ASCII characters.\<close>

lemma rune_tail_not_ascii: "(lo, hi) \<in> set (rune_tail c) \<Longrightarrow> 128 \<le> lo"
  by (auto simp: rune_tail_def split: if_splits)

lemma rune_rest_not_ascii:
  assumes "x \<in> set (take (rune_width c cs - 1) cs)"
  shows "\<not> is_ascii x"
proof -
  let ?r = "rune_tail c"
  have "list_all2 (\<lambda>(lo, hi). byte_in lo hi) ?r (take (length ?r) cs)"
    and "x \<in> set (take (length ?r) cs)"
    using assms by (auto simp: rune_width_def Let_def split: if_splits)
  then obtain i where "i < length ?r" "x = take (length ?r) cs ! i"
      "case ?r ! i of (lo, hi) \<Rightarrow> byte_in lo hi x"
    by (auto simp: in_set_conv_nth list_all2_conv_all_nth)
  then show ?thesis
    using rune_tail_not_ascii [of "fst (?r ! i)" "snd (?r ! i)" c]
    by (auto simp: byte_in_def is_ascii_def split: prod.splits)
qed

section \<open>Lines\<close>

text \<open>\<open>bufio.Scanner\<close> with \<open>ScanLines\<close>: the lines without their ends, and whether \<open>Err\<close> is nil at the
  end. A line that does not fit into a buffer of \<open>limit\<close> bytes ends the scan.\<close>

definition drop_cr :: "string \<Rightarrow> string" where
  "drop_cr l = (if l \<noteq> [] \<and> last l = CHR 0x0D then butlast l else l)"

function scan_lines :: "nat \<Rightarrow> string \<Rightarrow> string list \<times> bool" where
  "scan_lines limit s =
     (if s = [] then ([], True)
      else case cut NL s of
             None \<Rightarrow> if length s \<ge> limit then ([], False) else ([drop_cr s], True)
           | Some (l, r) \<Rightarrow>
               if length l \<ge> limit then ([], False)
               else case scan_lines limit r of (ls, ok) \<Rightarrow> (drop_cr l # ls, ok))"
  by pat_completeness auto
termination
  by (relation "measure (\<lambda>(limit, s). length s)") (auto simp: cut_Some_iff)

declare scan_lines.simps [simp del]

lemma scan_lines_Nil [simp]: "scan_lines limit [] = ([], True)"
  by (simp add: scan_lines.simps)

lemma scan_lines_line:
  assumes "NL \<notin> set l"
  shows "scan_lines limit (l @ NL # r) =
     (if length l \<ge> limit then ([], False)
      else (drop_cr l # fst (scan_lines limit r), snd (scan_lines limit r)))"
proof -
  have "cut NL (l @ NL # r) = Some (l, r)" using assms by (simp add: cut_Some_iff)
  then show ?thesis by (subst scan_lines.simps) (simp split: prod.split)
qed

text \<open>Text made of lines is split into them, each without a carriage return at its end, up to the first
  one that is too long.\<close>

lemma scan_lines_text:
  assumes "\<forall>l \<in> set ls. NL \<notin> set l"
  shows "scan_lines limit (concat (map (\<lambda>l. l @ [NL]) ls)) =
     (map drop_cr (takeWhile (\<lambda>l. length l < limit) ls), \<forall>l \<in> set ls. length l < limit)"
  using assms by (induction ls) (auto simp: scan_lines_line)

lemma scan_lines_no_NL:
  "l \<in> set (fst (scan_lines limit s)) \<Longrightarrow> NL \<notin> set l"
proof (induction limit s rule: scan_lines.induct)
  case (1 limit s)
  have d: "set (drop_cr x) \<subseteq> set x" for x by (auto simp: drop_cr_def dest: in_set_butlastD)
  show ?case
  proof (cases "cut NL s")
    case None
    then have "NL \<notin> set s" by (simp add: cut_None_iff)
    then show ?thesis
      using 1(2) None d by (subst (asm) scan_lines.simps) (auto split: if_splits)
  next
    case (Some p)
    obtain x r where p: "p = (x, r)" by fastforce
    have x: "NL \<notin> set x" and s: "s \<noteq> []" using Some p by (auto simp: cut_Some_iff)
    have eq: "scan_lines limit s =
        (if length x \<ge> limit then ([], False)
         else case scan_lines limit r of (ls, ok) \<Rightarrow> (drop_cr x # ls, ok))"
      using Some p s by (simp add: scan_lines.simps [of limit s])
    show ?thesis
    proof (cases "length x \<ge> limit")
      case True
      then show ?thesis using 1(2) by (simp add: eq)
    next
      case False
      then have "l = drop_cr x \<or> l \<in> set (fst (scan_lines limit r))"
        using 1(2) by (simp add: eq split: prod.splits)
      then show ?thesis using 1(1) [OF s Some [unfolded p] refl False] x d by blast
    qed
  qed
qed

end
