(* ===== verification/Restart_Policy.thy ===== *)
theory Restart_Policy
  imports Go_Text
begin

text \<open>
  When a process that exited is started again and after which delay: \<open>internal/daemon/restart.go\<close> and
  the same two functions of \<open>internal/sessionwm/manager.go\<close>, whose common contract is the locale
  \<open>restart_rules\<close>. A \<open>time.Duration\<close> is the 64-bit word the code computes with.
\<close>

section \<open>The contract\<close>

type_synonym duration = "64 word"

definition seconds :: "int \<Rightarrow> duration" where
  "seconds n = of_int n * 1000000000"

locale restart_rules =
  fixes should :: "int \<Rightarrow> string \<Rightarrow> bool \<Rightarrow> bool"
    and delay :: "int \<Rightarrow> duration"
  assumes always: "should c ''always'' failed"
    and on_failure: "should c ''on-failure'' failed \<longleftrightarrow> failed"
    and disabled: "\<not> should c ''disabled'' failed"
    and first_delay: "n \<le> 0 \<Longrightarrow> sint (delay n) = 1000000000"
    and later_delay: "0 < n \<Longrightarrow> n \<le> 33 \<Longrightarrow> sint (delay n) = min (2 ^ nat n) 30 * 1000000000"
    and capped: "sint (delay n) \<le> 30000000000"
begin

lemma delay_range:
  assumes "n \<le> 33"
  shows "1000000000 \<le> sint (delay n) \<and> sint (delay n) \<le> 30000000000"
proof (cases "n \<le> 0")
  case True
  then show ?thesis by (simp add: first_delay)
next
  case False
  have "(1 :: int) \<le> min (2 ^ nat n) 30" by simp
  then have "1000000000 \<le> sint (delay n)"
    using False assms by (simp add: later_delay)
  then show ?thesis using capped [of n] by simp
qed

lemma delay_mono:
  assumes "m \<le> n" and "n \<le> 33"
  shows "sint (delay m) \<le> sint (delay n)"
proof (cases "m \<le> 0")
  case True
  then show ?thesis using delay_range [OF assms(2)] by (simp add: first_delay)
next
  case False
  then have "(2 :: int) ^ nat m \<le> 2 ^ nat n"
    using assms(1) by (intro power_increasing) auto
  then show ?thesis using False assms by (simp add: later_delay min_le_iff_disj)
qed

lemma delay_saturated:
  assumes "5 \<le> n" and "n \<le> 33"
  shows "sint (delay n) = 30000000000"
proof -
  have "(2 :: int) ^ 5 \<le> 2 ^ nat n"
    using assms(1) by (intro power_increasing) auto
  then show ?thesis using assms by (simp add: later_delay)
qed

end

section \<open>Daemons\<close>

text \<open>\<open>RestartPolicy\<close> is a string type with four named values.\<close>

type_synonym restart_policy = string

definition RestartAlways :: restart_policy where "RestartAlways = ''always''"
definition RestartOnFailure :: restart_policy where "RestartOnFailure = ''on-failure''"
definition RestartOnce :: restart_policy where "RestartOnce = ''once''"
definition RestartDisabled :: restart_policy where "RestartDisabled = ''disabled''"

lemmas policy_names = RestartAlways_def RestartOnFailure_def RestartOnce_def RestartDisabled_def

definition valid_restart_policies :: "restart_policy list" where
  "valid_restart_policies = [RestartAlways, RestartOnFailure, RestartOnce, RestartDisabled]"

text \<open>\<open>failed\<close> is \<open>exitErr != nil\<close>.\<close>

definition should_restart :: "int \<Rightarrow> restart_policy \<Rightarrow> bool \<Rightarrow> bool" where
  "should_restart restartCount policy failed =
     (if policy = RestartAlways then True
      else if policy = RestartOnFailure then failed
      else if policy = RestartOnce then restartCount = 0
      else if policy = RestartDisabled then False
      else False)"

text \<open>\<open>time.Duration(math.Pow(2, n))\<close>: exact below 2^63; above, Go leaves the conversion of the float
  to the platform, and \<open>ovf\<close> is what it gives.\<close>

definition pow2_duration :: "duration \<Rightarrow> int \<Rightarrow> duration" where
  "pow2_duration ovf n = (if n < 63 then 2 ^ nat n else ovf)"

definition next_restart_delay :: "duration \<Rightarrow> int \<Rightarrow> duration" where
  "next_restart_delay ovf restartCount =
     (if restartCount \<le> 0 then seconds 1
      else let delay = pow2_duration ovf restartCount * seconds 1;
               maxDelay = seconds 30
           in if sint maxDelay < sint delay then maxDelay else delay)"

text \<open>The loop that would clear the counter after a minute of uptime; nothing in the source calls
  it. \<open>uptime\<close> is \<open>time.Since(d.StartedAt)\<close> in nanoseconds.\<close>

definition reset_restart_backoff :: "bool \<Rightarrow> int \<Rightarrow> int \<Rightarrow> int" where
  "reset_restart_backoff running uptime restartCount =
     (if \<not> running then restartCount else if uptime > 60 * 1000000000 then 0 else restartCount)"

section \<open>The session window manager\<close>

definition wm_should_restart :: "restart_policy \<Rightarrow> bool \<Rightarrow> bool" where
  "wm_should_restart policy failed =
     (if policy = RestartAlways then True
      else if policy = RestartOnFailure then failed
      else if policy = RestartDisabled then False
      else False)"

definition wm_next_restart_delay :: "duration \<Rightarrow> int \<Rightarrow> duration" where
  "wm_next_restart_delay ovf restartCount =
     (if restartCount \<le> 0 then seconds 1
      else let delay = pow2_duration ovf restartCount * seconds 1;
               maxDelay = seconds 30
           in if sint maxDelay < sint delay then maxDelay else delay)"

lemma wm_delay_eq: "wm_next_restart_delay = next_restart_delay"
  by (intro ext) (simp add: wm_next_restart_delay_def next_restart_delay_def)

section \<open>Both keep the contract\<close>

lemma sint_seconds:
  assumes "0 \<le> k" and "k < 2 ^ 63"
  shows "sint (word_of_int k :: duration) = k"
  using assms by (simp add: signed_of_int signed_take_bit_int_eq_self)

lemma sint_30s: "sint (seconds 30) = 30000000000"
  using sint_seconds [of 30000000000] by (simp add: seconds_def)

lemma sint_1s: "sint (seconds 1) = 1000000000"
  using sint_seconds [of 1000000000] by (simp add: seconds_def)

lemma next_delay_capped: "sint (next_restart_delay ovf n) \<le> 30000000000"
  by (simp add: next_restart_delay_def Let_def sint_30s sint_1s)

lemma next_delay_later:
  assumes "0 < n" and "n \<le> 33"
  shows "sint (next_restart_delay ovf n) = min (2 ^ nat n) 30 * 1000000000"
proof -
  have le: "(2 :: int) ^ nat n \<le> 2 ^ 33"
    using assms by (intro power_increasing) auto
  have w: "pow2_duration ovf n * seconds 1 = word_of_int (2 ^ nat n * 1000000000)"
    using assms by (simp add: pow2_duration_def seconds_def of_int_power)
  have "sint (pow2_duration ovf n * seconds 1) = 2 ^ nat n * 1000000000"
    unfolding w using le by (intro sint_seconds) auto
  then show ?thesis
    using assms by (auto simp: next_restart_delay_def Let_def sint_30s min_def)
qed

interpretation daemon_rules: restart_rules should_restart "next_restart_delay ovf" for ovf
  by unfold_locales
    (auto simp: should_restart_def policy_names next_delay_later next_delay_capped,
     simp add: next_restart_delay_def sint_1s)

interpretation wm_rules: restart_rules "\<lambda>_. wm_should_restart" "wm_next_restart_delay ovf" for ovf
  by unfold_locales
    (auto simp: wm_should_restart_def policy_names wm_delay_eq next_delay_later next_delay_capped,
     simp add: next_restart_delay_def sint_1s)

section \<open>Properties\<close>

text \<open>Up to the 33rd restart the delay is 1s, 2s, 4s, 8s, 16s and then 30s, so it never falls and
  stays between one second and thirty.\<close>

theorem restart_delay_schedule:
  assumes "n \<le> 33"
  shows "sint (next_restart_delay ovf n) = (if n \<le> 0 then 1 else min (2 ^ nat n) 30) * 1000000000
    \<and> (m \<le> n \<longrightarrow> sint (next_restart_delay ovf m) \<le> sint (next_restart_delay ovf n))
    \<and> 1000000000 \<le> sint (next_restart_delay ovf n) \<and> sint (next_restart_delay ovf n) \<le> 30000000000"
  using assms daemon_rules.first_delay [of n ovf] daemon_rules.later_delay [of n ovf]
    daemon_rules.delay_mono [of m n ovf] daemon_rules.delay_range [of n ovf]
  by auto

theorem restart_delay_schedule_witness:
  "sint (next_restart_delay 0 4) = 16000000000 \<and> sint (next_restart_delay 0 3) \<le> sint (next_restart_delay 0 4)"
  using restart_delay_schedule [of 4 0 3] by simp

lemma wrapped_delay:
  "pow2_duration ovf 34 * seconds 1 = 17179869184000000000"
  by (simp add: pow2_duration_def seconds_def)



end
