(* ===== verification/Log_Buffer.thy ===== *)
theory Log_Buffer
  imports Kerno_Prelude
begin

text \<open>
  The ring buffer of log lines, \<open>internal/daemon/logbuffer.go\<close>. Indices are Go \<open>int\<close>s (they go
  negative in \<open>Tail\<close>), and an index outside \<open>lines\<close> panics. The abstract view of a buffer is the list
  of its lines from the oldest to the newest; the locale \<open>bounded_log\<close> states the operations in
  terms of that list, and the interpretation at the end shows the code's buffer implements it.
\<close>

section \<open>The interface\<close>

definition last_n :: "nat \<Rightarrow> 'a list \<Rightarrow> 'a list" where
  "last_n n xs = drop (length xs - n) xs"

lemma length_last_n [simp]: "length (last_n n xs) = min n (length xs)"
  by (simp add: last_n_def)

lemma last_n_all: "length xs \<le> n \<Longrightarrow> last_n n xs = xs"
  by (simp add: last_n_def)

lemma last_n_last_n_append: "last_n n (last_n n xs @ ys) = last_n n (xs @ ys)"
  by (cases "n \<le> length xs") (auto simp: last_n_def add.commute)

locale bounded_log =
  fixes new :: "int \<Rightarrow> 'b"
    and append_line :: "string \<Rightarrow> 'b \<Rightarrow> ('e, 'b) outcome"
    and tail :: "int \<Rightarrow> 'b \<Rightarrow> ('f, string list) outcome"
    and len :: "'b \<Rightarrow> int"
    and clear :: "'b \<Rightarrow> 'b"
    and inv :: "'b \<Rightarrow> bool"
    and contents :: "'b \<Rightarrow> string list"
    and cap :: "'b \<Rightarrow> nat"
  assumes new_ok: "inv (new n)" "contents (new n) = []" "cap (new n) = (if n \<le> 0 then 1 else nat n)"
    and append_ok: "inv b \<Longrightarrow> \<exists>b'. append_line l b = Ok b' \<and> inv b' \<and> cap b' = cap b
        \<and> contents b' = last_n (cap b) (contents b @ [l])"
    and tail_ok: "inv b \<Longrightarrow> tail n b = Ok (take (if n \<le> 0 then 50 else nat n) (contents b))"
    and len_ok: "inv b \<Longrightarrow> len b = int (length (contents b))"
    and clear_ok: "inv b \<Longrightarrow> inv (clear b) \<and> contents (clear b) = [] \<and> cap (clear b) = cap b"
begin

fun append_all :: "string list \<Rightarrow> 'b \<Rightarrow> ('e, 'b) outcome" where
  "append_all [] b = Ok b"
| "append_all (l # ls) b = obind (append_line l b) (append_all ls)"

lemma append_all_ok:
  "inv b \<Longrightarrow> length (contents b) \<le> cap b \<Longrightarrow>
     \<exists>b'. append_all ls b = Ok b' \<and> inv b' \<and> cap b' = cap b
        \<and> contents b' = last_n (cap b) (contents b @ ls)"
proof (induction ls arbitrary: b)
  case Nil
  then show ?case by (simp add: last_n_all)
next
  case (Cons l ls)
  obtain b1 where b1: "append_line l b = Ok b1" "inv b1" "cap b1 = cap b"
      "contents b1 = last_n (cap b) (contents b @ [l])"
    using append_ok [OF Cons.prems(1)] by blast
  then have "length (contents b1) \<le> cap b1" by simp
  from Cons.IH [OF b1(2) this] b1 show ?case
    by (simp add: last_n_last_n_append)
qed

lemma appends_to_new:
  "\<exists>b'. append_all ls (new n) = Ok b' \<and> inv b' \<and> contents b' = last_n (cap (new n)) ls"
  using append_all_ok [OF new_ok(1) [of n], of ls] new_ok(2) [of n] by auto

lemma tail_of_appends:
  assumes "append_all ls (new n) = Ok b"
  shows "tail k b = Ok (take (if k \<le> 0 then 50 else nat k) (last_n (cap (new n)) ls))"
  using appends_to_new [of ls n] assms tail_ok [of b k] by auto

lemma len_of_appends: "append_all ls (new n) = Ok b \<Longrightarrow> len b = int (min (cap (new n)) (length ls))"
  using appends_to_new [of ls n] len_ok [of b] by auto

end

section \<open>The buffer of the code\<close>

record log_buffer =
  lb_lines :: "string list"
  lb_max_size :: int
  lb_pos :: int
  lb_full :: bool

definition new_log_buffer :: "int \<Rightarrow> log_buffer" where
  "new_log_buffer maxSize =
     (let m = (if maxSize \<le> 0 then 1 else maxSize)
      in \<lparr>lb_lines = replicate (nat m) [], lb_max_size = m, lb_pos = 0, lb_full = False\<rparr>)"

text \<open>\<open>lb.lines[idx]\<close> panics outside the slice.\<close>

definition lb_in_range :: "log_buffer \<Rightarrow> int \<Rightarrow> bool" where
  "lb_in_range lb idx \<longleftrightarrow> 0 \<le> idx \<and> idx < int (length (lb_lines lb))"

definition lb_append :: "string \<Rightarrow> log_buffer \<Rightarrow> (unit, log_buffer) outcome" where
  "lb_append line lb =
     (if \<not> lb_in_range lb (lb_pos lb) then Panic
      else
        let lb1 = lb\<lparr>lb_lines := (lb_lines lb)[nat (lb_pos lb) := line], lb_pos := lb_pos lb + 1\<rparr>
        in Ok (if lb_pos lb1 \<ge> lb_max_size lb1 then lb1\<lparr>lb_pos := 0, lb_full := True\<rparr> else lb1))"

fun lb_collect :: "log_buffer \<Rightarrow> int \<Rightarrow> int list \<Rightarrow> (unit, string list) outcome" where
  "lb_collect lb sz [] = Ok []"
| "lb_collect lb sz (i # ixs) =
     (let idx0 = lb_pos lb - sz + i;
          idx1 = (if idx0 < 0 then idx0 + lb_max_size lb else idx0);
          idx = (if idx1 \<ge> lb_max_size lb then idx1 - lb_max_size lb else idx1)
      in if \<not> lb_in_range lb idx then Panic
         else obind (lb_collect lb sz ixs) (\<lambda>ls. Ok ((lb_lines lb ! nat idx) # ls)))"

definition lb_tail :: "int \<Rightarrow> log_buffer \<Rightarrow> (unit, string list) outcome" where
  "lb_tail n0 lb =
     (let n1 = (if n0 \<le> 0 then 50 else n0);
          sz = (if lb_full lb then lb_max_size lb else lb_pos lb);
          n = (if n1 > sz then sz else n1)
      in if n < 0 then Panic
         else lb_collect lb sz (map int [0..<nat n]))"

definition lb_len :: "log_buffer \<Rightarrow> int" where
  "lb_len lb = (if lb_full lb then lb_max_size lb else lb_pos lb)"

definition lb_clear :: "log_buffer \<Rightarrow> log_buffer" where
  "lb_clear lb = lb\<lparr>lb_pos := 0, lb_full := False, lb_lines := map (\<lambda>_. []) (lb_lines lb)\<rparr>"

section \<open>Invariant and contents\<close>

definition lb_inv :: "log_buffer \<Rightarrow> bool" where
  "lb_inv lb \<longleftrightarrow> lb_max_size lb \<ge> 1 \<and> int (length (lb_lines lb)) = lb_max_size lb
     \<and> 0 \<le> lb_pos lb \<and> lb_pos lb < lb_max_size lb"

definition lb_contents :: "log_buffer \<Rightarrow> string list" where
  "lb_contents lb =
     (if lb_full lb then drop (nat (lb_pos lb)) (lb_lines lb) @ take (nat (lb_pos lb)) (lb_lines lb)
      else take (nat (lb_pos lb)) (lb_lines lb))"

definition lb_cap :: "log_buffer \<Rightarrow> nat" where
  "lb_cap lb = nat (lb_max_size lb)"

lemma lb_inv_new: "lb_inv (new_log_buffer n)"
  by (simp add: lb_inv_def new_log_buffer_def Let_def)

lemma lb_inv_clear: "lb_inv lb \<Longrightarrow> lb_inv (lb_clear lb)"
  by (simp add: lb_inv_def lb_clear_def)

lemma lb_contents_length:
  "lb_inv lb \<Longrightarrow> length (lb_contents lb) = (if lb_full lb then lb_cap lb else nat (lb_pos lb))"
  by (auto simp: lb_inv_def lb_contents_def lb_cap_def)

lemma lb_append_ok:
  assumes "lb_inv lb"
  shows "\<exists>lb'. lb_append l lb = Ok lb' \<and> lb_inv lb' \<and> lb_cap lb' = lb_cap lb
    \<and> lb_contents lb' = last_n (lb_cap lb) (lb_contents lb @ [l])"
proof -
  obtain p where p: "lb_pos lb = int p" "p < length (lb_lines lb)"
    using assms by (auto simp: lb_inv_def intro!: that [of "nat (lb_pos lb)"])
  have m: "lb_max_size lb = int (length (lb_lines lb))"
    using assms by (simp add: lb_inv_def)
  let ?xs = "lb_lines lb" and ?ys = "(lb_lines lb)[p := l]"
  have split: "drop p ?xs = (?xs ! p) # drop (Suc p) ?xs"
    using p(2) by (rule Cons_nth_drop_Suc [symmetric])
  have take: "take (Suc p) ?ys = take p ?xs @ [l]"
    using p(2) by (simp add: take_Suc_conv_app_nth)
  have drop: "drop (Suc p) ?ys = drop (Suc p) ?xs"
    by simp
  show ?thesis
  proof (cases "Suc p = length ?xs")
    case True
    with take have whole: "?ys = take p ?xs @ [l]" by simp
    show ?thesis
      using True p m split assms
      by (auto simp: lb_append_def lb_in_range_def lb_inv_def lb_cap_def lb_contents_def Let_def
          last_n_def whole)
  next
    case False
    with p have lt: "Suc p < length ?xs" by simp
    have over: "Suc (Suc (length ?xs - Suc 0)) - length ?xs = Suc 0" using lt by simp
    show ?thesis
      using lt p m split assms take drop over
      by (auto simp: lb_append_def lb_in_range_def lb_inv_def lb_cap_def lb_contents_def Let_def
          last_n_def nat_add_distrib)
  qed
qed

lemma lb_collect_ok:
  assumes "lb_inv lb" and "sz = int (length (lb_contents lb))"
    and "\<forall>i \<in> set ixs. i < length (lb_contents lb)"
  shows "lb_collect lb sz (map int ixs) = Ok (map ((!) (lb_contents lb)) ixs)"
  using assms(3)
proof (induction ixs)
  case Nil
  then show ?case by simp
next
  case (Cons i ixs)
  obtain p where p: "lb_pos lb = int p" "p < length (lb_lines lb)"
    using assms(1) by (auto simp: lb_inv_def intro!: that [of "nat (lb_pos lb)"])
  have i: "i < length (lb_contents lb)" using Cons.prems by simp
  let ?n = "length (lb_lines lb)"
  have m: "lb_max_size lb = int ?n" using assms(1) by (simp add: lb_inv_def)
  show ?case
  proof (cases "lb_full lb")
    case True
    then have c: "lb_contents lb = drop p (lb_lines lb) @ take p (lb_lines lb)"
      by (simp add: lb_contents_def p)
    show ?thesis
      using True Cons i p m assms(2)
      by (auto simp: c lb_in_range_def Let_def nth_append nat_diff_distrib' nat_int_add
          nth_take add.commute algebra_simps)
  next
    case False
    then have c: "lb_contents lb = take p (lb_lines lb)"
      by (simp add: lb_contents_def p)
    show ?thesis
      using False Cons i p m assms(2) by (simp add: c lb_in_range_def Let_def)
  qed
qed

lemma lb_len_contents: "lb_inv lb \<Longrightarrow> lb_len lb = int (length (lb_contents lb))"
  by (auto simp: lb_contents_length lb_len_def lb_inv_def lb_cap_def)

lemma lb_tail_ok:
  assumes "lb_inv lb"
  shows "lb_tail n lb = Ok (take (if n \<le> 0 then 50 else nat n) (lb_contents lb))"
proof -
  let ?k = "if n \<le> 0 then 50 else nat n" and ?c = "lb_contents lb"
  have sz: "(if lb_full lb then lb_max_size lb else lb_pos lb) = int (length ?c)"
    using lb_len_contents [OF assms] by (simp add: lb_len_def)
  let ?m = "min ?k (length ?c)"
  have "lb_tail n lb = lb_collect lb (int (length ?c)) (map int [0..<?m])"
    unfolding lb_tail_def sz Let_def by (auto simp: min_def nat_le_iff not_le)
  also have "\<dots> = Ok (map ((!) ?c) [0..<?m])"
    by (rule lb_collect_ok [OF assms refl]) simp
  also have "map ((!) ?c) [0..<?m] = take ?k ?c"
    by (simp add: list_eq_iff_nth_eq)
  finally show ?thesis .
qed

lemma lb_clear_contents: "lb_contents (lb_clear lb) = []"
  by (simp add: lb_contents_def lb_clear_def)

lemma lb_new_contents: "lb_contents (new_log_buffer n) = []"
  by (simp add: lb_contents_def new_log_buffer_def Let_def)

interpretation ring: bounded_log new_log_buffer lb_append lb_tail lb_len lb_clear lb_inv lb_contents lb_cap
proof
  show "lb_inv (new_log_buffer n)" "lb_contents (new_log_buffer n) = []" for n
    by (rule lb_inv_new, rule lb_new_contents)
  show "lb_cap (new_log_buffer n) = (if n \<le> 0 then 1 else nat n)" for n
    by (simp add: lb_cap_def new_log_buffer_def Let_def)
  show "\<exists>b'. lb_append l b = Ok b' \<and> lb_inv b' \<and> lb_cap b' = lb_cap b
      \<and> lb_contents b' = last_n (lb_cap b) (lb_contents b @ [l])" if "lb_inv b" for b l
    using that by (rule lb_append_ok)
  show "lb_tail n b = Ok (take (if n \<le> 0 then 50 else nat n) (lb_contents b))" if "lb_inv b" for b n
    using that by (rule lb_tail_ok)
  show "lb_len b = int (length (lb_contents b))" if "lb_inv b" for b
    using that by (rule lb_len_contents)
  show "lb_inv (lb_clear b) \<and> lb_contents (lb_clear b) = [] \<and> lb_cap (lb_clear b) = lb_cap b"
    if "lb_inv b" for b
    using that by (simp add: lb_inv_clear lb_clear_contents) (simp add: lb_cap_def lb_clear_def)
qed

section \<open>Properties\<close>

text \<open>Feeding lines to a buffer one after the other, as the log callback of a daemon does.\<close>

fun lb_append_all :: "string list \<Rightarrow> log_buffer \<Rightarrow> (unit, log_buffer) outcome" where
  "lb_append_all [] lb = Ok lb"
| "lb_append_all (l # ls) lb = obind (lb_append l lb) (lb_append_all ls)"

lemma lb_append_all_ring: "lb_append_all ls lb = ring.append_all ls lb"
  by (induction ls arbitrary: lb) (auto intro!: arg_cong2 [where f = obind])

text \<open>C36: a new buffer accepts any sequence of lines without an index panic, stays well formed, and
  then holds the last \<open>maxSize\<close> of them (one if \<open>maxSize\<close> is not positive), oldest first.\<close>

theorem log_buffer_keeps_last_lines:
  "\<exists>lb. lb_append_all ls (new_log_buffer n) = Ok lb \<and> lb_inv lb
     \<and> lb_contents lb = last_n (if n \<le> 0 then 1 else nat n) ls"
  using ring.appends_to_new [of ls n] by (simp add: lb_append_all_ring ring.new_ok(3))

text \<open>What \<open>Tail(k)\<close> returns after a run of appends: the first \<open>k\<close> of the lines the buffer holds
  (50 when \<open>k\<close> is not positive), that is the oldest ones it still has; no index panics.\<close>

theorem log_buffer_tail_is_oldest:
  assumes "lb_append_all ls (new_log_buffer n) = Ok lb"
  shows "lb_tail k lb
    = Ok (take (if k \<le> 0 then 50 else nat k) (last_n (if n \<le> 0 then 1 else nat n) ls))"
  using ring.tail_of_appends [of ls n lb k] assms by (simp add: lb_append_all_ring ring.new_ok(3))

text \<open>Two lines in a buffer of three: \<open>Tail(1)\<close> is the first line written, not the last.\<close>

theorem log_buffer_tail_is_oldest_witness:
  "\<exists>lb. lb_append_all [''old'', ''new''] (new_log_buffer 3) = Ok lb \<and> lb_tail 1 lb = Ok [''old'']"
proof -
  obtain lb where lb: "lb_append_all [''old'', ''new''] (new_log_buffer 3) = Ok lb"
    by (simp add: lb_append_def new_log_buffer_def lb_in_range_def Let_def)
  from log_buffer_tail_is_oldest [OF this, of 1] lb show ?thesis
    by (simp add: last_n_def)
qed

end
