(* ===== verification/Polling.thy ===== *)
theory Polling
  imports Kerno_Prelude
begin

text \<open>
  The polling loop that \<open>waitForSocket\<close>, \<open>waitForHealthy\<close> and the three stop functions have in
  common: while the clock is before a deadline, look at the world and leave when it says so, else sleep
  and look again. Time is in nanoseconds. The world is a function of time: \<open>check t\<close> is what the
  body of the loop finds at time \<open>t\<close>, and \<open>lag t\<close> is what one round takes besides its sleep.
  The sleep is a positive constant in all five loops; the guard on it makes the recursion total.
\<close>

type_synonym time = int

definition ms :: "int \<Rightarrow> time" where "ms n = n * 1000000"
definition sec :: "int \<Rightarrow> time" where "sec n = n * 1000000000"

function poll_loop ::
  "(time \<Rightarrow> 'r option) \<Rightarrow> 'r \<Rightarrow> time \<Rightarrow> (time \<Rightarrow> nat) \<Rightarrow> time \<Rightarrow> time \<Rightarrow> 'r \<times> time" where
  "poll_loop check expired step lag deadline now =
     (if now < deadline \<and> 0 < step then
        case check now of
          Some r \<Rightarrow> (r, now)
        | None \<Rightarrow> poll_loop check expired step lag deadline (now + step + int (lag now))
      else (expired, now))"
  by pat_completeness auto
termination
  by (relation "measure (\<lambda>(check, expired, step, lag, deadline, now). nat (deadline - now))") auto

declare poll_loop.simps [simp del]

lemma poll_first: "now < deadline \<Longrightarrow> 0 < step \<Longrightarrow> check now = Some r \<Longrightarrow>
    poll_loop check expired step lag deadline now = (r, now)"
  by (subst poll_loop.simps) simp

lemma poll_expired: "deadline \<le> now \<Longrightarrow> poll_loop check expired step lag deadline now = (expired, now)"
  by (subst poll_loop.simps) simp

text \<open>The answer is one the body gave at the time it was given, or the deadline has passed.\<close>

lemma poll_result:
  assumes "0 < step" and "poll_loop check expired step lag deadline now = (r, t)"
  shows "now \<le> t \<and> (t < deadline \<and> check t = Some r \<or> deadline \<le> t \<and> r = expired)"
  using assms
proof (induction check expired step lag deadline now rule: poll_loop.induct)
  case (1 check expired step lag deadline now)
  show ?case
  proof (cases "now < deadline")
    case False
    then show ?thesis using 1(3) by (simp add: poll_expired)
  next
    case True
    show ?thesis
    proof (cases "check now")
      case (Some x)
      then show ?thesis using 1(2,3) True by (simp add: poll_first)
    next
      case None
      then have "poll_loop check expired step lag deadline (now + step + int (lag now)) = (r, t)"
        using 1(2,3) True by (subst (asm) poll_loop.simps) simp
      with 1(1) None True 1(2) show ?thesis by force
    qed
  qed
qed

text \<open>How late the loop can return: after the deadline at most by one sleep and one round's lag.\<close>

lemma poll_returns_by:
  assumes "0 < step" and "\<forall>t. int (lag t) \<le> L" and "poll_loop check expired step lag deadline now = (r, t)"
    and "now \<le> deadline + step + L"
  shows "t \<le> deadline + step + L"
  using assms
proof (induction check expired step lag deadline now rule: poll_loop.induct)
  case (1 check expired step lag deadline now)
  show ?case
  proof (cases "now < deadline \<and> check now = None")
    case False
    then have "t = now"
      using 1(4) by (subst (asm) poll_loop.simps) (auto split: if_splits option.splits)
    then show ?thesis using 1(5) by simp
  next
    case True
    then have rec: "poll_loop check expired step lag deadline (now + step + int (lag now)) = (r, t)"
      using 1(2,4) by (subst (asm) poll_loop.simps) simp
    have "now + step + int (lag now) \<le> deadline + step + L"
      using True 1(3) by (smt (verit))
    then show ?thesis using 1(1) [OF _ _ 1(2,3) rec] True 1(2) by simp
  qed
qed

text \<open>When nothing is ever found the loop runs into its deadline.\<close>

lemma poll_never:
  assumes "0 < step" and "\<And>t. now \<le> t \<Longrightarrow> t < deadline \<Longrightarrow> check t = None"
  shows "fst (poll_loop check expired step lag deadline now) = expired"
proof -
  obtain r t where p: "poll_loop check expired step lag deadline now = (r, t)" by fastforce
  with poll_result [OF assms(1) p] assms(2) show ?thesis by force
qed

section \<open>Stopping a process group\<close>

text \<open>The three stop functions wait for a process group to disappear: it does, the caller's context is
  done first, or ten seconds pass.\<close>

datatype stop_result = Exited | Cancelled | StillAlive

definition stop_check :: "(time \<Rightarrow> bool) \<Rightarrow> (time \<Rightarrow> bool) \<Rightarrow> time \<Rightarrow> stop_result option" where
  "stop_check alive cancelled t =
     (if \<not> alive t then Some Exited else if cancelled t then Some Cancelled else None)"

definition stop_wait ::
  "(time \<Rightarrow> bool) \<Rightarrow> (time \<Rightarrow> bool) \<Rightarrow> (time \<Rightarrow> nat) \<Rightarrow> time \<Rightarrow> stop_result \<times> time" where
  "stop_wait alive cancelled lag now =
     poll_loop (stop_check alive cancelled) StillAlive (ms 100) lag (now + sec 10) now"

lemma ms_pos [simp]: "0 < n \<Longrightarrow> 0 < ms n"
  by (simp add: ms_def)

lemma stop_wait_Exited:
  "stop_wait alive cancelled lag now = (Exited, t) \<Longrightarrow> \<not> alive t \<and> now \<le> t \<and> t < now + sec 10"
  using poll_result [of "ms 100" "stop_check alive cancelled" StillAlive lag "now + sec 10" now Exited t]
  by (auto simp: stop_wait_def stop_check_def split: if_splits)

lemma stop_wait_dead:
  "\<not> alive now \<Longrightarrow> stop_wait alive cancelled lag now = (Exited, now)"
  by (simp add: stop_wait_def stop_check_def poll_first sec_def)

lemma stop_wait_survivor:
  "(\<And>t. alive t \<and> \<not> cancelled t) \<Longrightarrow> fst (stop_wait alive cancelled lag now) = StillAlive"
  by (simp add: stop_wait_def stop_check_def poll_never)

lemma stop_wait_by:
  assumes "\<forall>t. int (lag t) \<le> L" and "stop_wait alive cancelled lag now = (r, t)"
  shows "now \<le> t \<and> t \<le> now + sec 10 + ms 100 + L"
proof -
  have "0 \<le> L" using assms(1) by (meson of_nat_0_le_iff order_trans)
  then have start: "now \<le> (now + sec 10) + ms 100 + L" by (simp add: sec_def ms_def)
  note loop = assms(2) [unfolded stop_wait_def]
  have "t \<le> (now + sec 10) + ms 100 + L"
    by (rule poll_returns_by [OF _ assms(1) loop start]) simp
  moreover have "now \<le> t" using poll_result [OF _ loop] by simp
  ultimately show ?thesis by simp
qed

end
