(* ===== verification/Daemon_Manager.thy ===== *)
theory Daemon_Manager
  imports Restart_Policy Log_Buffer Polling
begin

text \<open>
  The daemon manager: \<open>internal/daemon/daemon.go\<close>, \<open>manager.go\<close> and the monitor of \<open>restart.go\<close>.
  The manager's state holds its map of daemons, the clock, and the trace of what it did to the
  outside world (processes spawned, signals sent, log writers closed, monitors launched). What the
  operating system answers is the record \<open>dm_env\<close>, whose fields are functions of time. The sections
  the code runs under a daemon's lock are definitions of their own, from which the operations here
  and the interleaved steps of \<open>Daemon_Steps\<close> are both put together.
\<close>

section \<open>Data\<close>

datatype daemon_state =
  DaemonStopped | DaemonStarting | DaemonRunning | DaemonFailed | DaemonDisabled

fun daemon_state_name :: "daemon_state \<Rightarrow> string" where
  "daemon_state_name DaemonStopped = ''stopped''"
| "daemon_state_name DaemonStarting = ''starting''"
| "daemon_state_name DaemonRunning = ''running''"
| "daemon_state_name DaemonFailed = ''failed''"
| "daemon_state_name DaemonDisabled = ''disabled''"

record daemon_config =
  dc_name :: string
  dc_exec :: string
  dc_order :: int
  dc_restart :: restart_policy
  dc_ready_timeout :: time
  dc_socket :: string
  dc_env :: "string go_map"
  dc_enabled :: bool

text \<open>\<open>d_cmd\<close> is the process \<open>Cmd\<close> points to, None for a nil pointer; \<open>d_log_writers\<close> says whether
  the pointer to the log writers is set; a time of 0 is Go's zero time.\<close>

record daemon =
  d_name :: string
  d_config :: daemon_config
  d_state :: daemon_state
  d_cmd :: "int option"
  d_pid :: int
  d_pgid :: int
  d_started_at :: time
  d_stopped_at :: time
  d_restart_count :: int
  d_logs :: log_buffer
  d_log_writers :: bool

datatype signal = SIGTERM | SIGKILL

datatype effect =
    Spawned string int
  | Signalled int signal
  | WritersClosed string
  | MonitorLaunched string
  | BackedOff string duration
  | KilledByContext int

record dm =
  dm_configs :: "daemon_config list"
  dm_daemons :: "daemon go_map"
  dm_clock :: time
  dm_trace :: "effect list"

text \<open>The outside world: whether \<open>logdup.Duplicate\<close> succeeds, the process \<open>cmd.Start\<close> creates or
  None for its error, whether a socket accepts a connection, whether \<open>kill(-pgid, 0)\<close> finds the
  group, whether SIGKILL can be sent (or finds no group), whether the context is done before the
  next tick, the scheduling lag, and the float conversion of \<^const>\<open>pow2_duration\<close>.\<close>

record dm_env =
  e_logdup :: "string \<Rightarrow> time \<Rightarrow> bool"
  e_spawn :: "string \<Rightarrow> time \<Rightarrow> int option"
  e_dial :: "string \<Rightarrow> time \<Rightarrow> bool"
  e_alive :: "int \<Rightarrow> time \<Rightarrow> bool"
  e_kill_ok :: "int \<Rightarrow> bool"
  e_cancelled :: "time \<Rightarrow> bool"
  e_lag :: "time \<Rightarrow> nat"
  e_ovf :: duration

datatype dm_error =
    DaemonNotFound string
  | CannotStart string daemon_state
  | LogdupFailed string
  | SpawnFailed string
  | SocketTimeout string
  | KillFailed string int
  | CtxDone
  | GroupFailed int dm_error

section \<open>Sections under a daemon's lock\<close>

definition set_state :: "daemon_state \<Rightarrow> daemon \<Rightarrow> daemon" where
  "set_state s d = d\<lparr>d_state := s\<rparr>"

definition is_running :: "daemon \<Rightarrow> bool" where
  "is_running d \<longleftrightarrow> d_state d = DaemonRunning"

definition uptime :: "time \<Rightarrow> daemon \<Rightarrow> time" where
  "uptime now d =
     (if d_state d \<noteq> DaemonRunning \<or> d_started_at d = 0 then 0 else now - d_started_at d)"

definition set_restart_policy :: "restart_policy \<Rightarrow> daemon \<Rightarrow> daemon" where
  "set_restart_policy p d = d\<lparr>d_config := (d_config d)\<lparr>dc_restart := p\<rparr>\<rparr>"

text \<open>The guard of \<open>Start\<close>.\<close>

datatype gate = Skip | Refuse daemon_state | Proceed

definition start_gate :: "daemon \<Rightarrow> gate" where
  "start_gate d =
     (if d_state d = DaemonRunning \<or> d_state d = DaemonStarting then Skip
      else if dc_enabled (d_config d) \<and> d_state d \<noteq> DaemonStopped \<and> d_state d \<noteq> DaemonFailed
              \<and> d_state d \<noteq> DaemonDisabled then Refuse (d_state d)
      else Proceed)"

definition record_process :: "int \<Rightarrow> time \<Rightarrow> daemon \<Rightarrow> daemon" where
  "record_process pid now d =
     d\<lparr>d_cmd := Some pid, d_pid := pid, d_pgid := pid, d_started_at := now, d_log_writers := True\<rparr>"

text \<open>\<open>cleanupDaemon\<close>.\<close>

definition cleanup_daemon :: "time \<Rightarrow> daemon \<Rightarrow> daemon" where
  "cleanup_daemon now d =
     d\<lparr>d_state := DaemonStopped, d_stopped_at := now, d_cmd := None, d_pid := 0, d_pgid := 0,
       d_log_writers := False\<rparr>"

text \<open>The end of the monitor when the policy says no: \<open>SetState(DaemonStopped)\<close>, then the fields.\<close>

definition monitor_clear :: "time \<Rightarrow> daemon \<Rightarrow> daemon" where
  "monitor_clear now d =
     d\<lparr>d_stopped_at := now, d_cmd := None, d_pid := 0, d_pgid := 0, d_log_writers := False\<rparr>"

text \<open>What the monitor does after the backoff, before it calls \<open>Start\<close>.\<close>

definition monitor_rearm :: "daemon \<Rightarrow> daemon" where
  "monitor_rearm d =
     d\<lparr>d_log_writers := False, d_restart_count := d_restart_count d + 1, d_cmd := None, d_pid := 0,
       d_pgid := 0\<rparr>"

definition close_writers :: "daemon \<Rightarrow> effect list" where
  "close_writers d = (if d_log_writers d then [WritersClosed (d_name d)] else [])"

section \<open>The manager's operations\<close>

definition default_log_buffer_size :: int where
  "default_log_buffer_size = 4096"

definition new_daemon :: "daemon_config \<Rightarrow> daemon" where
  "new_daemon dc =
     \<lparr>d_name = dc_name dc, d_config = dc,
      d_state = (if \<not> dc_enabled dc then DaemonDisabled else DaemonStopped),
      d_cmd = None, d_pid = 0, d_pgid = 0, d_started_at = 0, d_stopped_at = 0, d_restart_count = 0,
      d_logs = new_log_buffer default_log_buffer_size, d_log_writers = False\<rparr>"

definition new_daemon_manager :: "daemon_config list \<Rightarrow> time \<Rightarrow> dm" where
  "new_daemon_manager configs now =
     \<lparr>dm_configs = configs,
      dm_daemons = fold (\<lambda>dc. AList.update (dc_name dc) (new_daemon dc)) configs [],
      dm_clock = now, dm_trace = []\<rparr>"

definition dm_get :: "dm \<Rightarrow> string \<Rightarrow> daemon option" where
  "dm_get m name = map_of (dm_daemons m) name"

definition dm_list :: "dm \<Rightarrow> daemon list" where
  "dm_list m = map snd (dm_daemons m)"

text \<open>Writes to the manager's map, through the pointers in it, to the clock and to the trace.\<close>

definition dm_put :: "string \<Rightarrow> daemon \<Rightarrow> dm \<Rightarrow> dm" where
  "dm_put name d m = m\<lparr>dm_daemons := AList.update name d (dm_daemons m)\<rparr>"

definition dm_modify :: "string \<Rightarrow> (daemon \<Rightarrow> daemon) \<Rightarrow> dm \<Rightarrow> dm" where
  "dm_modify name f m = m\<lparr>dm_daemons := gm_modify name f (dm_daemons m)\<rparr>"

definition dm_emit :: "effect list \<Rightarrow> dm \<Rightarrow> dm" where
  "dm_emit es m = m\<lparr>dm_trace := dm_trace m @ es\<rparr>"

definition dm_at :: "time \<Rightarrow> dm \<Rightarrow> dm" where
  "dm_at t m = m\<lparr>dm_clock := t\<rparr>"

text \<open>\<open>waitForSocket\<close>.\<close>

definition wait_for_socket :: "dm_env \<Rightarrow> string \<Rightarrow> time \<Rightarrow> time \<Rightarrow> bool \<times> time" where
  "wait_for_socket env socket timeout now =
     (if socket = [] \<or> timeout \<le> 0 then (True, now)
      else poll_loop (\<lambda>t. if e_dial env socket t then Some True else None) False (ms 100) (e_lag env)
             (now + timeout) now)"

definition dm_start :: "dm_env \<Rightarrow> string \<Rightarrow> dm \<Rightarrow> dm \<times> dm_error option" where
  "dm_start env name m =
     (case dm_get m name of
        None \<Rightarrow> (m, Some (DaemonNotFound name))
      | Some d \<Rightarrow>
          (case start_gate d of
             Skip \<Rightarrow> (m, None)
           | Refuse s \<Rightarrow> (m, Some (CannotStart name s))
           | Proceed \<Rightarrow>
               let m1 = dm_modify name (set_state DaemonStarting) m;
                   cfg = d_config d
               in if \<not> e_logdup env name (dm_clock m)
                  then (dm_modify name (set_state DaemonFailed) m1, Some (LogdupFailed name))
                  else
                    (case e_spawn env name (dm_clock m) of
                       None \<Rightarrow>
                         (dm_modify name (set_state DaemonFailed) (dm_emit [WritersClosed name] m1),
                          Some (SpawnFailed name))
                     | Some pid \<Rightarrow>
                         let m2 = dm_emit [Spawned name pid]
                                    (dm_modify name (record_process pid (dm_clock m)) m1);
                             (ready, t) = (if dc_socket cfg \<noteq> []
                                           then wait_for_socket env (dc_socket cfg) (dc_ready_timeout cfg)
                                                  (dm_clock m)
                                           else (True, dm_clock m))
                         in if \<not> ready
                            then (dm_modify name (set_state DaemonFailed) (dm_at t m2),
                                  Some (SocketTimeout name))
                            else (dm_emit [MonitorLaunched name]
                                    (dm_modify name (set_state DaemonRunning) (dm_at t m2)), None))))"

definition dm_cleanup :: "string \<Rightarrow> time \<Rightarrow> dm \<Rightarrow> dm" where
  "dm_cleanup name now m =
     dm_modify name (cleanup_daemon now)
       (dm_emit (case dm_get m name of None \<Rightarrow> [] | Some d \<Rightarrow> close_writers d) (dm_at now m))"

definition dm_stop :: "dm_env \<Rightarrow> string \<Rightarrow> dm \<Rightarrow> dm \<times> dm_error option" where
  "dm_stop env name m =
     (case dm_get m name of
        None \<Rightarrow> (m, Some (DaemonNotFound name))
      | Some d \<Rightarrow>
          if d_state d \<noteq> DaemonRunning \<and> d_state d \<noteq> DaemonStarting then (m, None)
          else
            let pgid = d_pgid d;
                m1 = dm_emit [Signalled pgid SIGTERM] m
            in (case stop_wait (e_alive env pgid) (e_cancelled env) (e_lag env) (dm_clock m) of
                  (Exited, t) \<Rightarrow> (dm_cleanup name t m1, None)
                | (Cancelled, t) \<Rightarrow> (dm_at t m1, Some CtxDone)
                | (StillAlive, t) \<Rightarrow>
                    let m2 = dm_emit [Signalled pgid SIGKILL] (dm_at t m1)
                    in if \<not> e_kill_ok env pgid then (m2, Some (KillFailed name pgid))
                       else (dm_cleanup name (t + ms 100) m2, None)))"

text \<open>\<open>monitorDaemon\<close>: \<open>m0\<close> is the state when the goroutine begins, where it reads the command it waits
  for; \<open>m\<close> is the state when \<open>cmd.Wait\<close> returns, with an error if \<open>failed\<close>.\<close>

definition monitor_daemon :: "dm_env \<Rightarrow> dm \<Rightarrow> bool \<Rightarrow> string \<Rightarrow> dm \<Rightarrow> dm" where
  "monitor_daemon env m0 failed name m =
     (case (dm_get m0 name, dm_get m name) of
        (Some d0, Some d) \<Rightarrow>
          if d_cmd d0 = None then m
          else if \<not> should_restart (d_restart_count d) (dc_restart (d_config d)) failed
          then dm_modify name (monitor_clear (dm_clock m) \<circ> set_state DaemonStopped)
                 (dm_emit (close_writers d) m)
          else
            let delay = next_restart_delay (e_ovf env) (d_restart_count d)
            in if e_cancelled env (dm_clock m) then m
               else
                 let m1 = dm_modify name monitor_rearm
                            (dm_emit (BackedOff name delay # close_writers d)
                              (dm_at (dm_clock m + max 0 (sint delay)) m))
                 in (case dm_start env name m1 of
                       (m2, None) \<Rightarrow> m2
                     | (m2, Some e) \<Rightarrow> dm_modify name (set_state DaemonFailed) m2)
      | _ \<Rightarrow> m)"

text \<open>\<open>groupByOrder\<close>.\<close>

definition order_entries :: "daemon_config list \<Rightarrow> (string \<times> int) list" where
  "order_entries configs = map (\<lambda>dc. (dc_name dc, dc_order dc)) (filter dc_enabled configs)"

fun add_to_groups :: "(int \<times> string list) list \<Rightarrow> (string \<times> int) list \<Rightarrow> (int \<times> string list) list" where
  "add_to_groups groups [] = groups"
| "add_to_groups groups ((name, ord) # es) =
     (let groups' = (if groups = [] \<or> fst (last groups) \<noteq> ord then groups @ [(ord, [])] else groups)
      in add_to_groups (butlast groups' @ [(fst (last groups'), snd (last groups') @ [name])]) es)"

definition group_by_order ::
  "((string \<times> int) list \<Rightarrow> (string \<times> int) list) \<Rightarrow> daemon_config list \<Rightarrow> (int \<times> string list) list" where
  "group_by_order srt configs =
     (let entries = order_entries configs
      in if entries = [] then [] else add_to_groups [] (srt entries))"

text \<open>\<open>golang.org/x/sync/errgroup\<close>: what \<open>Wait\<close> makes of the errors the members returned, and whether
  the context derived by \<open>WithContext\<close> is done once \<open>Wait\<close> has returned. Its documentation promises
  an error of a member when there is one, and that the context is done.\<close>

record 'e errgroup =
  eg_wait :: "'e list \<Rightarrow> 'e option"
  eg_done_after_wait :: bool

definition errgroup_doc :: "'e errgroup \<Rightarrow> bool" where
  "errgroup_doc eg \<longleftrightarrow> eg_wait eg [] = None
     \<and> (\<forall>es. es \<noteq> [] \<longrightarrow> (\<exists>e \<in> set es. eg_wait eg es = Some e)) \<and> eg_done_after_wait eg"

definition first_error_group :: "'e errgroup" where
  "first_error_group =
     \<lparr>eg_wait = (\<lambda>es. case es of [] \<Rightarrow> None | e # _ \<Rightarrow> Some e), eg_done_after_wait = True\<rparr>"

lemma first_error_group_doc: "errgroup_doc first_error_group"
  by (auto simp: errgroup_doc_def first_error_group_def neq_Nil_conv)

text \<open>The members of a group run at the same time: each begins at the group's clock, the group ends
  with its last member. A process started by \<open>exec.CommandContext\<close> is killed when its context is
  done.\<close>

fun spawned :: "effect list \<Rightarrow> int list" where
  "spawned [] = []"
| "spawned (Spawned n pid # es) = pid # spawned es"
| "spawned (_ # es) = spawned es"

fun start_members :: "dm_env \<Rightarrow> time \<Rightarrow> string list \<Rightarrow> dm \<Rightarrow> dm \<times> dm_error list" where
  "start_members env t0 [] m = (m, [])"
| "start_members env t0 (name # names) m =
     (let (m1, e) = dm_start env name (dm_at t0 m);
          (m2, es) = start_members env t0 names m1
      in (dm_at (max (dm_clock m1) (dm_clock m2)) m2, (case e of None \<Rightarrow> es | Some x \<Rightarrow> x # es)))"

definition start_group ::
  "dm_env \<Rightarrow> dm_error errgroup \<Rightarrow> string list \<Rightarrow> dm \<Rightarrow> dm \<times> dm_error option" where
  "start_group env eg names m =
     (let (m1, es) = start_members env (dm_clock m) names m;
          new = drop (length (dm_trace m)) (dm_trace m1)
      in (if eg_done_after_wait eg then dm_emit (map KilledByContext (spawned new)) m1 else m1,
          eg_wait eg es))"

fun start_groups ::
  "dm_env \<Rightarrow> dm_error errgroup \<Rightarrow> (int \<times> string list) list \<Rightarrow> dm \<Rightarrow> dm \<times> dm_error option" where
  "start_groups env eg [] m = (m, None)"
| "start_groups env eg ((ord, names) # groups) m =
     (if e_cancelled env (dm_clock m) then (m, Some CtxDone)
      else case start_group env eg names m of
             (m1, None) \<Rightarrow> start_groups env eg groups m1
           | (m1, Some e) \<Rightarrow> (m1, Some (GroupFailed ord e)))"

definition dm_start_all ::
  "dm_env \<Rightarrow> dm_error errgroup \<Rightarrow> ((string \<times> int) list \<Rightarrow> (string \<times> int) list) \<Rightarrow> dm \<Rightarrow> dm \<times> dm_error option"
where
  "dm_start_all env eg srt m = start_groups env eg (group_by_order srt (dm_configs m)) m"

text \<open>\<open>StopAll\<close>.\<close>

definition stop_entries :: "dm \<Rightarrow> (string \<times> int) list" where
  "stop_entries m =
     map (\<lambda>d. (d_name d, dc_order (d_config d)))
       (filter (\<lambda>d. dc_enabled (d_config d) \<and> is_running d) (dm_list m))"

fun stop_each :: "dm_env \<Rightarrow> (string \<times> int) list \<Rightarrow> dm \<Rightarrow> dm \<times> dm_error option" where
  "stop_each env [] m = (m, None)"
| "stop_each env ((name, ord) # es) m =
     (let (m1, e) = dm_stop env name m;
          (m2, e') = stop_each env es m1
      in (m2, (case e of None \<Rightarrow> e' | Some x \<Rightarrow> Some x)))"

definition dm_stop_all ::
  "dm_env \<Rightarrow> ((string \<times> int) list \<Rightarrow> (string \<times> int) list) \<Rightarrow> dm \<Rightarrow> dm \<times> dm_error option" where
  "dm_stop_all env srt m = stop_each env (srt (stop_entries m)) m"

text \<open>\<open>reloadConfig\<close>: \<open>exists\<close> and \<open>loaded\<close> are what \<open>os.Stat\<close> and \<open>LoadConfig\<close> give; the two
  \<open>range\<close> loops over maps meet the entries in the orders \<open>ra\<close> and \<open>rr\<close>.\<close>

definition configs_by_name :: "daemon_config list \<Rightarrow> daemon_config go_map" where
  "configs_by_name cs = fold (\<lambda>nc. AList.update (dc_name nc) nc) cs []"

fun remove_daemons :: "dm_env \<Rightarrow> string list \<Rightarrow> dm \<Rightarrow> dm" where
  "remove_daemons env [] m = m"
| "remove_daemons env (name # names) m =
     (let m1 = fst (dm_stop env name m)
      in remove_daemons env names (m1\<lparr>dm_daemons := AList.delete name (dm_daemons m1)\<rparr>))"

fun add_daemons :: "dm_env \<Rightarrow> daemon_config list \<Rightarrow> dm \<Rightarrow> dm" where
  "add_daemons env [] m = m"
| "add_daemons env (dc # dcs) m =
     (let m1 = dm_put (dc_name dc) (new_daemon dc) m
      in add_daemons env dcs (if dc_enabled dc then fst (dm_start env (dc_name dc) m1) else m1))"

datatype reload_result = FileRemoved | ParseError | Reloaded

definition reload_config ::
  "dm_env \<Rightarrow> (daemon_config go_map \<Rightarrow> daemon_config go_map) \<Rightarrow> (string list \<Rightarrow> string list)
    \<Rightarrow> bool \<Rightarrow> daemon_config list option \<Rightarrow> dm \<Rightarrow> dm \<times> reload_result" where
  "reload_config env ra rr exists loaded m =
     (if \<not> exists then (m, FileRemoved)
      else case loaded of
             None \<Rightarrow> (m, ParseError)
           | Some newConfigs \<Rightarrow>
               let newByName = configs_by_name newConfigs;
                   oldByName = map fst (dm_daemons m);
                   added = map snd (filter (\<lambda>(name, nc). name \<notin> set oldByName) (ra newByName));
                   removed = filter (\<lambda>name. map_of newByName name = None) (rr oldByName);
                   m1 = add_daemons env added (remove_daemons env removed m)
               in (m1\<lparr>dm_configs := newConfigs\<rparr>, Reloaded))"

section \<open>The store of daemons\<close>

definition dm_map_ok :: "dm \<Rightarrow> bool" where
  "dm_map_ok m \<longleftrightarrow> go_map_ok (dm_daemons m)"

interpretation daemons: keyed_store dm_get dm_put dm_modify dm_map_ok
  by unfold_locales (simp_all add: dm_get_def [abs_def] dm_put_def dm_modify_def dm_map_ok_def)

named_theorems dm_simps \<open>how the accessors see the writes\<close>

lemma dm_get_emit [simp, dm_simps]: "dm_get (dm_emit es m) = dm_get m"
  by (simp add: dm_get_def [abs_def] dm_emit_def)

lemma dm_get_at [simp, dm_simps]: "dm_get (dm_at t m) = dm_get m"
  by (simp add: dm_get_def [abs_def] dm_at_def)

lemma dm_get_modify [dm_simps]:
  "dm_get (dm_modify name f m) = (dm_get m)(name := map_option f (dm_get m name))"
  by (rule daemons.lookup_modify)

lemma dm_get_put [dm_simps]: "dm_get (dm_put name d m) = (dm_get m)(name \<mapsto> d)"
  by (rule daemons.lookup_put)

lemma dm_trace_simps [simp, dm_simps]:
  "dm_trace (dm_emit es m) = dm_trace m @ es" "dm_trace (dm_at t m) = dm_trace m"
  "dm_trace (dm_modify name f m) = dm_trace m" "dm_trace (dm_put name d m) = dm_trace m"
  by (simp_all add: dm_emit_def dm_at_def dm_modify_def dm_put_def)

lemma dm_clock_simps [simp, dm_simps]:
  "dm_clock (dm_emit es m) = dm_clock m" "dm_clock (dm_at t m) = t"
  "dm_clock (dm_modify name f m) = dm_clock m" "dm_clock (dm_put name d m) = dm_clock m"
  by (simp_all add: dm_emit_def dm_at_def dm_modify_def dm_put_def)

lemma dm_configs_simps [simp, dm_simps]:
  "dm_configs (dm_emit es m) = dm_configs m" "dm_configs (dm_at t m) = dm_configs m"
  "dm_configs (dm_modify name f m) = dm_configs m" "dm_configs (dm_put name d m) = dm_configs m"
  by (simp_all add: dm_emit_def dm_at_def dm_modify_def dm_put_def)

lemma dm_map_ok_simps [simp, dm_simps]:
  "dm_map_ok (dm_emit es m) = dm_map_ok m" "dm_map_ok (dm_at t m) = dm_map_ok m"
  by (simp_all add: dm_map_ok_def dm_emit_def dm_at_def)

lemma dm_map_ok_modify [simp, dm_simps]: "dm_map_ok m \<Longrightarrow> dm_map_ok (dm_modify name f m)"
  by (rule daemons.inv_modify)

end
