(* ===== verification/Daemon_Lifecycle.thy ===== *)
theory Daemon_Lifecycle
  imports Daemon_Manager
begin

text \<open>
  What the daemon manager's operations do, one after the other: the invariant of its records, the
  outcome of \<open>Start\<close> and \<open>Stop\<close> on every branch, what the monitor's restart comes to, the order of
  \<open>StartAll\<close> and \<open>StopAll\<close>, and reloading.
\<close>

section \<open>What an operation on one daemon leaves alone\<close>

definition touches_only :: "string \<Rightarrow> dm \<Rightarrow> dm \<Rightarrow> bool" where
  "touches_only name m m' \<longleftrightarrow>
     (\<forall>k. k \<noteq> name \<longrightarrow> dm_get m' k = dm_get m k)
     \<and> (dm_get m' name = None \<longleftrightarrow> dm_get m name = None)
     \<and> dm_configs m' = dm_configs m \<and> (dm_map_ok m \<longrightarrow> dm_map_ok m')
     \<and> (\<exists>es. dm_trace m' = dm_trace m @ es)"

lemma touches_only_refl [simp]: "touches_only name m m"
  by (simp add: touches_only_def)

lemma touches_only_trans:
  "touches_only name m m' \<Longrightarrow> touches_only name m' m'' \<Longrightarrow> touches_only name m m''"
  by (auto simp: touches_only_def)

lemma touches_modify [simp]: "touches_only name m m' \<Longrightarrow> touches_only name m (dm_modify name f m')"
  by (auto simp: touches_only_def dm_get_modify)

lemma touches_emit [simp]: "touches_only name m m' \<Longrightarrow> touches_only name m (dm_emit es m')"
  by (auto simp: touches_only_def)

lemma touches_at [simp]: "touches_only name m m' \<Longrightarrow> touches_only name m (dm_at t m')"
  by (auto simp: touches_only_def)

lemma touches_cleanup [simp]: "touches_only name m m' \<Longrightarrow> touches_only name m (dm_cleanup name t m')"
  by (simp add: dm_cleanup_def)

lemma start_touches: "touches_only name m (fst (dm_start env name m))"
  by (simp add: dm_start_def Let_def split: option.split gate.split prod.split)

lemma stop_touches: "touches_only name m (fst (dm_stop env name m))"
  by (simp add: dm_stop_def Let_def split: option.split stop_result.split prod.split)

lemma monitor_touches: "touches_only name m (monitor_daemon env m0 failed name m)"
proof -
  have "touches_only name m m2" if "dm_start env name m1 = (m2, e)" "touches_only name m m1" for m1 m2 e
    using start_touches [of name m1 env] that touches_only_trans by force
  then show ?thesis
    by (auto simp: monitor_daemon_def Let_def split: option.split prod.split)
qed

interpretation starts: named_op dm_get "\<lambda>n m. fst (dm_start env n m)" for env
  using start_touches by unfold_locales (auto simp: touches_only_def)

interpretation stops: named_op dm_get "\<lambda>n m. fst (dm_stop env n m)" for env
  using stop_touches by unfold_locales (auto simp: touches_only_def)

lemma spawned_append [simp]: "spawned (xs @ ys) = spawned xs @ spawned ys"
  by (induction xs rule: spawned.induct) auto

section \<open>The invariant\<close>

definition daemon_ok :: "string \<Rightarrow> daemon \<Rightarrow> bool" where
  "daemon_ok name d \<longleftrightarrow>
     d_name d = name \<and> d_pgid d = d_pid d \<and> d_pid d = (case d_cmd d of None \<Rightarrow> 0 | Some p \<Rightarrow> p)
     \<and> (d_state d = DaemonStopped \<or> d_state d = DaemonDisabled \<longrightarrow> d_cmd d = None \<and> \<not> d_log_writers d)
     \<and> d_state d \<noteq> DaemonStarting \<and> lb_inv (d_logs d)"

definition dm_inv :: "dm \<Rightarrow> bool" where
  "dm_inv m \<longleftrightarrow> dm_map_ok m \<and> (\<forall>name d. dm_get m name = Some d \<longrightarrow> daemon_ok name d)"

lemma dm_inv_of_touch:
  assumes "dm_inv m" and "touches_only name m m'"
    and "\<And>d. dm_get m' name = Some d \<Longrightarrow> daemon_ok name d"
  shows "dm_inv m'"
  using assms unfolding dm_inv_def touches_only_def by metis

lemmas daemon_sections =
  set_state_def record_process_def cleanup_daemon_def monitor_clear_def monitor_rearm_def

text \<open>The four ways \<open>Start\<close> can end for a known daemon.\<close>

lemma start_cases:
  assumes "dm_get m name = Some d" and "dm_start env name m = (m', r)"
  shows "start_gate d = Skip \<and> r = None \<and> m' = m
      \<or> start_gate d = Proceed \<and> (r = Some (LogdupFailed name) \<or> r = Some (SpawnFailed name))
          \<and> dm_get m' name = Some (set_state DaemonFailed d)
          \<and> spawned (dm_trace m') = spawned (dm_trace m)
      \<or> start_gate d = Proceed \<and> r = Some (SocketTimeout name) \<and> dc_socket (d_config d) \<noteq> []
          \<and> (\<exists>pid. dm_get m' name
                = Some (set_state DaemonFailed (record_process pid (dm_clock m) d))
              \<and> dm_trace m' = dm_trace m @ [Spawned name pid])
      \<or> start_gate d = Proceed \<and> r = None
          \<and> (\<exists>pid. dm_get m' name
                = Some (set_state DaemonRunning (record_process pid (dm_clock m) d))
              \<and> dm_trace m' = dm_trace m @ [Spawned name pid, MonitorLaunched name])"
proof -
  have "start_gate d \<noteq> Refuse s" for s
    by (cases "d_state d") (auto simp: start_gate_def)
  with assms show ?thesis
    by (auto simp: dm_start_def Let_def dm_get_modify set_state_def record_process_def
        split: gate.splits option.splits if_splits prod.splits)
qed

lemma start_gate_Skip: "start_gate d = Skip \<longleftrightarrow> d_state d = DaemonRunning \<or> d_state d = DaemonStarting"
  by (simp add: start_gate_def)

text \<open>\<open>Start\<close> only needs its daemon to be well-formed.\<close>

lemma start_own_ok:
  assumes "\<And>d. dm_get m name = Some d \<Longrightarrow> daemon_ok name d"
    and "dm_get (fst (dm_start env name m)) name = Some d'"
  shows "daemon_ok name d'"
proof -
  obtain m' r where st: "dm_start env name m = (m', r)" by fastforce
  then have d': "dm_get m' name = Some d'" using assms(2) by simp
  moreover have "dm_get m' name = None \<longleftrightarrow> dm_get m name = None"
    using start_touches [of name m env] st by (simp add: touches_only_def)
  ultimately obtain d where d: "dm_get m name = Some d" by auto
  from start_cases [OF d st] assms(1) [OF d] d d' show ?thesis
    by (elim disjE conjE exE) (auto simp: daemon_ok_def daemon_sections)
qed

text \<open>What \<open>Stop\<close> does to a daemon that is running or starting, by the outcome of the wait.\<close>

lemma stop_active:
  assumes "dm_get m name = Some d" and "d_state d = DaemonRunning \<or> d_state d = DaemonStarting"
    and "stop_wait (e_alive env (d_pgid d)) (e_cancelled env) (e_lag env) (dm_clock m) = (w, t)"
  shows "dm_stop env name m =
    (let m1 = dm_emit [Signalled (d_pgid d) SIGTERM] m;
         m2 = dm_emit [Signalled (d_pgid d) SIGKILL] (dm_at t m1)
     in case w of
          Exited \<Rightarrow> (dm_cleanup name t m1, None)
        | Cancelled \<Rightarrow> (dm_at t m1, Some CtxDone)
        | StillAlive \<Rightarrow>
            if e_kill_ok env (d_pgid d) then (dm_cleanup name (t + ms 100) m2, None)
            else (m2, Some (KillFailed name (d_pgid d))))"
  using assms by (auto simp: dm_stop_def Let_def split: stop_result.split)

lemma stop_idle:
  "dm_get m name = Some d \<Longrightarrow> d_state d \<noteq> DaemonRunning \<Longrightarrow> d_state d \<noteq> DaemonStarting
     \<Longrightarrow> dm_stop env name m = (m, None)"
  by (simp add: dm_stop_def)

lemma cleanup_get:
  "dm_get (dm_cleanup name t m) name = map_option (cleanup_daemon t) (dm_get m name)"
  by (simp add: dm_cleanup_def dm_get_modify)

lemma cleanup_trace:
  "dm_get m name = Some d \<Longrightarrow> dm_trace (dm_cleanup name t m) = dm_trace m @ close_writers d"
  by (simp add: dm_cleanup_def)

lemma cleanup_clock [simp]: "dm_clock (dm_cleanup name t m) = t"
  by (simp add: dm_cleanup_def)

lemma stop_own_ok:
  assumes "\<And>d. dm_get m name = Some d \<Longrightarrow> daemon_ok name d"
    and "dm_get (fst (dm_stop env name m)) name = Some d'"
  shows "daemon_ok name d'"
proof -
  obtain d where d: "dm_get m name = Some d"
    using assms(2) stop_touches [of name m env] by (auto simp: touches_only_def)
  have ok: "daemon_ok name d" using assms(1) [OF d] .
  then have clean: "daemon_ok name (cleanup_daemon t d)" for t
    by (simp add: daemon_ok_def cleanup_daemon_def)
  show ?thesis
  proof (cases "d_state d = DaemonRunning \<or> d_state d = DaemonStarting")
    case True
    obtain w t where
      "stop_wait (e_alive env (d_pgid d)) (e_cancelled env) (e_lag env) (dm_clock m) = (w, t)"
      by fastforce
    from stop_active [OF d True this] assms(2) d ok clean show ?thesis
      by (auto simp: Let_def cleanup_get split: stop_result.splits if_splits)
  next
    case False
    with stop_idle [OF d] assms(2) ok d show ?thesis by auto
  qed
qed

lemma start_inv: "dm_inv m \<Longrightarrow> dm_inv (fst (dm_start env name m))"
  by (rule dm_inv_of_touch [OF _ start_touches], assumption, rule start_own_ok)
    (auto simp: dm_inv_def)

lemma stop_inv: "dm_inv m \<Longrightarrow> dm_inv (fst (dm_stop env name m))"
  by (rule dm_inv_of_touch [OF _ stop_touches], assumption, rule stop_own_ok)
    (auto simp: dm_inv_def)

section \<open>Start and stop, branch by branch\<close>

text \<open>C5: \<open>Start\<close> of a known daemon has four outcomes and no other (the error "cannot start in state" is
  unreachable): it is skipped when running or starting; nothing was spawned and the daemon is failed;
  a process was spawned but its socket did not answer, and the daemon is failed; or the daemon runs,
  its pid and process group are the new process, and one monitor was launched. No other daemon
  changes.\<close>

theorem start_outcome:
  assumes "dm_get m name = Some d" and "dm_start env name m = (m', r)"
  shows "(\<forall>k. k \<noteq> name \<longrightarrow> dm_get m' k = dm_get m k)
    \<and> (start_gate d = Skip \<and> r = None \<and> m' = m
      \<or> start_gate d = Proceed \<and> (r = Some (LogdupFailed name) \<or> r = Some (SpawnFailed name))
          \<and> dm_get m' name = Some (set_state DaemonFailed d)
          \<and> spawned (dm_trace m') = spawned (dm_trace m)
      \<or> start_gate d = Proceed \<and> r = Some (SocketTimeout name) \<and> dc_socket (d_config d) \<noteq> []
          \<and> (\<exists>pid. dm_get m' name
                = Some (set_state DaemonFailed (record_process pid (dm_clock m) d))
              \<and> dm_trace m' = dm_trace m @ [Spawned name pid])
      \<or> start_gate d = Proceed \<and> r = None
          \<and> (\<exists>pid. dm_get m' name
                = Some (set_state DaemonRunning (record_process pid (dm_clock m) d))
              \<and> dm_trace m' = dm_trace m @ [Spawned name pid, MonitorLaunched name]))"
  using start_cases [OF assms] start_touches [of name m env] assms(2)
  by (simp add: touches_only_def)

text \<open>A small installation to evaluate the model on: two daemons of order 10 and 20, the second with a
  socket; a process that starts gets pid 101 or 102; sockets answer, groups end on SIGTERM.\<close>

definition indexd_config :: daemon_config where
  "indexd_config =
     \<lparr>dc_name = ''indexd'', dc_exec = ''a-lancxo'', dc_order = 20, dc_restart = RestartAlways,
      dc_ready_timeout = sec 10, dc_socket = ''/tmp/indexd'', dc_env = [], dc_enabled = True\<rparr>"

definition bus_config :: daemon_config where
  "bus_config =
     \<lparr>dc_name = ''bus'', dc_exec = ''bus'', dc_order = 10, dc_restart = RestartOnFailure,
      dc_ready_timeout = sec 10, dc_socket = [], dc_env = [], dc_enabled = True\<rparr>"

definition demo_env :: dm_env where
  "demo_env =
     \<lparr>e_logdup = (\<lambda>_ _. True), e_spawn = (\<lambda>n _. Some (if n = ''bus'' then 101 else 102)),
      e_dial = (\<lambda>_ _. True), e_alive = (\<lambda>_ _. False), e_kill_ok = (\<lambda>_. True),
      e_cancelled = (\<lambda>_. False), e_lag = (\<lambda>_. 0), e_ovf = 0\<rparr>"

definition demo :: dm where
  "demo = new_daemon_manager [indexd_config, bus_config] 1"

definition silent_env :: dm_env where
  "silent_env = demo_env\<lparr>e_dial := (\<lambda>_ _. False)\<rparr>"

lemma demo_get:
  "dm_get demo ''indexd'' = Some (new_daemon indexd_config)"
  "dm_get demo ''bus'' = Some (new_daemon bus_config)"
  by (simp_all add: demo_def new_daemon_manager_def dm_get_def indexd_config_def bus_config_def)

lemma demo_gate:
  "start_gate (new_daemon indexd_config) = Proceed" "start_gate (new_daemon bus_config) = Proceed"
  by (simp_all add: start_gate_def new_daemon_def indexd_config_def bus_config_def)

lemma demo_config:
  "d_config (new_daemon dc) = dc" "dc_socket bus_config = []" "dc_socket indexd_config = ''/tmp/indexd''"
  "dc_ready_timeout indexd_config = sec 10" "dm_clock demo = 1" "dm_trace demo = []"
  by (simp_all add: new_daemon_def indexd_config_def bus_config_def demo_def new_daemon_manager_def)

lemma demo_env_simps:
  "e_logdup demo_env n t" "e_spawn demo_env n t = Some (if n = ''bus'' then 101 else 102)"
  "e_dial demo_env n t" "\<not> e_alive demo_env p t" "\<not> e_cancelled demo_env t"
  "e_logdup silent_env n t" "e_spawn silent_env n t = Some (if n = ''bus'' then 101 else 102)"
  "\<not> e_dial silent_env n t" "e_lag demo_env t = 0"
  by (simp_all add: demo_env_def silent_env_def)

lemmas demo_simps = demo_get demo_gate demo_config demo_env_simps

lemma demo_start_bus:
  "dm_start demo_env ''bus'' demo =
     (dm_emit [MonitorLaunched ''bus''] (dm_modify ''bus'' (set_state DaemonRunning) (dm_at 1
        (dm_emit [Spawned ''bus'' 101] (dm_modify ''bus'' (record_process 101 1)
          (dm_modify ''bus'' (set_state DaemonStarting) demo))))), None)"
  by (simp add: dm_start_def demo_simps)

theorem start_outcome_witness:
  "\<exists>m'. dm_start demo_env ''bus'' demo = (m', None)
     \<and> dm_get m' ''bus'' = Some (set_state DaemonRunning (record_process 101 1 (new_daemon bus_config)))
     \<and> dm_get m' ''indexd'' = dm_get demo ''indexd''"
  using start_outcome [OF demo_get(2) demo_start_bus] demo_start_bus
  by (auto simp: demo_simps)

lemma silent_start:
  "\<exists>m'. dm_start silent_env ''indexd'' demo = (m', Some (SocketTimeout ''indexd''))"
proof -
  have "fst (wait_for_socket silent_env ''/tmp/indexd'' (sec 10) 1) = False"
    by (simp add: wait_for_socket_def poll_never demo_simps sec_def)
  then obtain t where "wait_for_socket silent_env ''/tmp/indexd'' (sec 10) 1 = (False, t)"
    by (cases "wait_for_socket silent_env ''/tmp/indexd'' (sec 10) 1") auto
  then show ?thesis
    by (simp add: dm_start_def demo_simps)
qed

text \<open>a daemon whose socket does not answer in time is left behind: its process was spawned and stays
  recorded, no monitor waits for it, \<open>Stop\<close> finds nothing to stop and signals nobody, and the next
  \<open>Start\<close> passes the guard and spawns a second process.\<close>

theorem socket_timeout_leaks_process:
  assumes "dm_start env name m = (m', Some (SocketTimeout name))"
  shows "\<exists>d pid. dm_get m' name = Some d \<and> d_cmd d = Some pid \<and> d_state d = DaemonFailed
    \<and> dm_trace m' = dm_trace m @ [Spawned name pid]
    \<and> dm_stop env' name m' = (m', None) \<and> start_gate d = Proceed"
proof -
  obtain d where d: "dm_get m name = Some d"
    using assms by (auto simp: dm_start_def split: option.splits)
  from start_outcome [OF d assms] obtain pid where
    "dm_get m' name = Some (set_state DaemonFailed (record_process pid (dm_clock m) d))"
    "dm_trace m' = dm_trace m @ [Spawned name pid]" by auto
  then show ?thesis
    by (simp add: dm_stop_def set_state_def record_process_def start_gate_def)
qed

theorem socket_timeout_leaks_process_witness:
  "\<exists>m' d. dm_start silent_env ''indexd'' demo = (m', Some (SocketTimeout ''indexd''))
     \<and> dm_get m' ''indexd'' = Some d \<and> d_cmd d \<noteq> None \<and> dm_stop demo_env ''indexd'' m' = (m', None)"
proof -
  obtain m' where m': "dm_start silent_env ''indexd'' demo = (m', Some (SocketTimeout ''indexd''))"
    using silent_start by blast
  from socket_timeout_leaks_process [OF m', of demo_env] m' show ?thesis by auto
qed



section \<open>The monitor\<close>

text \<open>C25: the restart the monitor decides on never happens while the daemon is still marked running,
  which is the state \<open>Start\<close> left it in: the restart is counted, the pid and group are cleared, and
  then \<open>Start\<close> skips the daemon as running. It stays "running" without a process, and a later
  \<open>Stop\<close> sends its SIGTERM to process group 0, that of the manager itself.\<close>

theorem monitor_restart_is_skipped:
  assumes "dm_get m0 name = Some d0" and "d_cmd d0 \<noteq> None" and "dm_get m name = Some d"
    and "d_state d = DaemonRunning" and "\<not> e_cancelled env (dm_clock m)"
    and "should_restart (d_restart_count d) (dc_restart (d_config d)) failed"
  defines "m' \<equiv> monitor_daemon env m0 failed name m"
  shows "dm_get m' name = Some (monitor_rearm d)
    \<and> d_state (monitor_rearm d) = DaemonRunning \<and> d_cmd (monitor_rearm d) = None
    \<and> d_restart_count (monitor_rearm d) = d_restart_count d + 1
    \<and> spawned (dm_trace m') = spawned (dm_trace m)
    \<and> (\<exists>es. dm_trace (fst (dm_stop env' name m')) = dm_trace m' @ Signalled 0 SIGTERM # es)"
proof -
  let ?t = "dm_clock m + max 0 (sint (next_restart_delay (e_ovf env) (d_restart_count d)))"
  let ?e = "BackedOff name (next_restart_delay (e_ovf env) (d_restart_count d)) # close_writers d"
  let ?m1 = "dm_modify name monitor_rearm (dm_emit ?e (dm_at ?t m))"
  have g: "dm_get ?m1 name = Some (monitor_rearm d)" using assms(3) by (simp add: dm_get_modify)
  have st: "d_state (monitor_rearm d) = DaemonRunning" using assms(4) by (simp add: monitor_rearm_def)
  have "dm_start env name ?m1 = (?m1, None)"
    using g st by (simp add: dm_start_def start_gate_def)
  then have m': "m' = ?m1"
    using assms(1-3,5,6) by (auto simp: m'_def monitor_daemon_def Let_def)
  obtain w t where w: "stop_wait (e_alive env' (d_pgid (monitor_rearm d))) (e_cancelled env') (e_lag env')
      (dm_clock ?m1) = (w, t)" by fastforce
  have "\<exists>es. dm_trace (fst (dm_stop env' name ?m1)) = dm_trace ?m1 @ Signalled 0 SIGTERM # es"
    using stop_active [OF g _ w] st g
    by (auto simp: Let_def cleanup_trace monitor_rearm_def split: stop_result.splits)
  moreover have "spawned (close_writers d) = []" by (simp add: close_writers_def)
  ultimately show ?thesis
    using g st by (simp only: m') (auto simp: monitor_rearm_def)
qed

theorem monitor_restart_is_skipped_witness:
  "let m = fst (dm_start demo_env ''bus'' demo); m' = monitor_daemon demo_env m True ''bus'' m
   in map_option d_pid (dm_get m' ''bus'') = Some 0 \<and> spawned (dm_trace m') = [101]"
proof -
  let ?m = "fst (dm_start demo_env ''bus'' demo)"
  let ?d = "set_state DaemonRunning (record_process 101 1 (set_state DaemonStarting (new_daemon bus_config)))"
  have g: "dm_get ?m ''bus'' = Some ?d"
    by (simp add: demo_start_bus dm_get_modify demo_simps)
  have "should_restart (d_restart_count ?d) (dc_restart (d_config ?d)) True"
    by (simp add: set_state_def record_process_def new_daemon_def bus_config_def should_restart_def)
  then have "dm_get (monitor_daemon demo_env ?m True ''bus'' ?m) ''bus'' = Some (monitor_rearm ?d)
      \<and> spawned (dm_trace (monitor_daemon demo_env ?m True ''bus'' ?m)) = spawned (dm_trace ?m)"
    using monitor_restart_is_skipped [OF g _ g, of demo_env True demo_env]
    by (simp add: demo_simps set_state_def record_process_def)
  then show ?thesis
    by (simp add: monitor_rearm_def demo_start_bus demo_simps)
qed

end
