(* ===== verification/Program_Deps.thy ===== *)
theory Program_Deps
  imports Polling
begin

text \<open>
  The start order of user programs: \<open>ResolveDependencies\<close> of \<open>internal/program/manager.go\<close>, Kahn's
  algorithm over the programs that are enabled. The reference is \<open>levels\<close>, which peels off, again
  and again, the programs none of whose dependencies is left; the counters and adjacency lists of
  the code compute the same.
\<close>

section \<open>Program configurations\<close>

definition phase_early :: string where "phase_early = ''early''"
definition phase_post :: string where "phase_post = ''post''"
definition default_health_timeout :: int where "default_health_timeout = 30"
definition default_health_retry :: int where "default_health_retry = 3"

record program_config =
  pc_name :: string
  pc_exec :: string
  pc_phase :: string
  pc_priority :: int
  pc_enabled :: bool
  pc_depends_on :: "string list"
  pc_start_delay :: int
  pc_health_check :: string
  pc_health_timeout :: int
  pc_health_retry :: int
  pc_env :: "string go_map"
  pc_restart :: bool
  pc_source :: string

text \<open>The comparison of \<open>sort.Slice\<close>: early programs first, then by priority, then by name.\<close>

datatype start_key = StartKey bool int string

fun start_key_le :: "start_key \<Rightarrow> start_key \<Rightarrow> bool" where
  "start_key_le (StartKey late p n) (StartKey late' p' n') \<longleftrightarrow>
     (if late \<noteq> late' then late' else if p \<noteq> p' then p < p' else n \<le> n')"

instantiation start_key :: linorder
begin

definition less_eq_start_key :: "start_key \<Rightarrow> start_key \<Rightarrow> bool" where
  "k \<le> k' \<longleftrightarrow> start_key_le k k'"

definition less_start_key :: "start_key \<Rightarrow> start_key \<Rightarrow> bool" where
  "k < k' \<longleftrightarrow> k \<le> k' \<and> \<not> k' \<le> (k :: start_key)"

instance
proof
  fix x y z :: start_key
  show "x < y \<longleftrightarrow> x \<le> y \<and> \<not> y \<le> x" by (rule less_start_key_def)
  show "x \<le> x" by (cases x) (simp add: less_eq_start_key_def)
  show "x \<le> y \<Longrightarrow> y \<le> z \<Longrightarrow> x \<le> z"
    by (cases x; cases y; cases z) (auto simp: less_eq_start_key_def split: if_splits)
  show "x \<le> y \<Longrightarrow> y \<le> x \<Longrightarrow> x = y"
    by (cases x; cases y) (auto simp: less_eq_start_key_def split: if_splits)
  show "x \<le> y \<or> y \<le> x"
    by (cases x; cases y) (auto simp: less_eq_start_key_def split: if_splits)
qed

end

lemma start_key_le_StartKey [simp]:
  "StartKey late p n \<le> StartKey late' p' n' \<longleftrightarrow>
     (if late \<noteq> late' then late' else if p \<noteq> p' then p < p' else n \<le> n')"
  by (simp add: less_eq_start_key_def)

text \<open>\<open>enabled[name]\<close> of a missing name is the zero configuration.\<close>

definition start_key :: "program_config go_map \<Rightarrow> string \<Rightarrow> start_key" where
  "start_key enabled name =
     (case map_of enabled name of
        None \<Rightarrow> StartKey True 0 name
      | Some c \<Rightarrow> StartKey (pc_phase c \<noteq> phase_early) (pc_priority c) name)"

section \<open>\<open>ResolveDependencies\<close>\<close>

datatype dep_error =
    DependsOnItself string
  | DependsOnUnknown string string
  | EarlyOnPost string string
  | DependencyCycle "string list"

definition enabled_programs :: "program_config list \<Rightarrow> program_config go_map" where
  "enabled_programs cfgs =
     fold (\<lambda>cfg m. if pc_enabled cfg then AList.update (pc_name cfg) cfg m else m) cfgs []"

text \<open>Reading a Go map of lists or integers at a missing key gives the empty list or 0, so the graph and
  the counters are total functions.\<close>

type_synonym graph = "string \<Rightarrow> string list"
type_synonym counters = "string \<Rightarrow> int"

fun add_deps ::
  "program_config go_map \<Rightarrow> string \<Rightarrow> program_config \<Rightarrow> string list \<Rightarrow> graph \<times> counters
    \<Rightarrow> dep_error + graph \<times> counters"
where
  "add_deps enabled name cfg [] (graph, inDegree) = Inr (graph, inDegree)"
| "add_deps enabled name cfg (dep # deps) (graph, inDegree) =
     (if dep = name then Inl (DependsOnItself name)
      else case map_of enabled dep of
             None \<Rightarrow> Inl (DependsOnUnknown name dep)
           | Some depCfg \<Rightarrow>
               if pc_phase cfg = phase_early \<and> pc_phase depCfg = phase_post
               then Inl (EarlyOnPost name dep)
               else add_deps enabled name cfg deps
                      (graph(dep := graph dep @ [name]), inDegree(name := inDegree name + 1)))"

fun add_programs ::
  "program_config go_map \<Rightarrow> (string \<times> program_config) list \<Rightarrow> graph \<times> counters
    \<Rightarrow> dep_error + graph \<times> counters"
where
  "add_programs enabled [] gi = Inr gi"
| "add_programs enabled ((name, cfg) # ps) gi =
     (case add_deps enabled name cfg (pc_depends_on cfg) gi of
        Inl e \<Rightarrow> Inl e
      | Inr gi' \<Rightarrow> add_programs enabled ps gi')"

definition release :: "graph \<Rightarrow> string list \<Rightarrow> counters \<Rightarrow> counters" where
  "release graph ready inDegree =
     fold (\<lambda>name. fold (\<lambda>dependent i. i(dependent := i dependent - 1)) (graph name)) ready inDegree"

function kahn ::
  "program_config go_map \<Rightarrow> graph \<Rightarrow> counters \<Rightarrow> string list \<Rightarrow> dep_error + string list list"
where
  "kahn enabled graph inDegree remaining =
     (if remaining = [] then Inr []
      else
        let ready = filter (\<lambda>name. inDegree name = 0) remaining
        in if ready = [] then Inl (DependencyCycle remaining)
           else
             let ready' = sort_key (start_key enabled) ready
             in (case kahn enabled graph (release graph ready' inDegree)
                        (filter (\<lambda>name. name \<notin> set ready') remaining) of
                   Inl e \<Rightarrow> Inl e
                 | Inr groups \<Rightarrow> Inr (ready' # groups)))"
  by pat_completeness auto
termination
proof (relation "measure (\<lambda>(e, g, i, remaining). length remaining)", goal_cases)
  case (2 enabled graph inDegree remaining ready ready')
  then obtain n where "n \<in> set remaining" "n \<in> set ready'" by (fastforce simp: filter_empty_conv)
  then have "length (filter (\<lambda>name. name \<notin> set ready') remaining) < length remaining"
    by (intro length_filter_less) auto
  then show ?case by simp
qed simp

declare kahn.simps [simp del]

text \<open>\<open>range1\<close> and \<open>range2\<close> are the orders in which the \<open>range\<close> loops over the maps meet the
  entries.\<close>

definition resolve_dependencies ::
  "(program_config go_map \<Rightarrow> program_config go_map) \<Rightarrow> (program_config go_map \<Rightarrow> program_config go_map)
    \<Rightarrow> program_config list \<Rightarrow> dep_error + string list list" where
  "resolve_dependencies range1 range2 cfgs =
     (let enabled = enabled_programs cfgs
      in case add_programs enabled (range1 enabled) ((\<lambda>_. []), (\<lambda>_. 0)) of
           Inl e \<Rightarrow> Inl e
         | Inr (graph, inDegree) \<Rightarrow> kahn enabled graph inDegree (map fst (range2 enabled)))"

section \<open>The reference: peeling off levels\<close>

function levels ::
  "(string \<Rightarrow> string set) \<Rightarrow> (string \<Rightarrow> start_key) \<Rightarrow> string list \<Rightarrow> string list list option"
where
  "levels deps key remaining =
     (if remaining = [] then Some []
      else
        let ready = filter (\<lambda>n. deps n \<inter> set remaining = {}) remaining
        in if ready = [] then None
           else map_option ((#) (sort_key key ready))
                  (levels deps key (filter (\<lambda>n. n \<notin> set ready) remaining)))"
  by pat_completeness auto
termination
proof (relation "measure (\<lambda>(d, k, remaining). length remaining)", goal_cases)
  case (2 deps key remaining ready)
  then obtain n where "n \<in> set remaining" "n \<in> set ready" by (fastforce simp: filter_empty_conv)
  then have "length (filter (\<lambda>n. n \<notin> set ready) remaining) < length remaining"
    by (intro length_filter_less) auto
  then show ?case by simp
qed simp

declare levels.simps [simp del]

definition ready_of :: "(string \<Rightarrow> string set) \<Rightarrow> string list \<Rightarrow> string list" where
  "ready_of deps remaining = filter (\<lambda>n. deps n \<inter> set remaining = {}) remaining"

lemma levels_Nil [simp]: "levels deps key [] = Some []"
  by (simp add: levels.simps)

lemma levels_step:
  "remaining \<noteq> [] \<Longrightarrow> levels deps key remaining =
     (if ready_of deps remaining = [] then None
      else map_option ((#) (sort_key key (ready_of deps remaining)))
             (levels deps key (filter (\<lambda>n. n \<notin> set (ready_of deps remaining)) remaining)))"
  by (subst levels.simps) (simp add: ready_of_def Let_def)

text \<open>The levels hold every program once.\<close>

lemma levels_mset: "levels deps key remaining = Some gs \<Longrightarrow> mset (concat gs) = mset remaining"
proof (induction deps key remaining arbitrary: gs rule: levels.induct)
  case (1 deps key remaining)
  show ?case
  proof (cases "remaining = []")
    case False
    let ?r = "ready_of deps remaining" and ?rest = "filter (\<lambda>n. n \<notin> set (ready_of deps remaining)) remaining"
    obtain gs' where gs: "gs = sort_key key ?r # gs'" and rest: "levels deps key ?rest = Some gs'"
      and r: "?r \<noteq> []"
      using 1(2) levels_step [OF False, of deps key] by (auto split: if_splits)
    have "mset (concat gs') = mset ?rest"
      using 1(1) [OF False refl] r rest by (simp add: ready_of_def)
    moreover have "mset ?r + mset ?rest = mset remaining"
    proof -
      have "?rest = filter (\<lambda>n. \<not> deps n \<inter> set remaining = {}) remaining"
        by (rule filter_cong) (auto simp: ready_of_def)
      then show ?thesis
        using multiset_partition [of "mset remaining" "\<lambda>n. deps n \<inter> set remaining = {}"]
        by (simp add: ready_of_def)
    qed
    ultimately show ?thesis by (simp add: gs)
  qed (use 1 in simp)
qed

text \<open>Every dependency of a program among the programs is in an earlier level; a program that is not in
  the first level has a dependency in the level before it.\<close>

lemma levels_before:
  assumes "levels deps key remaining = Some gs" and "i < length gs" and "n \<in> set (gs ! i)"
    and "d \<in> deps n" and "d \<in> set remaining"
  shows "\<exists>j < i. d \<in> set (gs ! j)"
  using assms
proof (induction deps key remaining arbitrary: gs i rule: levels.induct)
  case (1 deps key remaining)
  then have ne: "remaining \<noteq> []" by auto
  let ?r = "ready_of deps remaining" and ?rest = "filter (\<lambda>n. n \<notin> set (ready_of deps remaining)) remaining"
  obtain gs' where gs: "gs = sort_key key ?r # gs'" and rest: "levels deps key ?rest = Some gs'"
    and r: "?r \<noteq> []"
    using 1(2) levels_step [OF ne, of deps key] by (auto split: if_splits)
  show ?case
  proof (cases i)
    case 0
    with 1(4) gs have "n \<in> set ?r" by simp
    with 1(5,6) show ?thesis by (auto simp: ready_of_def)
  next
    case (Suc k)
    show ?thesis
    proof (cases "d \<in> set ?r")
      case True
      with Suc gs show ?thesis by (intro exI [of _ 0]) simp
    next
      case False
      with 1(6) have "d \<in> set ?rest" by simp
      with 1(1) [OF ne refl, of gs' k] r rest 1(3,4,5) gs Suc obtain j where "j < k" "d \<in> set (gs' ! j)"
        by (auto simp: ready_of_def)
      with Suc gs show ?thesis by (intro exI [of _ "Suc j"]) simp
    qed
  qed
qed

lemma levels_sorted:
  "levels deps key remaining = Some gs \<Longrightarrow> g \<in> set gs \<Longrightarrow> sorted (map key g)"
proof (induction deps key remaining arbitrary: gs rule: levels.induct)
  case (1 deps key remaining)
  show ?case
  proof (cases "remaining = []")
    case False
    with 1(2) levels_step [OF False, of deps key] obtain gs' where
      gs: "gs = sort_key key (ready_of deps remaining) # gs'" and r: "ready_of deps remaining \<noteq> []"
      and rest: "levels deps key (filter (\<lambda>n. n \<notin> set (ready_of deps remaining)) remaining) = Some gs'"
      by (auto split: if_splits)
    from 1(1) [OF False refl, folded ready_of_def, OF r rest] 1(3) gs show ?thesis
      by (cases "g \<in> set gs'") simp_all
  qed (use 1 in simp)
qed

text \<open>There are no levels exactly when some of the programs all wait for one another.\<close>

lemma levels_None:
  assumes "levels deps key remaining = None"
  shows "\<exists>C. C \<noteq> {} \<and> C \<subseteq> set remaining \<and> (\<forall>n \<in> C. deps n \<inter> C \<noteq> {})"
  using assms
proof (induction deps key remaining rule: levels.induct)
  case (1 deps key remaining)
  then have ne: "remaining \<noteq> []" by auto
  let ?r = "ready_of deps remaining" and ?rest = "filter (\<lambda>n. n \<notin> set (ready_of deps remaining)) remaining"
  show ?case
  proof (cases "?r = []")
    case True
    then have "\<forall>n \<in> set remaining. deps n \<inter> set remaining \<noteq> {}"
      by (simp add: ready_of_def filter_empty_conv)
    then show ?thesis using ne by (intro exI [of _ "set remaining"]) simp
  next
    case False
    then have "levels deps key ?rest = None" using 1(2) levels_step [OF ne, of deps key] by simp
    then obtain C where "C \<noteq> {}" "C \<subseteq> set ?rest" "\<forall>n \<in> C. deps n \<inter> C \<noteq> {}"
      using 1(1) [OF ne refl, folded ready_of_def] False by blast
    then show ?thesis by (intro exI [of _ C]) auto
  qed
qed

lemma levels_cycle:
  assumes "C \<noteq> {}" and "C \<subseteq> set remaining" and "\<forall>n \<in> C. deps n \<inter> C \<noteq> {}"
  shows "levels deps key remaining = None"
proof (rule ccontr)
  assume "levels deps key remaining \<noteq> None"
  then obtain gs where gs: "levels deps key remaining = Some gs" by blast
  have mem: "\<exists>i < length gs. n \<in> set (gs ! i)" if "n \<in> C" for n
  proof -
    have "n \<in> set (concat gs)"
      using levels_mset [OF gs] that assms(2) by (metis mset_eq_setD subsetD)
    then obtain g where "g \<in> set gs" "n \<in> set g" by auto
    then show ?thesis by (metis in_set_conv_nth)
  qed
  have "i < length gs \<Longrightarrow> n \<in> C \<Longrightarrow> n \<notin> set (gs ! i)" for i n
  proof (induction i arbitrary: n rule: less_induct)
    case (less i)
    show ?case
    proof
      assume n: "n \<in> set (gs ! i)"
      obtain d where d: "d \<in> deps n" "d \<in> C" using assms(3) less.prems(2) by blast
      then obtain j where "j < i" "d \<in> set (gs ! j)"
        using levels_before [OF gs less.prems(1) n d(1)] assms(2) by blast
      with less d show False by force
    qed
  qed
  with mem assms(1) show False by blast
qed

section \<open>The code computes the levels\<close>

definition deps_list :: "program_config go_map \<Rightarrow> string \<Rightarrow> string list" where
  "deps_list enabled n = (case map_of enabled n of None \<Rightarrow> [] | Some c \<Rightarrow> pc_depends_on c)"

text \<open>A dependency the code accepts.\<close>

definition dep_ok :: "program_config go_map \<Rightarrow> string \<Rightarrow> program_config \<Rightarrow> string \<Rightarrow> bool" where
  "dep_ok enabled n c d \<longleftrightarrow> d \<noteq> n \<and>
     (case map_of enabled d of
        None \<Rightarrow> False
      | Some dc \<Rightarrow> \<not> (pc_phase c = phase_early \<and> pc_phase dc = phase_post))"

lemma add_deps_Inr:
  "add_deps enabled n c ds (g, i) = Inr (g', i') \<Longrightarrow>
     (\<forall>d \<in> set ds. dep_ok enabled n c d)
     \<and> (\<forall>x y. count_list (g' x) y = count_list (g x) y + (if y = n then count_list ds x else 0))
     \<and> (\<forall>y. i' y = i y + (if y = n then int (length ds) else 0))"
proof (induction ds arbitrary: g i)
  case (Cons d ds)
  then obtain dc where dc: "d \<noteq> n" "map_of enabled d = Some dc"
    "\<not> (pc_phase c = phase_early \<and> pc_phase dc = phase_post)"
    and rest: "add_deps enabled n c ds (g(d := g d @ [n]), i(n := i n + 1)) = Inr (g', i')"
    by (auto split: if_splits option.splits)
  have "dep_ok enabled n c d" using dc by (simp add: dep_ok_def)
  with Cons.IH [OF rest] show ?case by simp
qed simp

lemma add_deps_total: "(\<forall>d \<in> set ds. dep_ok enabled n c d) \<Longrightarrow> \<exists>gi'. add_deps enabled n c ds gi = Inr gi'"
proof (induction ds arbitrary: gi)
  case (Cons d ds)
  then show ?case by (cases gi) (auto simp: dep_ok_def split: option.splits)
next
  case Nil
  then show ?case by (cases gi) simp
qed

lemma add_programs_Inr:
  assumes "add_programs enabled ps (g, i) = Inr (g', i')" and "distinct (map fst ps)"
  shows "(\<forall>(n, c) \<in> set ps. \<forall>d \<in> set (pc_depends_on c). dep_ok enabled n c d)
    \<and> (\<forall>x y. count_list (g' x) y = count_list (g x) y
          + (case map_of ps y of None \<Rightarrow> 0 | Some c \<Rightarrow> count_list (pc_depends_on c) x))
    \<and> (\<forall>y. i' y = i y + (case map_of ps y of None \<Rightarrow> 0 | Some c \<Rightarrow> int (length (pc_depends_on c))))"
  using assms
proof (induction ps arbitrary: g i)
  case (Cons p ps)
  obtain n c where p: "p = (n, c)" by fastforce
  obtain g1 i1 where step: "add_deps enabled n c (pc_depends_on c) (g, i) = Inr (g1, i1)"
    and rest: "add_programs enabled ps (g1, i1) = Inr (g', i')"
    using Cons.prems(1) p by (auto split: sum.splits)
  have "map_of ps n = None"
    using Cons.prems(2) p by (simp add: map_of_eq_None_iff)
  with Cons.IH [OF rest] Cons.prems(2) add_deps_Inr [OF step] p show ?case
    by (auto split: option.splits)
qed simp

lemma add_programs_total:
  "(\<forall>(n, c) \<in> set ps. \<forall>d \<in> set (pc_depends_on c). dep_ok enabled n c d) \<Longrightarrow>
     \<exists>gi'. add_programs enabled ps gi = Inr gi'"
proof (induction ps arbitrary: gi)
  case (Cons p ps)
  obtain n c where p: "p = (n, c)" by fastforce
  obtain gi1 where "add_deps enabled n c (pc_depends_on c) gi = Inr gi1"
    using add_deps_total [of "pc_depends_on c" enabled n c gi] Cons.prems p by auto
  with Cons p show ?case by simp
qed simp

lemma release_eq:
  "release g ready i y = i y - int (\<Sum>x \<leftarrow> ready. count_list (g x) y)"
proof -
  have inner: "fold (\<lambda>dep i. i(dep := i dep - 1)) ds i y = (i y - int (count_list ds y) :: int)" for ds and i :: counters
    by (induction ds arbitrary: i) auto
  show ?thesis
    unfolding release_def by (induction ready arbitrary: i) (auto simp: inner)
qed

lemma sum_count_list: "distinct xs \<Longrightarrow> (\<Sum>x \<leftarrow> xs. count_list ds x) = length (filter (\<lambda>d. d \<in> set xs) ds)"
proof (induction ds)
  case (Cons d ds)
  have "(\<Sum>x \<leftarrow> xs. count_list (d # ds) x) = (\<Sum>x \<leftarrow> xs. count_list ds x) + (\<Sum>x \<leftarrow> xs. if d = x then 1 else 0)"
    by (simp add: sum_list_addf [symmetric]) (intro arg_cong [of _ _ sum_list] map_cong, auto)
  moreover have "(\<Sum>x \<leftarrow> xs. if d = x then 1 else (0::nat)) = (if d \<in> set xs then 1 else 0)"
    using Cons.prems by (induction xs) auto
  ultimately show ?case using Cons by simp
qed simp

definition counters_ok ::
  "program_config go_map \<Rightarrow> graph \<Rightarrow> counters \<Rightarrow> string list \<Rightarrow> bool" where
  "counters_ok enabled g i remaining \<longleftrightarrow>
     (\<forall>n \<in> set remaining. i n = int (length (filter (\<lambda>d. d \<in> set remaining) (deps_list enabled n)))
       \<and> (\<forall>x. count_list (g x) n = count_list (deps_list enabled n) x))"

lemma counters_ready:
  "counters_ok enabled g i remaining \<Longrightarrow>
     filter (\<lambda>n. i n = 0) remaining = ready_of (\<lambda>n. set (deps_list enabled n)) remaining"
  unfolding ready_of_def counters_ok_def by (rule filter_cong) (auto simp: filter_empty_conv)

lemma counters_release:
  assumes "counters_ok enabled g i remaining" and "distinct ready" and "set ready \<subseteq> set remaining"
  shows "counters_ok enabled g (release g ready i) (filter (\<lambda>n. n \<notin> set ready) remaining)"
  unfolding counters_ok_def
proof (intro ballI conjI)
  fix n assume n: "n \<in> set (filter (\<lambda>n. n \<notin> set ready) remaining)"
  let ?ds = "deps_list enabled n"
  have cnt: "\<forall>x. count_list (g x) n = count_list ?ds x"
    and i: "i n = int (length (filter (\<lambda>d. d \<in> set remaining) ?ds))"
    using assms(1) n by (auto simp: counters_ok_def)
  have "length (filter (\<lambda>d. d \<in> set remaining) ds)
      = length (filter (\<lambda>d. d \<in> set ready) ds)
        + length (filter (\<lambda>d. d \<in> set (filter (\<lambda>n. n \<notin> set ready) remaining)) ds)" for ds
    using assms(3) by (induction ds) auto
  then show "release g ready i n
      = int (length (filter (\<lambda>d. d \<in> set (filter (\<lambda>n. n \<notin> set ready) remaining)) ?ds))"
    using cnt i by (simp add: release_eq sum_count_list [OF assms(2)])
  show "\<forall>x. count_list (g x) n = count_list ?ds x" by (rule cnt)
qed

lemma kahn_levels:
  assumes "counters_ok enabled g i remaining" and "distinct remaining"
  shows "case levels (\<lambda>n. set (deps_list enabled n)) (start_key enabled) remaining of
      Some gs \<Rightarrow> kahn enabled g i remaining = Inr gs
    | None \<Rightarrow> \<exists>C. kahn enabled g i remaining = Inl (DependencyCycle C)
        \<and> C \<noteq> [] \<and> set C \<subseteq> set remaining
        \<and> (\<forall>n \<in> set C. set (deps_list enabled n) \<inter> set C \<noteq> {})"
  using assms
proof (induction enabled g i remaining rule: kahn.induct)
  case (1 enabled g i remaining)
  let ?deps = "\<lambda>n. set (deps_list enabled n)"
  let ?ready = "ready_of ?deps remaining"
  let ?sorted = "sort_key (start_key enabled) ?ready"
  let ?rest = "filter (\<lambda>n. n \<notin> set ?ready) remaining"
  note ready = counters_ready [OF 1(2)]
  show ?case
  proof (cases "remaining = [] \<or> ?ready = []")
    case True
    then have "remaining = [] \<or> remaining \<noteq> [] \<and> ?ready = []" by blast
    then show ?thesis
    proof
      assume "remaining = []"
      then show ?thesis by (simp add: kahn.simps)
    next
      assume no: "remaining \<noteq> [] \<and> ?ready = []"
      then have "kahn enabled g i remaining = Inl (DependencyCycle remaining)"
        by (subst kahn.simps) (simp add: ready)
      moreover have "\<forall>n \<in> set remaining. ?deps n \<inter> set remaining \<noteq> {}"
        using no by (simp add: ready_of_def filter_empty_conv)
      ultimately show ?thesis
        using no levels_step [of remaining ?deps "start_key enabled"] by (auto intro!: exI [of _ remaining])
    qed
  next
    case False
    then have ne: "remaining \<noteq> []" "?ready \<noteq> []" by auto
    have "distinct ?sorted" "set ?sorted \<subseteq> set remaining"
      using 1(3) by (auto simp: ready_of_def)
    from counters_release [OF 1(2) this]
    have ok: "counters_ok enabled g (release g ?sorted i) ?rest" by simp
    have kahn: "kahn enabled g i remaining =
        (case kahn enabled g (release g ?sorted i) ?rest of
           Inl e \<Rightarrow> Inl e | Inr groups \<Rightarrow> Inr (?sorted # groups))"
      using ne by (subst kahn.simps) (simp add: ready Let_def)
    note IH = 1(1) [OF ne(1) ready [symmetric] ne(2) refl, simplified, OF ok [simplified]]
    show ?thesis
      using IH 1(3) levels_step [OF ne(1), of ?deps "start_key enabled"] ne(2)
      by (auto simp: kahn split: option.splits)
  qed
qed

section \<open>Levels and cycles, orders of the range loops\<close>

definition dep_relation :: "program_config go_map \<Rightarrow> (string \<times> string) set" where
  "dep_relation enabled = {(d, n). n \<in> fst ` set enabled \<and> d \<in> set (deps_list enabled n)}"

lemma finite_dep_relation: "finite (dep_relation enabled)"
proof (rule finite_subset)
  show "dep_relation enabled
      \<subseteq> (\<Union>n \<in> fst ` set enabled. (\<lambda>d. (d, n)) ` set (deps_list enabled n))"
    by (auto simp: dep_relation_def)
qed auto

lemma levels_acyclic:
  assumes "set remaining = fst ` set enabled"
    and "\<And>n d. n \<in> set remaining \<Longrightarrow> d \<in> set (deps_list enabled n) \<Longrightarrow> d \<in> set remaining"
  shows "levels (\<lambda>n. set (deps_list enabled n)) key remaining \<noteq> None \<longleftrightarrow> acyclic (dep_relation enabled)"
proof
  assume "levels (\<lambda>n. set (deps_list enabled n)) key remaining \<noteq> None"
  then obtain gs where gs: "levels (\<lambda>n. set (deps_list enabled n)) key remaining = Some gs" by blast
  let ?level = "\<lambda>n. LEAST i. i < length gs \<and> n \<in> set (gs ! i)"
  have "dep_relation enabled \<subseteq> measure ?level"
  proof
    fix e assume "e \<in> dep_relation enabled"
    then obtain d n where e: "e = (d, n)" "n \<in> set remaining" "d \<in> set (deps_list enabled n)"
      using assms(1) by (auto simp: dep_relation_def)
    have "n \<in> set (concat gs)" using levels_mset [OF gs] e(2) by (metis mset_eq_setD)
    then obtain g where "g \<in> set gs" "n \<in> set g" by auto
    then have "\<exists>i. i < length gs \<and> n \<in> set (gs ! i)" by (metis in_set_conv_nth)
    from LeastI_ex [OF this] have n: "?level n < length gs" "n \<in> set (gs ! ?level n)" by simp_all
    from levels_before [OF gs n] e assms(2) obtain j where j: "j < ?level n" "d \<in> set (gs ! j)" by blast
    then have "?level d \<le> j" using n(1) by (intro Least_le) auto
    with j(1) e show "e \<in> measure ?level" by simp
  qed
  then show "acyclic (dep_relation enabled)" by (meson wf_acyclic wf_measure wf_subset)
next
  assume "acyclic (dep_relation enabled)"
  then have wf: "wf (dep_relation enabled)" using finite_acyclic_wf finite_dep_relation by blast
  show "levels (\<lambda>n. set (deps_list enabled n)) key remaining \<noteq> None"
  proof
    assume "levels (\<lambda>n. set (deps_list enabled n)) key remaining = None"
    from levels_None [OF this] obtain C where C: "C \<noteq> {}" "C \<subseteq> set remaining"
      "\<forall>n \<in> C. set (deps_list enabled n) \<inter> C \<noteq> {}" by blast
    from wfE_min [OF wf] C(1) obtain z where z: "z \<in> C" "\<And>y. (y, z) \<in> dep_relation enabled \<Longrightarrow> y \<notin> C"
      by blast
    then obtain d where d: "d \<in> set (deps_list enabled z)" "d \<in> C" using C(3) by blast
    have "z \<in> fst ` set enabled" using z(1) C(2) assms(1) by blast
    then have "(d, z) \<in> dep_relation enabled" using d(1) by (simp add: dep_relation_def)
    with z(2) d(2) show False by blast
  qed
qed

lemma levels_mset_cong:
  assumes "inj key" and "mset xs = mset ys"
  shows "levels deps key xs = levels deps key ys"
  using assms
proof (induction deps key xs arbitrary: ys rule: levels.induct)
  case (1 deps key xs)
  show ?case
  proof (cases "xs = []")
    case True
    with 1(3) show ?thesis by simp
  next
    case False
    then have ys: "ys \<noteq> []" using 1(3) by auto
    have set: "set xs = set ys" using 1(3) by (metis mset_eq_setD)
    have ready: "mset (ready_of deps xs) = mset (ready_of deps ys)"
      using 1(3) by (simp add: ready_of_def set)
    then have sorted: "sort_key key (ready_of deps xs) = sort_key key (ready_of deps ys)"
      using 1(2) by (intro sort_key_eq_sort_key) (auto intro: inj_on_subset)
    have sets: "set (ready_of deps xs) = set (ready_of deps ys)"
      using ready by (metis mset_eq_setD)
    have "levels deps key (filter (\<lambda>n. n \<notin> set (ready_of deps xs)) xs)
        = levels deps key (filter (\<lambda>n. n \<notin> set (ready_of deps ys)) ys)"
      if "ready_of deps xs \<noteq> []"
      using 1(1) [OF False refl, folded ready_of_def, OF that 1(2)] 1(3) sets by simp
    moreover have "ready_of deps xs = [] \<longleftrightarrow> ready_of deps ys = []"
      using ready by auto
    ultimately show ?thesis
      using levels_step [OF False, of deps key] levels_step [OF ys, of deps key] sorted by simp
  qed
qed

lemma start_key_inj: "inj (start_key enabled)"
  by (rule injI) (auto simp: start_key_def split: option.splits)

section \<open>Putting it together\<close>

lemma enabled_programs_ok: "go_map_ok (enabled_programs cfgs)"
proof -
  have "go_map_ok (fold (\<lambda>cfg m. if pc_enabled cfg then AList.update (pc_name cfg) cfg m else m) cfgs m)"
    if "go_map_ok m" for m
    using that by (induction cfgs arbitrary: m) auto
  then show ?thesis by (simp add: enabled_programs_def)
qed

definition any_order :: "('a list \<Rightarrow> 'a list) \<Rightarrow> bool" where
  "any_order r \<longleftrightarrow> (\<forall>xs. mset (r xs) = mset xs)"

lemma any_order_id: "any_order id"
  by (simp add: any_order_def)

definition deps_valid :: "program_config go_map \<Rightarrow> bool" where
  "deps_valid enabled \<longleftrightarrow> (\<forall>(n, c) \<in> set enabled. \<forall>d \<in> set (pc_depends_on c). dep_ok enabled n c d)"

lemma deps_valid_closed:
  assumes "deps_valid enabled" and "go_map_ok enabled" and "n \<in> fst ` set enabled"
    and "d \<in> set (deps_list enabled n)"
  shows "d \<in> fst ` set enabled"
proof -
  obtain c where c: "map_of enabled n = Some c" "(n, c) \<in> set enabled"
    using assms(2,3) by (auto simp: go_map_Some_iff)
  with assms(1,4) have "dep_ok enabled n c d" by (auto simp: deps_valid_def deps_list_def)
  then obtain dc where "map_of enabled d = Some dc" by (auto simp: dep_ok_def split: option.splits)
  then show ?thesis by (metis domI dom_map_of_conv_image_fst)
qed

text \<open>The whole function, in terms of the reference.\<close>

lemma resolve_refines:
  fixes cfgs defines "enabled \<equiv> enabled_programs cfgs"
  assumes "any_order r1" and "any_order r2"
  shows "case resolve_dependencies r1 r2 cfgs of
      Inr gs \<Rightarrow> deps_valid enabled
        \<and> levels (\<lambda>n. set (deps_list enabled n)) (start_key enabled) (map fst enabled) = Some gs
    | Inl e \<Rightarrow> \<not> deps_valid enabled
        \<or> levels (\<lambda>n. set (deps_list enabled n)) (start_key enabled) (map fst enabled) = None"
proof -
  have ok: "go_map_ok enabled" unfolding enabled_def by (rule enabled_programs_ok)
  have m1: "mset (r1 enabled) = mset enabled" and m2: "mset (r2 enabled) = mset enabled"
    using assms(2,3) by (simp_all add: any_order_def)
  have d1: "distinct (map fst (r1 enabled))" and d2: "distinct (map fst (r2 enabled))"
    using ok m1 m2 unfolding go_map_ok_def by (metis mset_eq_imp_distinct_iff mset_map)+
  have map1: "map_of (r1 enabled) = map_of enabled"
    using d1 ok m1 unfolding go_map_ok_def by (metis map_of_inject_set mset_eq_setD)
  have s1: "set (r1 enabled) = set enabled" using m1 by (metis mset_eq_setD)
  show ?thesis
  proof (cases "add_programs enabled (r1 enabled) ((\<lambda>_. []), (\<lambda>_. 0))")
    case (Inl e)
    then have "\<not> deps_valid enabled"
      using add_programs_total [of "r1 enabled" enabled "((\<lambda>_. []), (\<lambda>_. 0))"] s1
      by (auto simp: deps_valid_def)
    with Inl show ?thesis by (simp add: resolve_dependencies_def enabled_def Let_def)
  next
    case (Inr gi)
    obtain g i where gi: "gi = (g, i)" by fastforce
    note built = add_programs_Inr [OF Inr [unfolded gi] d1]
    have valid: "deps_valid enabled" using built s1 by (simp add: deps_valid_def)
    have "filter (\<lambda>d. d \<in> fst ` set enabled) (deps_list enabled n) = deps_list enabled n"
      if "n \<in> fst ` set enabled" for n
      using deps_valid_closed [OF valid ok that] by (simp add: filter_id_conv)
    moreover have "fst ` set (r2 enabled) = fst ` set enabled" using m2 by (metis mset_eq_setD)
    ultimately have "counters_ok enabled g i (map fst (r2 enabled))"
      using built by (auto simp: counters_ok_def map1 deps_list_def split: option.splits)
    note kahn = kahn_levels [OF this d2]
    have "mset (map fst (r2 enabled)) = mset (map fst enabled)" using m2 by simp
    note cong = levels_mset_cong [OF start_key_inj this, of "\<lambda>n. set (deps_list enabled n)" enabled]
    show ?thesis
      using kahn valid Inr gi
      by (auto simp: resolve_dependencies_def enabled_def [symmetric] Let_def cong split: option.splits)
  qed
qed

text \<open>C11: the groups \<open>ResolveDependencies\<close> returns hold every enabled program exactly once; each program
  comes in a later group than all its dependencies, none of them itself, and an early program depends
  on no post program; within a group the order is early first, then by priority, then by name.\<close>

theorem resolve_dependencies_sound:
  assumes "any_order r1" and "any_order r2" and "resolve_dependencies r1 r2 cfgs = Inr gs"
  defines "enabled \<equiv> enabled_programs cfgs"
  shows "mset (concat gs) = mset (map fst enabled) \<and> deps_valid enabled
    \<and> (\<forall>i < length gs. \<forall>n \<in> set (gs ! i). \<forall>d \<in> set (deps_list enabled n). \<exists>j < i. d \<in> set (gs ! j))
    \<and> (\<forall>g \<in> set gs. sorted (map (start_key enabled) g))"
proof -
  have lv: "levels (\<lambda>n. set (deps_list enabled n)) (start_key enabled) (map fst enabled) = Some gs"
    and valid: "deps_valid enabled"
    using resolve_refines [OF assms(1,2), of cfgs] assms(3) by (simp_all add: enabled_def)
  have before: "\<exists>j < i. d \<in> set (gs ! j)"
    if "i < length gs" "n \<in> set (gs ! i)" "d \<in> set (deps_list enabled n)" for i n d
  proof -
    have "n \<in> set (concat gs)" using that(1,2) by (auto intro: nth_mem)
    then have "n \<in> fst ` set enabled" using levels_mset [OF lv] by (metis mset_eq_setD set_map)
    then have "d \<in> fst ` set enabled"
      using deps_valid_closed [OF valid] that(3) enabled_programs_ok [of cfgs] by (simp add: enabled_def)
    with levels_before [OF lv that(1,2)] that(3) show ?thesis by simp
  qed
  with levels_mset [OF lv] levels_sorted [OF lv] valid show ?thesis by simp
qed

definition prog :: "string \<Rightarrow> string \<Rightarrow> int \<Rightarrow> string list \<Rightarrow> program_config" where
  "prog name phase priority deps =
     \<lparr>pc_name = name, pc_exec = name, pc_phase = phase, pc_priority = priority, pc_enabled = True,
      pc_depends_on = deps, pc_start_delay = 0, pc_health_check = [], pc_health_timeout = 30,
      pc_health_retry = 3, pc_env = [], pc_restart = False, pc_source = ''ini''\<rparr>"

definition demo_programs :: "program_config list" where
  "demo_programs =
     [prog ''panel'' phase_post 5 [''bus'', ''theme''], prog ''theme'' phase_post 1 [],
      prog ''bus'' phase_early 9 [], prog ''menu'' phase_post 0 [''panel'']]"

lemma demo_resolve:
  "resolve_dependencies id id demo_programs = Inr [[''bus'', ''theme''], [''panel''], [''menu'']]"
  by code_simp

theorem resolve_dependencies_sound_witness:
  "mset (concat [[''bus'', ''theme''], [''panel''], [''menu'']]) = mset (map fst (enabled_programs demo_programs))
   \<and> deps_valid (enabled_programs demo_programs)"
  using resolve_dependencies_sound [OF any_order_id any_order_id demo_resolve] by simp



text \<open>a successful result does not depend on the order in which Go ranges over its maps.\<close>

theorem resolve_dependencies_deterministic:
  assumes "any_order r1" and "any_order r2" and "any_order r1'" and "any_order r2'"
    and "resolve_dependencies r1 r2 cfgs = Inr gs"
  shows "resolve_dependencies r1' r2' cfgs = Inr gs"
  using resolve_refines [OF assms(1,2), of cfgs] resolve_refines [OF assms(3,4), of cfgs] assms(5)
  by (auto split: sum.splits)

theorem resolve_dependencies_deterministic_witness:
  "resolve_dependencies rev rev demo_programs = Inr [[''bus'', ''theme''], [''panel''], [''menu'']]"
  by (rule resolve_dependencies_deterministic [OF any_order_id any_order_id _ _ demo_resolve])
    (simp_all add: any_order_def)

end
