(* ===== verification/Program_Manager.thy ===== *)
theory Program_Manager
  imports Program_Deps Daemon_Manager
begin

text \<open>
  The program manager: \<open>internal/program/program.go\<close>, \<open>manager.go\<close> and \<open>health.go\<close>. As with the
  daemons, the state holds the map of programs, the clock and the trace of effects, and the answers
  of the operating system are functions of time. \<open>StartProgram\<close> waits for other programs, whose state
  the goroutines that run meanwhile may change: \<open>pe_view\<close> is what it sees at a given time.
\<close>

section \<open>Data\<close>

datatype program_state =
    ProgPending | ProgWaitingDeps | ProgWaitingDelay | ProgStarting | ProgRunning | ProgHealthy
  | ProgDone | ProgFailed | ProgHealthFailed | ProgStopped | ProgDisabled

fun program_state_name :: "program_state \<Rightarrow> string" where
  "program_state_name ProgPending = ''pending''"
| "program_state_name ProgWaitingDeps = ''waiting-deps''"
| "program_state_name ProgWaitingDelay = ''waiting-delay''"
| "program_state_name ProgStarting = ''starting''"
| "program_state_name ProgRunning = ''running''"
| "program_state_name ProgHealthy = ''healthy''"
| "program_state_name ProgDone = ''done''"
| "program_state_name ProgFailed = ''failed''"
| "program_state_name ProgHealthFailed = ''health-failed''"
| "program_state_name ProgStopped = ''stopped''"
| "program_state_name ProgDisabled = ''disabled''"

datatype health_status = HealthUnknown | HealthChecking | HealthOK | HealthFailed

fun health_name :: "health_status \<Rightarrow> string" where
  "health_name HealthUnknown = ''unknown''"
| "health_name HealthChecking = ''checking''"
| "health_name HealthOK = ''ok''"
| "health_name HealthFailed = ''failed''"

record program =
  p_name :: string
  p_config :: program_config
  p_state :: program_state
  p_cmd :: "int option"
  p_pid :: int
  p_started_at :: time
  p_finished_at :: time
  p_exit_code :: int
  p_health :: health_status

datatype prog_effect =
    ProgSpawned string int
  | ProgSignalled int signal
  | HealthCheckLaunched string
  | ProgMonitorLaunched string
  | ProgKilledByContext int

record pm =
  pm_configs :: "program_config list"
  pm_programs :: "program go_map"
  pm_clock :: time
  pm_trace :: "prog_effect list"

record pm_env =
  pe_view :: "string \<Rightarrow> time \<Rightarrow> program_state"
  pe_spawn :: "string \<Rightarrow> time \<Rightarrow> int option"
  pe_alive :: "int \<Rightarrow> time \<Rightarrow> bool"
  pe_kill_ok :: "int \<Rightarrow> bool"
  pe_cancelled :: "time \<Rightarrow> bool"
  pe_lag :: "time \<Rightarrow> nat"

section \<open>Sections under a program's lock\<close>

definition set_pstate :: "program_state \<Rightarrow> program \<Rightarrow> program" where
  "set_pstate s p = p\<lparr>p_state := s\<rparr>"

definition prog_is_running :: "program \<Rightarrow> bool" where
  "prog_is_running p \<longleftrightarrow> p_state p \<in> {ProgStarting, ProgRunning, ProgHealthy, ProgHealthFailed}"

definition finished_state :: "program_state \<Rightarrow> bool" where
  "finished_state s \<longleftrightarrow> s \<in> {ProgDone, ProgFailed, ProgStopped, ProgDisabled}"

definition prog_is_finished :: "program \<Rightarrow> bool" where
  "prog_is_finished p \<longleftrightarrow> finished_state (p_state p)"

definition record_program :: "int \<Rightarrow> time \<Rightarrow> program \<Rightarrow> program" where
  "record_program pid now p =
     p\<lparr>p_cmd := Some pid, p_pid := pid, p_started_at := now, p_state := ProgRunning\<rparr>"

definition mark_healthy :: "program \<Rightarrow> program" where
  "mark_healthy p = p\<lparr>p_state := ProgHealthy, p_health := HealthOK\<rparr>"

definition stopped_program :: "time \<Rightarrow> program \<Rightarrow> program" where
  "stopped_program now p =
     p\<lparr>p_state := ProgStopped, p_finished_at := now, p_cmd := None, p_pid := 0\<rparr>"

text \<open>The end of \<open>monitorProgram\<close>; \<open>code\<close> is the exit code, -1 for an error that is no exit.\<close>

definition program_exited :: "int \<Rightarrow> bool \<Rightarrow> time \<Rightarrow> program \<Rightarrow> program" where
  "program_exited code restart now p =
     p\<lparr>p_finished_at := now, p_exit_code := code,
       p_state := (if code = 0 \<and> \<not> restart then ProgDone else if code \<noteq> 0 then ProgFailed else p_state p),
       p_cmd := None, p_pid := 0\<rparr>"

section \<open>The manager's operations\<close>

definition new_program :: "program_config \<Rightarrow> program" where
  "new_program pc =
     \<lparr>p_name = pc_name pc, p_config = pc,
      p_state = (if \<not> pc_enabled pc then ProgDisabled else ProgPending),
      p_cmd = None, p_pid = 0, p_started_at = 0, p_finished_at = 0, p_exit_code = 0,
      p_health = HealthUnknown\<rparr>"

definition new_program_manager :: "program_config list \<Rightarrow> time \<Rightarrow> pm" where
  "new_program_manager configs now =
     \<lparr>pm_configs = configs,
      pm_programs = fold (\<lambda>pc. AList.update (pc_name pc) (new_program pc)) configs [],
      pm_clock = now, pm_trace = []\<rparr>"

definition pm_get :: "pm \<Rightarrow> string \<Rightarrow> program option" where
  "pm_get m name = map_of (pm_programs m) name"

definition pm_list :: "pm \<Rightarrow> program list" where
  "pm_list m = map snd (pm_programs m)"

definition pm_put :: "string \<Rightarrow> program \<Rightarrow> pm \<Rightarrow> pm" where
  "pm_put name p m = m\<lparr>pm_programs := AList.update name p (pm_programs m)\<rparr>"

definition pm_modify :: "string \<Rightarrow> (program \<Rightarrow> program) \<Rightarrow> pm \<Rightarrow> pm" where
  "pm_modify name f m = m\<lparr>pm_programs := gm_modify name f (pm_programs m)\<rparr>"

definition pm_emit :: "prog_effect list \<Rightarrow> pm \<Rightarrow> pm" where
  "pm_emit es m = m\<lparr>pm_trace := pm_trace m @ es\<rparr>"

definition pm_at :: "time \<Rightarrow> pm \<Rightarrow> pm" where
  "pm_at t m = m\<lparr>pm_clock := t\<rparr>"

text \<open>\<open>waitForHealthy\<close>.\<close>

datatype health_wait = DepHealthy | DepTerminal program_state | DepCancelled | DepTimeout

definition health_poll :: "pm_env \<Rightarrow> string \<Rightarrow> time \<Rightarrow> health_wait option" where
  "health_poll env dep t =
     (if pe_view env dep t = ProgHealthy then Some DepHealthy
      else if finished_state (pe_view env dep t) then Some (DepTerminal (pe_view env dep t))
      else if pe_cancelled env t then Some DepCancelled
      else None)"

definition wait_for_healthy :: "pm_env \<Rightarrow> string \<Rightarrow> time \<Rightarrow> time \<Rightarrow> health_wait \<times> time" where
  "wait_for_healthy env dep timeout now =
     poll_loop (health_poll env dep) DepTimeout (ms 500) (pe_lag env) (now + timeout) now"

datatype pm_error =
    ProgramNotFound string
  | DependencyNotFound string string
  | DependencyNotHealthy string health_wait
  | DelayCancelled
  | ProgSpawnFailed string
  | ProgKillFailed string int
  | PhaseCancelled
  | ResolveFailed dep_error
  | ProgGroupFailed nat pm_error

fun wait_deps :: "pm_env \<Rightarrow> string \<Rightarrow> string list \<Rightarrow> pm \<Rightarrow> pm \<times> pm_error option" where
  "wait_deps env name [] m = (m, None)"
| "wait_deps env name (dep # deps) m =
     (case pm_get m dep of
        None \<Rightarrow> (m, Some (DependencyNotFound dep name))
      | Some _ \<Rightarrow>
          (case wait_for_healthy env dep (sec 120) (pm_clock m) of
             (DepHealthy, t) \<Rightarrow> wait_deps env name deps (pm_at t m)
           | (w, t) \<Rightarrow> (pm_modify name (set_pstate ProgFailed) (pm_at t m),
                        Some (DependencyNotHealthy dep w))))"

text \<open>The guard of \<open>StartProgram\<close>.\<close>

definition prog_gate :: "program \<Rightarrow> bool" where
  "prog_gate p \<longleftrightarrow> \<not> (p_state p = ProgRunning \<or> p_state p = ProgHealthy \<or> p_state p = ProgStarting)
     \<and> p_state p \<noteq> ProgDisabled"

text \<open>From the start delay on.\<close>

definition launch_program :: "pm_env \<Rightarrow> string \<Rightarrow> program_config \<Rightarrow> pm \<Rightarrow> pm \<times> pm_error option" where
  "launch_program env name cfg m =
     (let m1 = pm_modify name (set_pstate ProgStarting) m
      in case pe_spawn env name (pm_clock m) of
           None \<Rightarrow> (pm_modify name (set_pstate ProgFailed) m1, Some (ProgSpawnFailed name))
         | Some pid \<Rightarrow>
             let m2 = pm_emit [ProgSpawned name pid] (pm_modify name (record_program pid (pm_clock m)) m1);
                 m3 = (if pc_health_check cfg \<noteq> [] then pm_emit [HealthCheckLaunched name] m2
                       else pm_modify name mark_healthy m2)
             in (pm_emit [ProgMonitorLaunched name] m3, None))"

definition start_program :: "pm_env \<Rightarrow> string \<Rightarrow> pm \<Rightarrow> pm \<times> pm_error option" where
  "start_program env name m =
     (case pm_get m name of
        None \<Rightarrow> (m, Some (ProgramNotFound name))
      | Some p \<Rightarrow>
          if \<not> prog_gate p then (m, None)
          else
            let cfg = p_config p;
                m1 = pm_modify name (set_pstate ProgWaitingDeps) m
            in (case wait_deps env name (pc_depends_on cfg) m1 of
                  (m2, Some e) \<Rightarrow> (m2, Some e)
                | (m2, None) \<Rightarrow>
                    if pc_start_delay cfg > 0 then
                      let m3 = pm_modify name (set_pstate ProgWaitingDelay) m2
                      in if pe_cancelled env (pm_clock m3) then (m3, Some DelayCancelled)
                         else launch_program env name cfg (pm_at (pm_clock m3 + ms (pc_start_delay cfg)) m3)
                    else launch_program env name cfg m2))"

definition stop_program :: "pm_env \<Rightarrow> string \<Rightarrow> pm \<Rightarrow> pm \<times> pm_error option" where
  "stop_program env name m =
     (case pm_get m name of
        None \<Rightarrow> (m, Some (ProgramNotFound name))
      | Some p \<Rightarrow>
          if \<not> prog_is_running p then (m, None)
          else
            let pid = p_pid p;
                m1 = pm_emit [ProgSignalled pid SIGTERM] m
            in (case stop_wait (pe_alive env pid) (pe_cancelled env) (pe_lag env) (pm_clock m) of
                  (Exited, t) \<Rightarrow> (pm_modify name (stopped_program t) (pm_at t m1), None)
                | (Cancelled, t) \<Rightarrow> (pm_at t m1, Some DelayCancelled)
                | (StillAlive, t) \<Rightarrow>
                    let m2 = pm_emit [ProgSignalled pid SIGKILL] (pm_at t m1)
                    in if \<not> pe_kill_ok env pid then (m2, Some (ProgKillFailed name pid))
                       else (pm_modify name (stopped_program (t + ms 100)) (pm_at (t + ms 100) m2), None)))"

text \<open>\<open>monitorProgram\<close>: \<open>m0\<close> is the state when the goroutine begins, \<open>m\<close> the one when \<open>cmd.Wait\<close>
  returns with the exit code.\<close>

definition monitor_program :: "pm \<Rightarrow> int \<Rightarrow> string \<Rightarrow> pm \<Rightarrow> pm" where
  "monitor_program m0 code name m =
     (case pm_get m0 name of
        None \<Rightarrow> m
      | Some p0 \<Rightarrow>
          if p_cmd p0 = None then m
          else pm_modify name (program_exited code (pc_restart (p_config p0)) (pm_clock m)) m)"

section \<open>Health checks\<close>

text \<open>Attempt after attempt: the context may be done before it (\<open>halted\<close>), and the command may pass
  (\<open>passes\<close>).\<close>

datatype health_result = HealthPassed nat | HealthGaveUp nat | HealthCancelled nat

fun health_attempts :: "(nat \<Rightarrow> bool) \<Rightarrow> (nat \<Rightarrow> bool) \<Rightarrow> nat \<Rightarrow> nat \<Rightarrow> health_result" where
  "health_attempts halted passes attempt 0 = HealthGaveUp attempt"
| "health_attempts halted passes attempt (Suc left) =
     (if halted attempt then HealthCancelled attempt
      else if passes attempt then HealthPassed attempt
      else health_attempts halted passes (Suc attempt) left)"

definition health_retries :: "program_config \<Rightarrow> nat" where
  "health_retries cfg =
     nat (if pc_health_retry cfg \<le> 0 then default_health_retry else pc_health_retry cfg)"

definition health_timeout :: "program_config \<Rightarrow> int" where
  "health_timeout cfg =
     (if pc_health_timeout cfg \<le> 0 then default_health_timeout else pc_health_timeout cfg)"

text \<open>\<open>RunHealthCheck\<close>; \<open>meanwhile\<close> is what other goroutines do to the manager while the checks
  run. \<open>passes s i\<close> is whether the \<open>i\<close>-th run of the command ends with 0 within \<open>s\<close> seconds.\<close>

definition run_health_check ::
  "(nat \<Rightarrow> bool) \<Rightarrow> (int \<Rightarrow> nat \<Rightarrow> bool) \<Rightarrow> (pm \<Rightarrow> pm) \<Rightarrow> string \<Rightarrow> pm \<Rightarrow> pm \<times> health_result" where
  "run_health_check halted passes meanwhile name m =
     (case pm_get m name of
        None \<Rightarrow> (m, HealthGaveUp 0)
      | Some p \<Rightarrow>
          let cfg = p_config p
          in if pc_health_check cfg = [] then (pm_modify name mark_healthy m, HealthPassed 0)
             else
               let m1 = meanwhile (pm_modify name (\<lambda>p. p\<lparr>p_health := HealthChecking\<rparr>) m)
               in (case health_attempts halted (passes (health_timeout cfg)) 0 (health_retries cfg) of
                     HealthPassed k \<Rightarrow> (pm_modify name mark_healthy m1, HealthPassed k)
                   | HealthCancelled k \<Rightarrow> (m1, HealthCancelled k)
                   | HealthGaveUp k \<Rightarrow>
                       (pm_modify name (\<lambda>p. p\<lparr>p_health := HealthFailed, p_state := ProgHealthFailed\<rparr>) m1,
                        HealthGaveUp k)))"

section \<open>Phases\<close>

definition in_phase :: "string \<Rightarrow> program \<Rightarrow> bool" where
  "in_phase phase p \<longleftrightarrow>
     (pc_phase (p_config p) = phase \<or> phase = phase_post \<and> pc_phase (p_config p) = [])
     \<and> pc_enabled (p_config p)"

definition phase_programs :: "string \<Rightarrow> pm \<Rightarrow> string list" where
  "phase_programs phase m = map fst (filter (\<lambda>(name, p). in_phase phase p) (pm_programs m))"

fun prog_spawned :: "prog_effect list \<Rightarrow> int list" where
  "prog_spawned [] = []"
| "prog_spawned (ProgSpawned n pid # es) = pid # prog_spawned es"
| "prog_spawned (_ # es) = prog_spawned es"

fun start_programs :: "pm_env \<Rightarrow> time \<Rightarrow> string list \<Rightarrow> pm \<Rightarrow> pm \<times> pm_error list" where
  "start_programs env t0 [] m = (m, [])"
| "start_programs env t0 (name # names) m =
     (let (m1, e) = start_program env name (pm_at t0 m);
          (m2, es) = start_programs env t0 names m1
      in (pm_at (max (pm_clock m1) (pm_clock m2)) m2, (case e of None \<Rightarrow> es | Some x \<Rightarrow> x # es)))"

definition start_program_group ::
  "pm_env \<Rightarrow> pm_error errgroup \<Rightarrow> string list \<Rightarrow> pm \<Rightarrow> pm \<times> pm_error option" where
  "start_program_group env eg names m =
     (let (m1, es) = start_programs env (pm_clock m) names m;
          new = drop (length (pm_trace m)) (pm_trace m1)
      in (if eg_done_after_wait eg then pm_emit (map ProgKilledByContext (prog_spawned new)) m1 else m1,
          eg_wait eg es))"

fun start_phase_groups ::
  "pm_env \<Rightarrow> pm_error errgroup \<Rightarrow> string list \<Rightarrow> nat \<Rightarrow> string list list \<Rightarrow> pm \<Rightarrow> pm \<times> pm_error option"
where
  "start_phase_groups env eg chosen idx [] m = (m, None)"
| "start_phase_groups env eg chosen idx (grp # groups) m =
     (if pe_cancelled env (pm_clock m) then (m, Some PhaseCancelled)
      else
        let toStart = filter (\<lambda>name. name \<in> set chosen) grp
        in if toStart = [] then start_phase_groups env eg chosen (Suc idx) groups m
           else case start_program_group env eg toStart m of
                  (m1, None) \<Rightarrow> start_phase_groups env eg chosen (Suc idx) groups m1
                | (m1, Some e) \<Rightarrow> (m1, Some (ProgGroupFailed idx e)))"

definition start_phase ::
  "pm_env \<Rightarrow> pm_error errgroup \<Rightarrow> (program_config go_map \<Rightarrow> program_config go_map)
    \<Rightarrow> (program_config go_map \<Rightarrow> program_config go_map) \<Rightarrow> string \<Rightarrow> pm \<Rightarrow> pm \<times> pm_error option" where
  "start_phase env eg r1 r2 phase m =
     (case resolve_dependencies r1 r2 (pm_configs m) of
        Inl e \<Rightarrow> (m, Some (ResolveFailed e))
      | Inr groups \<Rightarrow>
          let chosen = phase_programs phase m
          in if chosen = [] then (m, None)
             else start_phase_groups env eg chosen 0 groups m)"

definition stop_phase_names :: "string \<Rightarrow> pm \<Rightarrow> string list" where
  "stop_phase_names phase m =
     map fst (filter (\<lambda>(name, p). prog_is_running p
        \<and> (if pc_phase (p_config p) = [] then phase_post else pc_phase (p_config p)) = phase) (pm_programs m))"

fun stop_programs :: "pm_env \<Rightarrow> string list \<Rightarrow> pm \<Rightarrow> pm" where
  "stop_programs env [] m = m"
| "stop_programs env (name # names) m = stop_programs env names (fst (stop_program env name m))"

text \<open>\<open>StopPhase\<close> logs the errors and returns nil.\<close>

definition stop_phase :: "pm_env \<Rightarrow> string \<Rightarrow> pm \<Rightarrow> pm \<times> pm_error option" where
  "stop_phase env phase m = (stop_programs env (stop_phase_names phase m) m, None)"

definition pm_stop_all :: "pm_env \<Rightarrow> pm \<Rightarrow> pm \<times> pm_error option" where
  "pm_stop_all env m =
     (case stop_phase env phase_post m of
        (m1, Some e) \<Rightarrow> (m1, Some e)
      | (m1, None) \<Rightarrow> stop_phase env phase_early m1)"

end
