(* ===== verification/Feature_Registry.thy ===== *)
theory Feature_Registry
  imports Go_Text
begin

text \<open>
  The feature registry, \<open>internal/feature/registry.go\<close>: a map from feature names to features, listed
  in the order of their names and exported as the value of \<open>ADE_FEATURES\<close>. \<open>sort.Slice\<close> by a name
  that is unique has one result, which \<^const>\<open>sort_key\<close> computes; Go compares strings byte by byte,
  as the lexicographic order of lists does here.
\<close>

section \<open>The registry\<close>

record feature =
  f_name :: string
  f_version :: string
  f_socket :: string
  f_ready :: bool

type_synonym registry = "feature go_map"

definition new_registry :: registry where
  "new_registry = []"

definition register :: "string \<Rightarrow> string \<Rightarrow> string \<Rightarrow> registry \<Rightarrow> registry" where
  "register name version socket r =
     AList.update name \<lparr>f_name = name, f_version = version, f_socket = socket, f_ready = False\<rparr> r"

definition set_ready :: "string \<Rightarrow> bool \<Rightarrow> registry \<Rightarrow> registry" where
  "set_ready name ready r = gm_modify name (\<lambda>f. f\<lparr>f_ready := ready\<rparr>) r"

definition get_feature :: "registry \<Rightarrow> string \<Rightarrow> feature option" where
  "get_feature r name = map_of r name"

definition list_features :: "registry \<Rightarrow> feature list" where
  "list_features r = sort_key f_name (map snd r)"

definition export_env :: "registry \<Rightarrow> string" where
  "export_env r =
     join (map (\<lambda>f. f_name f @ '':'' @ f_version f @ '':'' @ (if f_ready f then ''1'' else ''0''))
       (list_features r)) '',''"

interpretation features: keyed_store get_feature AList.update gm_modify go_map_ok
  by unfold_locales (simp_all add: get_feature_def [abs_def] fun_eq_iff)

section \<open>Well-formed registries\<close>

text \<open>Every feature is stored under its own name.\<close>

definition registry_ok :: "registry \<Rightarrow> bool" where
  "registry_ok r \<longleftrightarrow> go_map_ok r \<and> (\<forall>(k, f) \<in> set r. f_name f = k)"

lemma registry_ok_lookup:
  "registry_ok r \<longleftrightarrow> go_map_ok r \<and> (\<forall>k f. get_feature r k = Some f \<longrightarrow> f_name f = k)"
  by (auto simp: registry_ok_def get_feature_def go_map_Some_iff)

lemma registry_ok_new: "registry_ok new_registry"
  by (simp add: registry_ok_def new_registry_def)

lemma registry_ok_register: "registry_ok r \<Longrightarrow> registry_ok (register name version socket r)"
  by (simp add: registry_ok_lookup register_def features.lookup_put)

lemma registry_ok_set_ready: "registry_ok r \<Longrightarrow> registry_ok (set_ready name b r)"
  by (auto simp: registry_ok_lookup set_ready_def features.lookup_modify)

lemma map_snd_names: "registry_ok r \<Longrightarrow> map f_name (map snd r) = map fst r"
  by (auto simp: registry_ok_def)

lemma distinct_names: "registry_ok r \<Longrightarrow> distinct (map f_name (map snd r))"
  by (simp only: map_snd_names) (simp add: registry_ok_def go_map_ok_def)

lemma list_features_distinct: "registry_ok r \<Longrightarrow> distinct (map f_name (list_features r))"
proof -
  assume r: "registry_ok r"
  have "mset (map f_name (list_features r)) = mset (map f_name (map snd r))"
    by (simp add: list_features_def multiset.map_comp)
  then show ?thesis using distinct_names [OF r] by (metis mset_eq_imp_distinct_iff)
qed

section \<open>Properties\<close>

text \<open>\<open>List\<close> returns exactly the registered features, each once, in strictly increasing order of
  their names, and the result does not depend on the order the map is ranged over.\<close>

theorem list_features_canonical:
  assumes "registry_ok r" and "registry_ok r'" and "set r' = set r"
  shows "set (list_features r) = snd ` set r \<and> sorted_wrt (<) (map f_name (list_features r))
    \<and> list_features r' = list_features r"
proof (intro conjI)
  show "set (list_features r) = snd ` set r" by (simp add: list_features_def)
  show "sorted_wrt (<) (map f_name (list_features r))"
    using list_features_distinct [OF assms(1)]
    by (simp add: strict_sorted_iff list_features_def)
  show "list_features r' = list_features r"
    unfolding list_features_def
  proof (rule sort_key_eq_sort_key)
    have "distinct r" "distinct r'"
      using assms(1,2) by (auto simp: registry_ok_def go_map_ok_def distinct_map)
    then have "mset r' = mset r" using assms(3) by (metis set_eq_iff_mset_eq_distinct)
    then show "mset (map snd r') = mset (map snd r)" by (simp add: mset_map)
    show "inj_on f_name (set (map snd r'))"
      using distinct_names [OF assms(2)] by (simp only: distinct_map)
  qed
qed

definition two_features :: registry where
  "two_features = set_ready ''b'' True (register ''a'' ''1.0'' [] (register ''b'' ''0.0.0'' [] new_registry))"

lemma two_features_ok: "registry_ok two_features"
  by (simp add: two_features_def registry_ok_set_ready registry_ok_register registry_ok_new)

theorem list_features_canonical_witness:
  "map f_name (list_features two_features) = [''a'', ''b'']
   \<and> list_features (rev two_features) = list_features two_features"
proof (intro conjI)
  show "map f_name (list_features two_features) = [''a'', ''b'']" by code_simp
  have "registry_ok (rev two_features)"
    using two_features_ok by (simp add: registry_ok_def go_map_ok_def flip: rev_map)
  from list_features_canonical [OF two_features_ok this] show
    "list_features (rev two_features) = list_features two_features" by simp
qed

text \<open>\<open>SetReady\<close> changes the flag of the named feature only, does nothing for an unknown one, and
  keeps the registry well formed; registering again under the same name makes the feature not ready.\<close>

theorem set_ready_effect:
  assumes "registry_ok r"
  shows "registry_ok (set_ready name b r)
    \<and> get_feature (set_ready name b r) name = map_option (\<lambda>f. f\<lparr>f_ready := b\<rparr>) (get_feature r name)
    \<and> (k \<noteq> name \<longrightarrow> get_feature (set_ready name b r) k = get_feature r k)
    \<and> get_feature (register name v s (set_ready name b r)) name
        = Some \<lparr>f_name = name, f_version = v, f_socket = s, f_ready = False\<rparr>"
  using assms registry_ok_set_ready [OF assms]
  by (simp add: set_ready_def register_def features.lookup_modify features.lookup_put)

theorem set_ready_effect_witness:
  "map_option f_ready (get_feature (set_ready ''a'' True two_features) ''a'') = Some True"
  using set_ready_effect [OF two_features_ok, of "''a''" True "''b''" "[]" "[]"]
  by (simp add: two_features_def register_def set_ready_def features.lookup_modify features.lookup_put
      option.map_comp)

section \<open>Reading \<open>ADE_FEATURES\<close> back\<close>

definition decode_entry :: "string \<Rightarrow> (string \<times> string \<times> bool) option" where
  "decode_entry p =
     (case cut CHR '':'' p of
        None \<Rightarrow> None
      | Some (name, rest) \<Rightarrow>
          (case cut CHR '':'' rest of
             None \<Rightarrow> None
           | Some (version, flag) \<Rightarrow> Some (name, version, flag = ''1'')))"

definition decode_env :: "string \<Rightarrow> (string \<times> string \<times> bool) option list" where
  "decode_env s = (if s = [] then [] else map decode_entry (split_on CHR '','' s))"

text \<open>Names and versions free of the two separators.\<close>

definition exportable :: "feature \<Rightarrow> bool" where
  "exportable f \<longleftrightarrow> CHR '':'' \<notin> set (f_name f) \<and> CHR '','' \<notin> set (f_name f)
     \<and> CHR '':'' \<notin> set (f_version f) \<and> CHR '','' \<notin> set (f_version f)"

lemma decode_encoded:
  "exportable f \<Longrightarrow>
     decode_entry (f_name f @ '':'' @ f_version f @ '':'' @ (if f_ready f then ''1'' else ''0''))
       = Some (f_name f, f_version f, f_ready f)"
proof -
  assume f: "exportable f"
  have "cut CHR '':'' (x @ CHR '':'' # y) = Some (x, y)" if "CHR '':'' \<notin> set x" for x y
    using that by (simp add: cut_Some_iff)
  with f show ?thesis by (simp add: decode_entry_def exportable_def)
qed

text \<open>The value exported for \<open>ADE_FEATURES\<close> can be split at its commas and colons again into
  exactly the listed features, provided no name or version contains a separator.\<close>

theorem export_env_decodes:
  assumes "\<forall>f \<in> snd ` set r. exportable f"
  shows "decode_env (export_env r)
    = map (\<lambda>f. Some (f_name f, f_version f, f_ready f)) (list_features r)"
proof -
  let ?enc = "\<lambda>f. f_name f @ '':'' @ f_version f @ '':'' @ (if f_ready f then ''1'' else ''0'')"
  have ex: "\<forall>f \<in> set (list_features r). exportable f"
    using assms by (simp add: list_features_def)
  show ?thesis
  proof (cases "list_features r = []")
    case True
    then show ?thesis by (simp add: export_env_def decode_env_def)
  next
    case False
    have "\<forall>p \<in> set (map ?enc (list_features r)). CHR '','' \<notin> set p"
      using ex by (auto simp: exportable_def)
    then have split: "split_on CHR '','' (export_env r) = map ?enc (list_features r)"
      unfolding export_env_def using False by (intro split_on_join) auto
    moreover have "export_env r \<noteq> []"
    proof
      assume "export_env r = []"
      with split have "map ?enc (list_features r) = [[]]" by simp
      then show False by auto
    qed
    moreover have "map (decode_entry \<circ> ?enc) (list_features r)
        = map (\<lambda>f. Some (f_name f, f_version f, f_ready f)) (list_features r)"
      using ex decode_encoded by (intro map_cong) (simp_all only: o_apply refl)
    ultimately show ?thesis
      by (simp only: decode_env_def map_map if_False)
  qed
qed

theorem export_env_decodes_witness:
  "decode_env (export_env two_features) = [Some (''a'', ''1.0'', False), Some (''b'', ''0.0.0'', True)]"
proof -
  have "\<forall>f \<in> snd ` set two_features. exportable f" by code_simp
  then have "decode_env (export_env two_features)
      = map (\<lambda>f. Some (f_name f, f_version f, f_ready f)) (list_features two_features)"
    by (rule export_env_decodes)
  also have "\<dots> = [Some (''a'', ''1.0'', False), Some (''b'', ''0.0.0'', True)]" by code_simp
  finally show ?thesis .
qed

end
