(* ===== verification/Server_Format.thy ===== *)
theory Server_Format
  imports Go_Runes Daemon_Lifecycle Program_Manager Feature_Registry
begin

text \<open>
  The texts of the management server: the verbs of \<open>fmt\<close> its responses use (a string padded on the
  right or on the left to a width counted in runes, a number, a duration in whole seconds), and
  \<open>internal/server/response.go\<close>. \<open>now\<close> is what \<open>time.Now\<close> gives while the response is formatted.
\<close>

section \<open>Padding\<close>

definition pad_right :: "nat \<Rightarrow> string \<Rightarrow> string" where
  "pad_right w s = s @ replicate (w - rune_count s) CHR '' ''"

definition pad_left :: "nat \<Rightarrow> string \<Rightarrow> string" where
  "pad_left w s = replicate (w - rune_count s) CHR '' '' @ s"

text \<open>A duration truncated to seconds, as \<open>Duration.String\<close> writes it.\<close>

definition duration_string :: "time \<Rightarrow> string" where
  "duration_string d =
     (let s = \<bar>d\<bar> div sec 1; sign = (if d < 0 \<and> s \<noteq> 0 then ''-'' else []);
          h = s div 3600; m = s div 60 mod 60; r = s mod 60
      in sign @ (if h > 0 then show_int h @ ''h'' else [])
         @ (if s \<ge> 60 then show_int m @ ''m'' else []) @ show_int r @ ''s'')"

section \<open>Daemons\<close>

definition kv_line :: "string \<Rightarrow> string \<Rightarrow> string" where
  "kv_line key val = key @ '': '' @ val @ [NL]"

definition bool_name :: "bool \<Rightarrow> string" where
  "bool_name b = (if b then ''true'' else ''false'')"

text \<open>\<open>daemonStateToString\<close> gives the same names as \<open>DaemonState.String\<close>.\<close>

definition daemon_state_to_string :: "daemon_state \<Rightarrow> string" where
  "daemon_state_to_string s =
     (case s of DaemonStopped \<Rightarrow> ''stopped'' | DaemonStarting \<Rightarrow> ''starting''
      | DaemonRunning \<Rightarrow> ''running'' | DaemonFailed \<Rightarrow> ''failed'' | DaemonDisabled \<Rightarrow> ''disabled'')"

definition daemon_uptime :: "time \<Rightarrow> daemon \<Rightarrow> string" where
  "daemon_uptime now d =
     (if d_state d = DaemonRunning \<and> d_started_at d \<noteq> 0 then duration_string (now - d_started_at d)
      else ''-'')"

definition daemon_line :: "time \<Rightarrow> daemon \<Rightarrow> string" where
  "daemon_line now d =
     (let state = daemon_state_to_string (d_state d);
          pid = (if d_pid d = 0 then ''0'' else show_int (d_pid d));
          up = daemon_uptime now d;
          restarts = show_int (d_restart_count d);
          policy = dc_restart (d_config d)
      in pad_right 16 (d_name d) @ '' '' @ pad_left 6 pid @ ''  '' @ pad_right 10 state
         @ '' uptime='' @ pad_right 10 up @ '' restarts='' @ restarts @ '' policy='' @ policy)"

definition format_daemon_list :: "time \<Rightarrow> daemon list \<Rightarrow> string" where
  "format_daemon_list now ds =
     (if ds = [] then ''(no daemons configured)''
      else join (map (daemon_line now) (sort_key d_name ds)) [NL])"

definition format_daemon_status :: "time \<Rightarrow> daemon \<Rightarrow> string" where
  "format_daemon_status now d =
     (let state = daemon_state_to_string (d_state d);
          exitCode = -1 :: int;
          sock = dc_socket (d_config d);
          socketOK = bool_name (d_state d = DaemonRunning \<and> sock \<noteq> [])
      in kv_line ''cmd'' ''status'' @ kv_line ''name'' (d_name d) @ kv_line ''status'' state
         @ kv_line ''pid'' (show_int (d_pid d)) @ kv_line ''pgid'' (show_int (d_pgid d))
         @ kv_line ''exit_code'' (show_int exitCode) @ kv_line ''uptime'' (daemon_uptime now d)
         @ kv_line ''restarts'' (show_int (d_restart_count d))
         @ kv_line ''restart_policy'' (dc_restart (d_config d))
         @ kv_line ''order'' (show_int (dc_order (d_config d))) @ kv_line ''socket'' sock
         @ kv_line ''socket_ok'' socketOK @ kv_line ''exec'' (dc_exec (d_config d)))"

lemma daemon_state_to_string_name: "daemon_state_to_string s = daemon_state_name s"
  by (cases s) (simp_all add: daemon_state_to_string_def)

section \<open>Programs\<close>

definition health_status_to_string :: "health_status \<Rightarrow> string" where
  "health_status_to_string h =
     (case h of HealthUnknown \<Rightarrow> ''unknown'' | HealthChecking \<Rightarrow> ''checking''
      | HealthOK \<Rightarrow> ''ok'' | HealthFailed \<Rightarrow> ''failed'')"

definition phase_or_post :: "program \<Rightarrow> string" where
  "phase_or_post p = (if pc_phase (p_config p) = [] then ''post'' else pc_phase (p_config p))"

definition program_line :: "program \<Rightarrow> string" where
  "program_line p =
     (let state = program_state_name (p_state p)
      in pad_right 20 (p_name p) @ '' '' @ pad_left 6 state @ ''  '' @ pad_right 16 state
         @ '' phase='' @ pad_right 6 (phase_or_post p) @ '' pid='' @ show_int (p_pid p))"

definition program_uptime :: "time \<Rightarrow> program \<Rightarrow> string" where
  "program_uptime now p =
     (if prog_is_running p \<and> p_started_at p \<noteq> 0 then duration_string (now - p_started_at p) else ''-'')"

definition format_program_status :: "time \<Rightarrow> program \<Rightarrow> string" where
  "format_program_status now p =
     kv_line ''cmd'' ''prog-status'' @ kv_line ''name'' (p_name p) @ kv_line ''status'' ''0''
     @ kv_line ''state'' (program_state_name (p_state p)) @ kv_line ''pid'' (show_int (p_pid p))
     @ kv_line ''exit_code'' (show_int (p_exit_code p)) @ kv_line ''uptime'' (program_uptime now p)
     @ kv_line ''health'' (health_status_to_string (p_health p))
     @ kv_line ''phase'' (pc_phase (p_config p)) @ kv_line ''priority'' (show_int (pc_priority (p_config p)))
     @ kv_line ''exec'' (pc_exec (p_config p))"

end
