(* ===== verification/Txt_Parser.thy ===== *)
theory Txt_Parser
  imports Go_Text
begin

text \<open>
  The CMDLIST text protocol: \<open>parser/parser.go\<close>. A parser is its two header fields and the text its
  reader will still deliver; a read ends with \<open>io.EOF\<close> where that text ends.
\<close>

section \<open>Data\<close>

datatype value_type = TypeString | TypeInt | TypeBool

record txt_value =
  v_type :: value_type
  v_str :: string
  v_int :: int
  v_bool :: bool

record txt_command =
  tc_name :: string
  tc_args :: "txt_value list"

record txt_parser =
  tp_reader :: string
  tp_header :: string
  tp_version :: string

datatype txt_err = TxtInvalidHeader nat | TxtUnsupported string | TxtEOF | TxtParse string

definition TxtCodeOK :: int where "TxtCodeOK = 20"
definition TxtCodeError :: int where "TxtCodeError = 50"

section \<open>Parsing\<close>

definition new_parser :: "string \<Rightarrow> (txt_err, txt_parser) outcome" where
  "new_parser s =
     (case read_full 5 s of
        Ok (headerBytes, rest) \<Rightarrow>
          let p = \<lparr>tp_reader = rest, tp_header = take 3 headerBytes, tp_version = drop 3 headerBytes\<rparr>
          in if tp_header p \<noteq> ''TXT'' then Err (TxtUnsupported (tp_header p)) else Ok p
      | Err _ \<Rightarrow> Err (TxtInvalidHeader (length s))
      | Panic \<Rightarrow> Panic)"

definition command_verbs :: "string list" where
  "command_verbs =
     [''start'', ''stop'', ''restart'', ''status'', ''list-daemons'', ''list-features'', ''logs'',
      ''shutdown'', ''list'', ''reload'', ''prog-start'', ''prog-stop'', ''prog-status'', ''prog-list'',
      ''help'', ''version'', ''quit'']"

definition resolve_command :: "string \<Rightarrow> string" where
  "resolve_command line = (if line \<in> set command_verbs then line else [])"

definition zero_value :: txt_value where
  "zero_value = \<lparr>v_type = TypeString, v_str = [], v_int = 0, v_bool = False\<rparr>"

definition parse_text_value :: "string \<Rightarrow> (txt_err, txt_value) outcome" where
  "parse_text_value line =
     (if has_prefix line [QUOTE] then Ok (zero_value\<lparr>v_type := TypeString, v_str := drop 1 line\<rparr>)
      else if line = ''t'' then Ok (zero_value\<lparr>v_type := TypeBool, v_bool := True\<rparr>)
      else if line = ''f'' then Ok (zero_value\<lparr>v_type := TypeBool, v_bool := False\<rparr>)
      else case go_parse_int line of
        Some i \<Rightarrow> Ok (zero_value\<lparr>v_type := TypeInt, v_int := i\<rparr>)
      | None \<Rightarrow> Err (TxtParse line))"

text \<open>The loop of \<open>ParseCommand\<close> over the stack and the text left; it returns the text after the
  command. On \<open>io.EOF\<close> the line read so far is dropped, and both branches of the code return
  \<open>io.EOF\<close>.\<close>

function parse_loop :: "txt_value list \<Rightarrow> string \<Rightarrow> (txt_err, txt_command \<times> string) outcome" where
  "parse_loop stack s =
     (case read_string NL s of
        None \<Rightarrow> Err TxtEOF
      | Some (raw, rest) \<Rightarrow>
          let line = trim_space raw in
          if line = [] \<or> has_prefix line ''#'' then parse_loop stack rest
          else if resolve_command line \<noteq> [] then
            Ok (\<lparr>tc_name = resolve_command line, tc_args = stack\<rparr>, rest)
          else case parse_text_value line of
            Ok v \<Rightarrow> parse_loop (stack @ [v]) rest
          | Err e \<Rightarrow> Err e
          | Panic \<Rightarrow> Panic)"
  by pat_completeness auto
termination
  by (relation "measure (\<lambda>(_, s). length s)") (auto dest: read_string_length)

declare parse_loop.simps [simp del]

definition parse_command :: "txt_parser \<Rightarrow> (txt_err, txt_command \<times> txt_parser) outcome" where
  "parse_command p =
     obind (parse_loop [] (tp_reader p)) (\<lambda>(cmd, rest). Ok (cmd, p\<lparr>tp_reader := rest\<rparr>))"

lemma parse_loop_length: "parse_loop stack s = Ok (c, rest) \<Longrightarrow> length rest < length s"
proof (induction stack s rule: parse_loop.induct)
  case (1 stack s)
  from "1.prems" obtain raw r where r: "read_string NL s = Some (raw, r)"
    by (subst (asm) parse_loop.simps) (auto split: option.splits)
  note less = read_string_length [OF r]
  show ?case
    using "1.prems" "1.IH" [OF r refl refl] less
    by (subst (asm) parse_loop.simps)
      (auto simp: r Let_def split: if_splits outcome.splits)
qed

text \<open>\<open>ReadAllCommands\<close>: every command up to \<open>io.EOF\<close>, or the first error.\<close>

function read_all_commands :: "txt_parser \<Rightarrow> (txt_err, txt_command list) outcome" where
  "read_all_commands p =
     (case parse_command p of
        Err e \<Rightarrow> if e = TxtEOF then Ok [] else Err e
      | Panic \<Rightarrow> Panic
      | Ok (cmd, p') \<Rightarrow> obind (read_all_commands p') (\<lambda>cmds. Ok (cmd # cmds)))"
  by pat_completeness auto
termination
  by (relation "measure (\<lambda>p. length (tp_reader p))")
    (auto simp: parse_command_def outcome_iff dest: parse_loop_length)

declare read_all_commands.simps [simp del]

section \<open>Responses\<close>

definition format_response :: "int \<Rightarrow> string \<Rightarrow> string" where
  "format_response code message = show_int code @ [NL, QUOTE] @ message @ [NL]"

definition format_ok :: "string \<Rightarrow> string" where
  "format_ok message = format_response TxtCodeOK message"

definition format_error :: "string \<Rightarrow> string" where
  "format_error message = format_response TxtCodeError message"

definition format_ok_with_body :: "string \<Rightarrow> string \<Rightarrow> string" where
  "format_ok_with_body attrs body =
     show_int TxtCodeOK @ '' OK'' @ [NL]
     @ (if attrs \<noteq> [] then attrs @ (if \<not> has_suffix attrs [NL] then [NL] else []) else [])
     @ [NL]
     @ (if body \<noteq> []
        then ''body:'' @ [NL] @ body @ (if \<not> has_suffix body [NL] then [NL] else [])
        else [])
     @ [NL]"

section \<open>What the parser accepts\<close>

text \<open>A value as the protocol writes it down (the comment on \<open>parseValue\<close>).\<close>

definition render_value :: "txt_value \<Rightarrow> string" where
  "render_value v =
     (case v_type v of
        TypeString \<Rightarrow> QUOTE # v_str v
      | TypeInt \<Rightarrow> show_int (v_int v)
      | TypeBool \<Rightarrow> (if v_bool v then ''t'' else ''f''))"

text \<open>A value the text protocol can carry: a string on one line without trailing white space, an
  integer of 64 bits; the fields of the other types are zero.\<close>

definition line_value :: "txt_value \<Rightarrow> bool" where
  "line_value v \<longleftrightarrow>
     (case v_type v of
        TypeString \<Rightarrow> NL \<notin> set (v_str v) \<and> trimmed (QUOTE # v_str v) \<and> v_int v = 0 \<and> \<not> v_bool v
      | TypeInt \<Rightarrow> int64_range (v_int v) \<and> v_str v = [] \<and> \<not> v_bool v
      | TypeBool \<Rightarrow> v_str v = [] \<and> v_int v = 0)"

lemma digit_char_code: "d < 10 \<Longrightarrow> (of_char (digit_char d) :: nat) = 48 + d"
  by (simp add: digit_char_def)

text \<open>The characters of a decimal number, none of which is white space, a quote or a letter.\<close>

definition num_char :: "char \<Rightarrow> bool" where
  "num_char c \<longleftrightarrow> c = CHR ''-'' \<or> (48 \<le> (of_char c :: nat) \<and> (of_char c :: nat) \<le> 57)"

lemma show_nat_num_char: "c \<in> set (show_nat n) \<Longrightarrow> num_char c"
proof (induction n rule: show_nat.induct)
  case (1 n)
  then show ?case
    by (subst (asm) (2) show_nat.simps) (auto simp: num_char_def digit_char_code split: if_splits)
qed

lemma show_int_num_char: "c \<in> set (show_int i) \<Longrightarrow> num_char c"
  by (auto simp: show_int_def dest: show_nat_num_char split: if_splits) (simp add: num_char_def)

lemma show_int_nonempty: "show_int i \<noteq> []"
  using show_nat_Cons [of "nat i"] by (auto simp: show_int_def)

lemma trimmed_num:
  assumes "\<And>c. c \<in> set s \<Longrightarrow> num_char c"
  shows "trimmed s"
proof -
  have runes: "\<forall>r \<in> set space_runes. list_ex (\<lambda>c. \<not> num_char c) r"
    by code_simp
  have "\<not> has_prefix t r" if "set t = set s" "set r = set u" "u \<in> set space_runes" for t r u
  proof
    assume "has_prefix t r"
    then have "set r \<subseteq> set t" by (auto simp: has_prefix_append_iff)
    with that assms runes show False by (metis list_ex_iff subsetD)
  qed
  then show ?thesis by (auto simp: trimmed_def)
qed

lemma resolve_command_num:
  assumes "\<And>c. c \<in> set s \<Longrightarrow> num_char c"
  shows "resolve_command s = []"
proof -
  have "\<forall>v \<in> set command_verbs. list_ex (\<lambda>c. \<not> num_char c) v"
    by code_simp
  then show ?thesis using assms by (auto simp: resolve_command_def list_ex_iff)
qed

lemma NL_not_num: "\<not> num_char NL"
  by (simp add: num_char_def)

end
