(* ===== verification/Bin_Codec.thy ===== *)
theory Bin_Codec
  imports Kerno_Prelude
begin

text \<open>
  The fixed-width integer encodings of the BIN01 protocol (\<open>encoding/binary\<close>'s
  \<open>LittleEndian\<close> and the hand-written big-endian key length), and the interface they share:
  a codec of a known width whose decoder undoes its encoder on the bytes it wrote, whatever
  follows them.
\<close>

section \<open>The codec interface\<close>

locale byte_codec =
  fixes enc :: "'v \<Rightarrow> bytes"
    and dec :: "bytes \<Rightarrow> 'v"
    and width :: nat
  assumes enc_width: "length (enc v) = width"
    and dec_enc: "dec (enc v) = v"
begin

lemma take_enc: "take width (enc v @ rest) = enc v"
  using enc_width [of v] by simp

lemma drop_enc: "drop width (enc v @ rest) = rest"
  using enc_width [of v] by simp

lemma dec_take_enc: "dec (take width (enc v @ rest)) = v"
  unfolding take_enc by (rule dec_enc)

lemma enc_append_length: "width \<le> length (enc v @ rest)"
  by (simp add: enc_width)

lemma enc_inject: "enc v = enc w \<Longrightarrow> v = w"
  by (metis dec_enc)

lemma enc_append_inject: "enc v @ xs = enc w @ ys \<Longrightarrow> v = w \<and> xs = ys"
  by (metis dec_enc drop_enc take_enc)

end

section \<open>Little-endian integers\<close>

fun le_put :: "nat \<Rightarrow> 'a::len word \<Rightarrow> bytes" where
  "le_put 0 v = []"
| "le_put (Suc n) v = ucast v # le_put n (drop_bit 8 v)"

fun le_get :: "bytes \<Rightarrow> 'a::len word" where
  "le_get [] = 0"
| "le_get (b # bs) = ucast b OR push_bit 8 (le_get bs)"

lemma length_le_put [simp]: "length (le_put n v) = n"
  by (induction n arbitrary: v) auto

lemma ucast_or_push_byte:
  fixes v :: "'a::len word"
  shows "ucast (ucast v :: byte) OR push_bit 8 (take_bit k (drop_bit 8 v)) = take_bit (k + 8) v"
  by (rule bit_word_eqI)
    (auto simp: bit_simps not_less le_add_diff_inverse2 dest: bit_imp_le_length)

lemma le_get_put: "le_get (le_put n v) = take_bit (8 * n) v"
proof (induction n arbitrary: v)
  case 0
  then show ?case by simp
next
  case (Suc n)
  then show ?case using ucast_or_push_byte [of v "8 * n"] by (simp add: add.commute)
qed

definition put_uint32 :: "32 word \<Rightarrow> bytes" where
  "put_uint32 v = le_put 4 v"

definition get_uint32 :: "bytes \<Rightarrow> 32 word" where
  "get_uint32 bs = le_get bs"

definition put_uint64 :: "64 word \<Rightarrow> bytes" where
  "put_uint64 v = le_put 8 v"

definition get_uint64 :: "bytes \<Rightarrow> 64 word" where
  "get_uint64 bs = le_get bs"

interpretation u32le: byte_codec put_uint32 get_uint32 4
  by unfold_locales (simp_all add: put_uint32_def get_uint32_def le_get_put take_bit_word_eq_self)

interpretation u64le: byte_codec put_uint64 get_uint64 8
  by unfold_locales (simp_all add: put_uint64_def get_uint64_def le_get_put take_bit_word_eq_self)

section \<open>The big-endian key length\<close>

text \<open>\<open>byte(keyLen>>8), byte(keyLen&0xFF)\<close> in \<open>encodeAttr\<close>, and
  \<open>uint16(payload[0])<<8 | uint16(payload[1])\<close> in \<open>parseAttr\<close>.\<close>

definition put_key_len :: "16 word \<Rightarrow> bytes" where
  "put_key_len k = [ucast (drop_bit 8 k), ucast (k AND 0xFF)]"

fun get_key_len :: "bytes \<Rightarrow> 16 word" where
  "get_key_len (a # b # _) = push_bit 8 (ucast a) OR ucast b"
| "get_key_len _ = 0"

lemma get_put_key_len: "get_key_len (put_key_len k) = k"
proof -
  have "(push_bit 8 (ucast (ucast (drop_bit 8 k) :: byte)) OR ucast (ucast (k AND 0xFF) :: byte) :: 16 word) = k"
  proof (rule bit_word_eqI)
    fix n assume "n < LENGTH(16)"
    then have n: "n < 16" by simp
    have m: "(0xFF :: 16 word) = mask 8" by (simp add: mask_eq_exp_minus_1)
    show "bit (push_bit 8 (ucast (ucast (drop_bit 8 k) :: byte)) OR ucast (ucast (k AND 0xFF) :: byte)
         :: 16 word) n = bit k n"
      using n unfolding m by (auto simp: bit_simps not_less)
  qed
  then show ?thesis by (simp add: put_key_len_def)
qed

interpretation u16be: byte_codec put_key_len get_key_len 2
proof
  show "length (put_key_len k) = 2" for k by (simp add: put_key_len_def)
  show "get_key_len (put_key_len k) = k" for k by (rule get_put_key_len)
qed

lemma get_key_len_take: "2 \<le> length bs \<Longrightarrow> get_key_len (take 2 bs) = get_key_len bs"
  by (cases bs rule: get_key_len.cases) (auto simp: numeral_2_eq_2)

lemma get_key_len_append: "get_key_len (put_key_len k @ rest) = k"
proof -
  have "get_key_len (put_key_len k @ rest) = get_key_len (take 2 (put_key_len k @ rest))"
    by (rule get_key_len_take [symmetric]) (rule u16be.enc_append_length)
  also have "\<dots> = k" by (rule u16be.dec_take_enc)
  finally show ?thesis .
qed

end
