(* ===== verification/Bin_Parser.thy ===== *)
theory Bin_Parser
  imports Bin_Codec
begin

text \<open>
  The BIN01 protocol: \<open>internal/binparser/parser.go\<close> and \<open>writer.go\<close>. A reader is the finite
  sequence of bytes it will still deliver; \<open>read_command\<close> returns the command together with the
  bytes after it. The writer's output is the bytes it flushes. Run-time panics of slice
  expressions are kept: \<open>2+keyLen\<close> and \<open>4+strLen\<close> are computed at the width of the field, as
  the source does.
\<close>

section \<open>Constants and data\<close>

named_theorems bin_consts \<open>frame types, value tags, command and response codes\<close>

definition FrameCMD :: byte where [bin_consts]: "FrameCMD = 0x01"
definition FrameATTR :: byte where [bin_consts]: "FrameATTR = 0x02"
definition FrameDATA :: byte where [bin_consts]: "FrameDATA = 0x03"
definition FrameEND :: byte where [bin_consts]: "FrameEND = 0x04"

definition ValSTR :: byte where [bin_consts]: "ValSTR = 0x10"
definition ValINT :: byte where [bin_consts]: "ValINT = 0x11"
definition ValBOOL :: byte where [bin_consts]: "ValBOOL = 0x12"
definition ValBLOB :: byte where [bin_consts]: "ValBLOB = 0x13"

definition CmdListDaemons :: byte where [bin_consts]: "CmdListDaemons = 1"
definition CmdStatus :: byte where [bin_consts]: "CmdStatus = 2"
definition CmdRestart :: byte where [bin_consts]: "CmdRestart = 3"
definition CmdStop :: byte where [bin_consts]: "CmdStop = 4"
definition CmdStart :: byte where [bin_consts]: "CmdStart = 5"
definition CmdListFeatures :: byte where [bin_consts]: "CmdListFeatures = 6"
definition CmdLogs :: byte where [bin_consts]: "CmdLogs = 7"
definition CmdShutdown :: byte where [bin_consts]: "CmdShutdown = 8"
definition CmdListPrograms :: byte where [bin_consts]: "CmdListPrograms = 9"
definition CmdProgramStatus :: byte where [bin_consts]: "CmdProgramStatus = 10"
definition CmdStartProgram :: byte where [bin_consts]: "CmdStartProgram = 11"
definition CmdStopProgram :: byte where [bin_consts]: "CmdStopProgram = 12"

definition BinCodeOK :: byte where [bin_consts]: "BinCodeOK = 20"
definition BinCodeError :: byte where [bin_consts]: "BinCodeError = 50"

text \<open>What a parsed attribute may be: \<open>string | int64 | bool | []byte\<close>. The \<open>int64\<close> is kept
  as its 64 bits; \<^const>\<open>sint\<close> reads it.\<close>

datatype bin_value = VStr string | VInt "64 word" | VBool bool | VBlob bytes

text \<open>What the writer may be given: an \<open>int\<close> is encoded as an \<open>int64\<close>, and a value of any other
  type by its \<open>%v\<close> text, which \<open>GOther\<close> carries.\<close>

datatype go_value =
  GString string | GInt64 "64 word" | GInt "64 word" | GBool bool | GBytes bytes | GOther string

record bin_command =
  bc_code :: byte
  bc_attrs :: "(string \<rightharpoonup> bin_value) option"
  bc_data :: bytes

datatype val_err =
    StrTooShort nat | StrExceeds "32 word" nat | IntTooShort nat | BoolTooShort nat
  | BlobTooShort nat | BlobExceeds "32 word" nat | UnknownValueType byte

datatype attr_err = AttrTooShort nat | KeyExceeds "16 word" nat | NoTypeTag | AttrValue string val_err

datatype bin_err =
    ReadErr io_err | ReadPayload "32 word" io_err | CmdTooShort nat | AttrFrame attr_err
  | EndWithoutCmd | UnknownFrameType byte

section \<open>The writer\<close>

definition encode_str :: "string \<Rightarrow> bytes" where
  "encode_str s = ValSTR # put_uint32 (of_nat (length s)) @ bytes_of_string s"

definition encode_int :: "64 word \<Rightarrow> bytes" where
  "encode_int v = ValINT # put_uint64 v"

definition encode_bool :: "bool \<Rightarrow> bytes" where
  "encode_bool v = [ValBOOL, if v then 1 else 0]"

definition encode_blob :: "bytes \<Rightarrow> bytes" where
  "encode_blob v = ValBLOB # put_uint32 (of_nat (length v)) @ v"

fun encode_value :: "go_value \<Rightarrow> bytes" where
  "encode_value (GString s) = encode_str s"
| "encode_value (GInt64 v) = encode_int v"
| "encode_value (GInt v) = encode_int v"
| "encode_value (GBool v) = encode_bool v"
| "encode_value (GBytes v) = encode_blob v"
| "encode_value (GOther text) = encode_str text"

definition encode_attr :: "string \<Rightarrow> go_value \<Rightarrow> bytes" where
  "encode_attr key val =
     (let keyBytes = bytes_of_string key;
          valBytes = encode_value val;
          keyLen = of_nat (length keyBytes) :: 16 word
      in put_key_len keyLen @ keyBytes @ valBytes)"

definition write_frame :: "byte \<Rightarrow> bytes \<Rightarrow> bytes" where
  "write_frame frameType payload = frameType # put_uint32 (of_nat (length payload)) @ payload"

text \<open>\<open>attrs\<close> lists the map in the order the \<open>range\<close> loop meets it.\<close>

definition write_command :: "byte \<Rightarrow> go_value go_map \<Rightarrow> bytes \<Rightarrow> bytes" where
  "write_command code attrs data =
     write_frame FrameCMD [code]
     @ concat (map (\<lambda>(key, val). write_frame FrameATTR (encode_attr key val)) attrs)
     @ (if length data > 0 then write_frame FrameDATA data else [])
     @ write_frame FrameEND []"

definition write_response :: "byte \<Rightarrow> string \<Rightarrow> bytes" where
  "write_response respCode message = write_command respCode [(''message'', GString message)] []"

definition write_bin_error :: "string \<Rightarrow> bytes" where
  "write_bin_error message = write_response BinCodeError message"

section \<open>The parser\<close>

definition parse_value :: "byte \<Rightarrow> bytes \<Rightarrow> (val_err, bin_value) outcome" where
  "parse_value valType data =
     (if valType = ValSTR then
        (if length data < 4 then Err (StrTooShort (length data))
         else let strLen = get_uint32 (take 4 data) in
           if unat strLen + 4 > length data then Err (StrExceeds strLen (length data - 4))
           else obind (go_slice data 4 (unat (4 + strLen))) (\<lambda>s. Ok (VStr (string_of_bytes s))))
      else if valType = ValINT then
        (if length data < 8 then Err (IntTooShort (length data))
         else Ok (VInt (get_uint64 (take 8 data))))
      else if valType = ValBOOL then
        (if length data < 1 then Err (BoolTooShort (length data))
         else Ok (VBool (data ! 0 \<noteq> 0)))
      else if valType = ValBLOB then
        (if length data < 4 then Err (BlobTooShort (length data))
         else let blobLen = get_uint32 (take 4 data) in
           if unat blobLen + 4 > length data then Err (BlobExceeds blobLen (length data - 4))
           else obind (go_slice data 4 (unat (4 + blobLen))) (\<lambda>b. Ok (VBlob b)))
      else Err (UnknownValueType valType))"

definition parse_attr :: "bytes \<Rightarrow> (attr_err, string \<times> bin_value) outcome" where
  "parse_attr payload =
     (if length payload < 3 then Err (AttrTooShort (length payload))
      else let keyLen = get_key_len payload in
        if unat keyLen + 2 > length payload then Err (KeyExceeds keyLen (length payload - 2))
        else obind (go_slice payload 2 (unat (2 + keyLen))) (\<lambda>keyBytes.
          obind (go_slice payload (unat (2 + keyLen)) (length payload)) (\<lambda>valPayload.
            if length valPayload < 1 then Err NoTypeTag
            else let key = string_of_bytes keyBytes in
              obind (wrap_err (AttrValue key) (parse_value (valPayload ! 0) (tl valPayload)))
                (\<lambda>val. Ok (key, val)))))"

definition read_frame :: "bytes \<Rightarrow> (bin_err, byte \<times> bytes \<times> bytes) outcome" where
  "read_frame s =
     obind (wrap_err ReadErr (read_full 5 s)) (\<lambda>(header, s1).
       let frameType = header ! 0; len = get_uint32 (take 4 (drop 1 header)) in
       if unat len > 0
       then obind (wrap_err (ReadPayload len) (read_full (unat len) s1))
              (\<lambda>(payload, s2). Ok (frameType, payload, s2))
       else Ok (frameType, [], s1))"

lemma read_frame_length:
  "read_frame s = Ok (ft, payload, rest) \<Longrightarrow> length s = 5 + length payload + length rest"
  by (auto simp: read_frame_def outcome_iff Let_def split: if_splits)

text \<open>The loop of \<open>ReadCommand\<close>; its variables are the arguments. A nil map is \<^const>\<open>None\<close>.\<close>

function read_loop ::
  "byte option \<Rightarrow> (string \<rightharpoonup> bin_value) option \<Rightarrow> bytes \<Rightarrow> bytes
   \<Rightarrow> (bin_err, bin_command \<times> bytes) outcome" where
  "read_loop cmd attrs data s =
     (case read_frame s of
        Err e \<Rightarrow> Err e
      | Panic \<Rightarrow> Panic
      | Ok (frameType, payload, rest) \<Rightarrow>
          if frameType = FrameCMD then
            (case payload of
               [] \<Rightarrow> Err (CmdTooShort 0)
             | code # _ \<Rightarrow> read_loop (Some code) attrs data rest)
          else if frameType = FrameATTR then
            (let m = (case attrs of None \<Rightarrow> Map.empty | Some m \<Rightarrow> m) in
             case parse_attr payload of
               Err e \<Rightarrow> Err (AttrFrame e)
             | Panic \<Rightarrow> Panic
             | Ok (key, val) \<Rightarrow> read_loop cmd (Some (m(key \<mapsto> val))) data rest)
          else if frameType = FrameDATA then read_loop cmd attrs (data @ payload) rest
          else if frameType = FrameEND then
            (case cmd of
               None \<Rightarrow> Err EndWithoutCmd
             | Some code \<Rightarrow> Ok (\<lparr>bc_code = code, bc_attrs = attrs, bc_data = data\<rparr>, rest))
          else Err (UnknownFrameType frameType))"
  by pat_completeness auto
termination
  by (relation "measure (\<lambda>(_, _, _, s). length s)") (auto dest: read_frame_length)

declare read_loop.simps [simp del]

definition read_command :: "bytes \<Rightarrow> (bin_err, bin_command \<times> bytes) outcome" where
  "read_command s = read_loop None None [] s"

end
