(* ===== verification/Server_Handlers.thy ===== *)
theory Server_Handlers
  imports Server_Format Txt_Parser Bin_Parser
begin

text \<open>
  The management server's command handlers: \<open>internal/server/handlers.go\<close> and the two dispatchers of
  \<open>server.go\<close>. A handler takes the server to its next state and a response; a panic of a handler is
  one of the whole program. The text of an error, which quotes names with \<open>%q\<close> and prints the
  managers' errors, is a value of \<open>reply_error\<close> here; the attributes and bodies of successful
  responses are the exact strings. The managers run with the server's context, which the shutdown
  command cancels.
\<close>

section \<open>State and responses\<close>

record server =
  s_manager :: dm
  s_pm :: "pm option"
  s_features :: "registry option"
  s_cancelled :: bool

record server_env =
  se_daemons :: dm_env
  se_programs :: pm_env

definition daemon_ctx :: "server_env \<Rightarrow> server \<Rightarrow> dm_env" where
  "daemon_ctx env s =
     (if s_cancelled s then (se_daemons env)\<lparr>e_cancelled := \<lambda>_. True\<rparr> else se_daemons env)"

definition program_ctx :: "server_env \<Rightarrow> server \<Rightarrow> pm_env" where
  "program_ctx env s =
     (if s_cancelled s then (se_programs env)\<lparr>pe_cancelled := \<lambda>_. True\<rparr> else se_programs env)"

datatype reply_error =
    RequiresName string
  | DaemonUnknown string
  | StopFailed string dm_error
  | StartFailed string dm_error
  | NoRegistry
  | NoProgramManager
  | ProgramUnknown string
  | StartProgramFailed string pm_error
  | StopProgramFailed string pm_error
  | UnknownCommand string
  | UnknownCode byte

text \<open>A TXT01 response is \<open>FormatError\<close> of a message or \<open>FormatOKWithBody\<close> of attributes and body.\<close>

datatype txt_reply = TxtFail reply_error | TxtOK string string

text \<open>A BIN01 response: the code \<open>CodeError\<close> with an error's text, or \<open>CodeOK\<close> with a text or one of
  the sentences that quote a name.\<close>

datatype bin_reply =
    BinFail reply_error
  | BinText string
  | BinRestarted string int
  | BinStopped string
  | BinStarted string int
  | BinProgStarted string int
  | BinProgStopped string

definition reply_code :: "bin_reply \<Rightarrow> byte" where
  "reply_code r = (case r of BinFail _ \<Rightarrow> BinCodeError | _ \<Rightarrow> BinCodeOK)"

type_synonym 'r handled = "(unit, server \<times> 'r) outcome"

text \<open>\<open>cmd.Args[0]\<close> when it is there and a string.\<close>

definition arg_name :: "txt_command \<Rightarrow> string option" where
  "arg_name cmd =
     (case tc_args cmd of
        [] \<Rightarrow> None
      | v # _ \<Rightarrow> if v_type v \<noteq> TypeString then None else Some (v_str v))"

definition pid_of :: "server \<Rightarrow> string \<Rightarrow> int" where
  "pid_of s name = (case dm_get (s_manager s) name of None \<Rightarrow> 0 | Some d \<Rightarrow> d_pid d)"

definition prog_pid_of :: "pm \<Rightarrow> string \<Rightarrow> int" where
  "prog_pid_of m name = (case pm_get m name of None \<Rightarrow> 0 | Some p \<Rightarrow> p_pid p)"

definition mark_ready :: "string \<Rightarrow> bool \<Rightarrow> server \<Rightarrow> server" where
  "mark_ready name b s = s\<lparr>s_features := map_option (set_ready name b) (s_features s)\<rparr>"

definition count :: "('a \<Rightarrow> bool) \<Rightarrow> 'a list \<Rightarrow> int" where
  "count P xs = int (length (filter P xs))"

section \<open>Text handlers for daemons\<close>

definition handle_list_daemons :: "server \<Rightarrow> txt_command \<Rightarrow> txt_reply" where
  "handle_list_daemons s cmd =
     (let daemons = dm_list (s_manager s)
      in TxtOK (kv_line ''cmd'' ''list-daemons'' @ kv_line ''status'' ''0''
                @ kv_line ''total'' (show_int (int (length daemons)))
                @ kv_line ''running'' (show_int (count is_running daemons)))
           (format_daemon_list (dm_clock (s_manager s)) daemons))"

definition handle_status :: "server \<Rightarrow> txt_command \<Rightarrow> txt_reply" where
  "handle_status s cmd =
     (case arg_name cmd of
        None \<Rightarrow> TxtFail (RequiresName ''status'')
      | Some name \<Rightarrow>
          (case dm_get (s_manager s) name of
             None \<Rightarrow> TxtFail (DaemonUnknown name)
           | Some d \<Rightarrow> TxtOK (format_daemon_status (dm_clock (s_manager s)) d) []))"

definition handle_restart :: "server_env \<Rightarrow> server \<Rightarrow> txt_command \<Rightarrow> server \<times> txt_reply" where
  "handle_restart env s cmd =
     (case arg_name cmd of
        None \<Rightarrow> (s, TxtFail (RequiresName ''restart''))
      | Some name \<Rightarrow>
          (case dm_get (s_manager s) name of
             None \<Rightarrow> (s, TxtFail (DaemonUnknown name))
           | Some d \<Rightarrow>
               (case dm_stop (daemon_ctx env s) name (s_manager s) of
                  (m1, Some e) \<Rightarrow> (s\<lparr>s_manager := m1\<rparr>, TxtFail (StopFailed name e))
                | (m1, None) \<Rightarrow>
                    (case dm_start (daemon_ctx env s) name m1 of
                       (m2, Some e) \<Rightarrow> (s\<lparr>s_manager := m2\<rparr>, TxtFail (StartFailed name e))
                     | (m2, None) \<Rightarrow>
                         let s' = s\<lparr>s_manager := m2\<rparr>
                         in (s', TxtOK (kv_line ''cmd'' ''restart'' @ kv_line ''name'' name
                               @ kv_line ''status'' ''0'' @ kv_line ''new_pid'' (show_int (pid_of s' name))) [])))))"

definition handle_stop :: "server_env \<Rightarrow> server \<Rightarrow> txt_command \<Rightarrow> server \<times> txt_reply" where
  "handle_stop env s cmd =
     (case arg_name cmd of
        None \<Rightarrow> (s, TxtFail (RequiresName ''stop''))
      | Some name \<Rightarrow>
          (case dm_get (s_manager s) name of
             None \<Rightarrow> (s, TxtFail (DaemonUnknown name))
           | Some d \<Rightarrow>
               (case dm_stop (daemon_ctx env s) name (s_manager s) of
                  (m1, Some e) \<Rightarrow> (s\<lparr>s_manager := m1\<rparr>, TxtFail (StopFailed name e))
                | (m1, None) \<Rightarrow>
                    (mark_ready name False
                       (s\<lparr>s_manager := dm_modify name (set_restart_policy RestartDisabled) m1\<rparr>),
                     TxtOK (kv_line ''cmd'' ''stop'' @ kv_line ''name'' name @ kv_line ''status'' ''0'') []))))"

definition handle_start :: "server_env \<Rightarrow> server \<Rightarrow> txt_command \<Rightarrow> server \<times> txt_reply" where
  "handle_start env s cmd =
     (case arg_name cmd of
        None \<Rightarrow> (s, TxtFail (RequiresName ''start''))
      | Some name \<Rightarrow>
          (case dm_get (s_manager s) name of
             None \<Rightarrow> (s, TxtFail (DaemonUnknown name))
           | Some d \<Rightarrow>
               (case dm_start (daemon_ctx env s) name (s_manager s) of
                  (m1, Some e) \<Rightarrow> (s\<lparr>s_manager := m1\<rparr>, TxtFail (StartFailed name e))
                | (m1, None) \<Rightarrow>
                    let s' = s\<lparr>s_manager := m1\<rparr>
                    in (mark_ready name True s',
                        TxtOK (kv_line ''cmd'' ''start'' @ kv_line ''name'' name @ kv_line ''status'' ''0''
                          @ kv_line ''pid'' (show_int (pid_of s' name))) []))))"

definition feature_line :: "dm \<Rightarrow> feature \<Rightarrow> string" where
  "feature_line m f =
     (let state = (if f_ready f then ''ready'' else ''failed'');
          extra = (case dm_get m (f_name f) of
                     None \<Rightarrow> []
                   | Some d \<Rightarrow>
                       (if d_pid d > 0 then ''pid='' @ show_int (d_pid d) else [])
                       @ (if is_running d then '' uptime='' @ duration_string (uptime (dm_clock m) d) else []))
      in pad_right 16 (f_name f) @ '' '' @ pad_right 10 state @ '' '' @ extra)"

definition handle_list_features :: "server \<Rightarrow> txt_command \<Rightarrow> txt_reply" where
  "handle_list_features s cmd =
     (case s_features s of
        None \<Rightarrow> TxtFail NoRegistry
      | Some r \<Rightarrow>
          let fs = list_features r
          in TxtOK (kv_line ''cmd'' ''list-features'' @ kv_line ''status'' ''0''
                    @ kv_line ''features'' (show_int (int (length fs)))
                    @ kv_line ''ready'' (show_int (count f_ready fs))
                    @ kv_line ''failed'' (show_int (count (\<lambda>f. \<not> f_ready f) fs)))
               (join (map (feature_line (s_manager s)) fs) [NL]))"

text \<open>The number of lines asked for: the second argument when it is a positive integer, else 50. The
  \<open>Logs\<close> pointer of a daemon is never nil, since only \<open>NewDaemonManager\<close> and \<open>reloadConfig\<close> create
  daemons.\<close>

definition requested_lines :: "txt_command \<Rightarrow> int" where
  "requested_lines cmd =
     (if 1 < length (tc_args cmd) \<and> v_type (tc_args cmd ! 1) = TypeInt \<and> v_int (tc_args cmd ! 1) > 0
      then v_int (tc_args cmd ! 1) else 50)"

definition handle_logs :: "server \<Rightarrow> txt_command \<Rightarrow> (unit, txt_reply) outcome" where
  "handle_logs s cmd =
     (case arg_name cmd of
        None \<Rightarrow> Ok (TxtFail (RequiresName ''logs''))
      | Some name \<Rightarrow>
          (case dm_get (s_manager s) name of
             None \<Rightarrow> Ok (TxtFail (DaemonUnknown name))
           | Some d \<Rightarrow>
               obind (lb_tail (requested_lines cmd) (d_logs d)) (\<lambda>tail.
                 Ok (TxtOK (kv_line ''cmd'' ''logs'' @ kv_line ''name'' name @ kv_line ''status'' ''0''
                        @ kv_line ''lines'' (show_int (int (length tail))))
                      (join tail [NL])))))"

definition handle_shutdown :: "server \<Rightarrow> txt_command \<Rightarrow> server \<times> txt_reply" where
  "handle_shutdown s cmd =
     (s\<lparr>s_cancelled := True\<rparr>,
      TxtOK (kv_line ''cmd'' ''shutdown'' @ kv_line ''status'' ''0''
             @ kv_line ''msg'' ''shutting down all daemons'') [])"

section \<open>Text handlers for programs\<close>

definition prog_running :: "program \<Rightarrow> bool" where
  "prog_running p \<longleftrightarrow> p_state p \<in> {ProgRunning, ProgHealthy}"

definition prog_failed :: "program \<Rightarrow> bool" where
  "prog_failed p \<longleftrightarrow> p_state p \<in> {ProgFailed, ProgHealthFailed}"

definition handle_list_programs :: "server \<Rightarrow> txt_command \<Rightarrow> txt_reply" where
  "handle_list_programs s cmd =
     (case s_pm s of
        None \<Rightarrow> TxtFail NoProgramManager
      | Some m \<Rightarrow>
          let progs = pm_list m
          in TxtOK (kv_line ''cmd'' ''prog-list'' @ kv_line ''status'' ''0''
                    @ kv_line ''total'' (show_int (int (length progs)))
                    @ kv_line ''running'' (show_int (count prog_running progs))
                    @ kv_line ''failed'' (show_int (count prog_failed progs))
                    @ kv_line ''disabled'' (show_int (count (\<lambda>p. p_state p = ProgDisabled) progs)))
               (join (map program_line progs) [NL]))"

definition handle_program_status :: "server \<Rightarrow> txt_command \<Rightarrow> txt_reply" where
  "handle_program_status s cmd =
     (case s_pm s of
        None \<Rightarrow> TxtFail NoProgramManager
      | Some m \<Rightarrow>
          (case arg_name cmd of
             None \<Rightarrow> TxtFail (RequiresName ''prog-status'')
           | Some name \<Rightarrow>
               (case pm_get m name of
                  None \<Rightarrow> TxtFail (ProgramUnknown name)
                | Some p \<Rightarrow> TxtOK (format_program_status (pm_clock m) p) [])))"

definition handle_start_program :: "server_env \<Rightarrow> server \<Rightarrow> txt_command \<Rightarrow> server \<times> txt_reply" where
  "handle_start_program env s cmd =
     (case s_pm s of
        None \<Rightarrow> (s, TxtFail NoProgramManager)
      | Some m \<Rightarrow>
          (case arg_name cmd of
             None \<Rightarrow> (s, TxtFail (RequiresName ''prog-start''))
           | Some name \<Rightarrow>
               (case start_program (program_ctx env s) name m of
                  (m1, Some e) \<Rightarrow> (s\<lparr>s_pm := Some m1\<rparr>, TxtFail (StartProgramFailed name e))
                | (m1, None) \<Rightarrow>
                    (s\<lparr>s_pm := Some m1\<rparr>,
                     TxtOK (kv_line ''cmd'' ''prog-start'' @ kv_line ''name'' name @ kv_line ''status'' ''0''
                       @ kv_line ''pid'' (show_int (prog_pid_of m1 name))) []))))"

definition handle_stop_program :: "server_env \<Rightarrow> server \<Rightarrow> txt_command \<Rightarrow> server \<times> txt_reply" where
  "handle_stop_program env s cmd =
     (case s_pm s of
        None \<Rightarrow> (s, TxtFail NoProgramManager)
      | Some m \<Rightarrow>
          (case arg_name cmd of
             None \<Rightarrow> (s, TxtFail (RequiresName ''prog-stop''))
           | Some name \<Rightarrow>
               (case stop_program (program_ctx env s) name m of
                  (m1, Some e) \<Rightarrow> (s\<lparr>s_pm := Some m1\<rparr>, TxtFail (StopProgramFailed name e))
                | (m1, None) \<Rightarrow>
                    (s\<lparr>s_pm := Some m1\<rparr>,
                     TxtOK (kv_line ''cmd'' ''prog-stop'' @ kv_line ''name'' name @ kv_line ''status'' ''0'')
                       []))))"

section \<open>The text dispatcher\<close>

definition dispatch :: "server_env \<Rightarrow> server \<Rightarrow> txt_command \<Rightarrow> txt_reply handled" where
  "dispatch env s cmd =
     (if tc_name cmd = ''list-daemons'' then Ok (s, handle_list_daemons s cmd)
      else if tc_name cmd = ''status'' then Ok (s, handle_status s cmd)
      else if tc_name cmd = ''restart'' then Ok (handle_restart env s cmd)
      else if tc_name cmd = ''stop'' then Ok (handle_stop env s cmd)
      else if tc_name cmd = ''start'' then Ok (handle_start env s cmd)
      else if tc_name cmd = ''list-features'' then Ok (s, handle_list_features s cmd)
      else if tc_name cmd = ''logs'' then obind (handle_logs s cmd) (\<lambda>r. Ok (s, r))
      else if tc_name cmd = ''shutdown'' then Ok (handle_shutdown s cmd)
      else if tc_name cmd = ''prog-list'' then Ok (s, handle_list_programs s cmd)
      else if tc_name cmd = ''prog-status'' then Ok (s, handle_program_status s cmd)
      else if tc_name cmd = ''prog-start'' then Ok (handle_start_program env s cmd)
      else if tc_name cmd = ''prog-stop'' then Ok (handle_stop_program env s cmd)
      else Ok (s, TxtFail (UnknownCommand (tc_name cmd))))"

end
