(* ===== verification/Server_Binary.thy ===== *)
theory Server_Binary
  imports Server_Handlers
begin

text \<open>
  The binary handlers of \<open>internal/server/handlers.go\<close> and \<open>dispatchBinCommand\<close> of \<open>server.go\<close>. A
  command names its daemon or program by the attribute \<open>name\<close>; a nil map of attributes, a missing one
  and one of another type are all "not there".
\<close>

section \<open>Attributes\<close>

definition bin_attr_value :: "bin_command \<Rightarrow> string \<Rightarrow> bin_value option" where
  "bin_attr_value cmd key = (case bc_attrs cmd of None \<Rightarrow> None | Some attrs \<Rightarrow> attrs key)"

definition bin_attr :: "bin_command \<Rightarrow> string \<Rightarrow> string option" where
  "bin_attr cmd key = (case bin_attr_value cmd key of Some (VStr s) \<Rightarrow> Some s | _ \<Rightarrow> None)"

definition bin_attr_name :: "bin_command \<Rightarrow> string option" where
  "bin_attr_name cmd = bin_attr cmd ''name''"

definition bin_attr_int :: "bin_command \<Rightarrow> string \<Rightarrow> int option" where
  "bin_attr_int cmd key = (case bin_attr_value cmd key of Some (VInt i) \<Rightarrow> Some (sint i) | _ \<Rightarrow> None)"

text \<open>The name, where \<open>!ok || name == ""\<close> does not hold.\<close>

definition bin_name :: "bin_command \<Rightarrow> string option" where
  "bin_name cmd = (case bin_attr_name cmd of None \<Rightarrow> None | Some n \<Rightarrow> if n = [] then None else Some n)"

text \<open>\<open>joinLines\<close>.\<close>

definition join_lines :: "string list \<Rightarrow> string" where
  "join_lines ls = (case ls of [] \<Rightarrow> [] | l # rest \<Rightarrow> foldl (\<lambda>result x. result @ NL # x) l rest)"

section \<open>Daemons\<close>

definition handle_bin_list_daemons :: "server \<Rightarrow> bin_command \<Rightarrow> bin_reply" where
  "handle_bin_list_daemons s cmd =
     (let daemons = dm_list (s_manager s)
      in BinText (''total='' @ show_int (int (length daemons)) @ '' running=''
           @ show_int (count is_running daemons) @ [NL]
           @ format_daemon_list (dm_clock (s_manager s)) daemons))"

definition handle_bin_status :: "server \<Rightarrow> bin_command \<Rightarrow> bin_reply" where
  "handle_bin_status s cmd =
     (case bin_name cmd of
        None \<Rightarrow> BinFail (RequiresName ''status'')
      | Some name \<Rightarrow>
          (case dm_get (s_manager s) name of
             None \<Rightarrow> BinFail (DaemonUnknown name)
           | Some d \<Rightarrow> BinText (format_daemon_status (dm_clock (s_manager s)) d)))"

definition handle_bin_restart :: "server_env \<Rightarrow> server \<Rightarrow> bin_command \<Rightarrow> server \<times> bin_reply" where
  "handle_bin_restart env s cmd =
     (case bin_name cmd of
        None \<Rightarrow> (s, BinFail (RequiresName ''restart''))
      | Some name \<Rightarrow>
          (case dm_get (s_manager s) name of
             None \<Rightarrow> (s, BinFail (DaemonUnknown name))
           | Some d \<Rightarrow>
               (case dm_stop (daemon_ctx env s) name (s_manager s) of
                  (m1, Some e) \<Rightarrow> (s\<lparr>s_manager := m1\<rparr>, BinFail (StopFailed name e))
                | (m1, None) \<Rightarrow>
                    (case dm_start (daemon_ctx env s) name m1 of
                       (m2, Some e) \<Rightarrow> (s\<lparr>s_manager := m2\<rparr>, BinFail (StartFailed name e))
                     | (m2, None) \<Rightarrow>
                         let s' = s\<lparr>s_manager := m2\<rparr> in (s', BinRestarted name (pid_of s' name))))))"

definition handle_bin_stop :: "server_env \<Rightarrow> server \<Rightarrow> bin_command \<Rightarrow> server \<times> bin_reply" where
  "handle_bin_stop env s cmd =
     (case bin_name cmd of
        None \<Rightarrow> (s, BinFail (RequiresName ''stop''))
      | Some name \<Rightarrow>
          (case dm_get (s_manager s) name of
             None \<Rightarrow> (s, BinFail (DaemonUnknown name))
           | Some d \<Rightarrow>
               (case dm_stop (daemon_ctx env s) name (s_manager s) of
                  (m1, Some e) \<Rightarrow> (s\<lparr>s_manager := m1\<rparr>, BinFail (StopFailed name e))
                | (m1, None) \<Rightarrow>
                    (mark_ready name False
                       (s\<lparr>s_manager := dm_modify name (set_restart_policy RestartDisabled) m1\<rparr>),
                     BinStopped name))))"

definition handle_bin_start :: "server_env \<Rightarrow> server \<Rightarrow> bin_command \<Rightarrow> server \<times> bin_reply" where
  "handle_bin_start env s cmd =
     (case bin_name cmd of
        None \<Rightarrow> (s, BinFail (RequiresName ''start''))
      | Some name \<Rightarrow>
          (case dm_get (s_manager s) name of
             None \<Rightarrow> (s, BinFail (DaemonUnknown name))
           | Some d \<Rightarrow>
               (case dm_start (daemon_ctx env s) name (s_manager s) of
                  (m1, Some e) \<Rightarrow> (s\<lparr>s_manager := m1\<rparr>, BinFail (StartFailed name e))
                | (m1, None) \<Rightarrow>
                    let s' = s\<lparr>s_manager := m1\<rparr>
                    in (mark_ready name True s', BinStarted name (pid_of s' name)))))"

definition bin_feature_line :: "feature \<Rightarrow> string" where
  "bin_feature_line f =
     f_name f @ '' '' @ (if f_ready f then ''ready'' else ''failed'') @ '' (v='' @ f_version f @ '')''"

definition handle_bin_list_features :: "server \<Rightarrow> bin_command \<Rightarrow> bin_reply" where
  "handle_bin_list_features s cmd =
     (case s_features s of
        None \<Rightarrow> BinFail NoRegistry
      | Some r \<Rightarrow>
          let fs = list_features r
          in BinText (''features='' @ show_int (int (length fs)) @ '' ready='' @ show_int (count f_ready fs)
               @ [NL] @ join_lines (map bin_feature_line fs)))"

definition bin_requested_lines :: "bin_command \<Rightarrow> int" where
  "bin_requested_lines cmd =
     (case bin_attr_int cmd ''lines'' of None \<Rightarrow> 50 | Some n \<Rightarrow> if n > 0 then n else 50)"

definition handle_bin_logs :: "server \<Rightarrow> bin_command \<Rightarrow> (unit, bin_reply) outcome" where
  "handle_bin_logs s cmd =
     (case bin_name cmd of
        None \<Rightarrow> Ok (BinFail (RequiresName ''logs''))
      | Some name \<Rightarrow>
          (case dm_get (s_manager s) name of
             None \<Rightarrow> Ok (BinFail (DaemonUnknown name))
           | Some d \<Rightarrow>
               obind (lb_tail (bin_requested_lines cmd) (d_logs d)) (\<lambda>tail.
                 Ok (BinText (''lines='' @ show_int (int (length tail)) @ [NL] @ join_lines tail)))))"

definition handle_bin_shutdown :: "server \<Rightarrow> bin_command \<Rightarrow> server \<times> bin_reply" where
  "handle_bin_shutdown s cmd = (s\<lparr>s_cancelled := True\<rparr>, BinText ''shutting down all daemons'')"

section \<open>Programs\<close>

definition bin_program_line :: "program \<Rightarrow> string" where
  "bin_program_line p =
     p_name p @ '' state='' @ program_state_name (p_state p) @ '' phase='' @ phase_or_post p @ '' pid=''
     @ show_int (p_pid p)"

definition handle_bin_list_programs :: "server \<Rightarrow> bin_command \<Rightarrow> bin_reply" where
  "handle_bin_list_programs s cmd =
     (case s_pm s of
        None \<Rightarrow> BinFail NoProgramManager
      | Some m \<Rightarrow>
          let progs = pm_list m
          in BinText (''total='' @ show_int (int (length progs)) @ '' running=''
               @ show_int (count prog_running progs) @ '' failed='' @ show_int (count prog_failed progs)
               @ [NL] @ join_lines (map bin_program_line progs)))"

definition handle_bin_program_status :: "server \<Rightarrow> bin_command \<Rightarrow> bin_reply" where
  "handle_bin_program_status s cmd =
     (case s_pm s of
        None \<Rightarrow> BinFail NoProgramManager
      | Some m \<Rightarrow>
          (case bin_name cmd of
             None \<Rightarrow> BinFail (RequiresName ''prog-status'')
           | Some name \<Rightarrow>
               (case pm_get m name of
                  None \<Rightarrow> BinFail (ProgramUnknown name)
                | Some p \<Rightarrow>
                    BinText (''name='' @ p_name p @ '' state='' @ program_state_name (p_state p)
                      @ '' pid='' @ show_int (p_pid p) @ '' exit_code='' @ show_int (p_exit_code p)
                      @ '' health='' @ health_status_to_string (p_health p)
                      @ '' phase='' @ pc_phase (p_config p)
                      @ '' priority='' @ show_int (pc_priority (p_config p))
                      @ '' exec='' @ pc_exec (p_config p)))))"

definition handle_bin_start_program :: "server_env \<Rightarrow> server \<Rightarrow> bin_command \<Rightarrow> server \<times> bin_reply" where
  "handle_bin_start_program env s cmd =
     (case s_pm s of
        None \<Rightarrow> (s, BinFail NoProgramManager)
      | Some m \<Rightarrow>
          (case bin_name cmd of
             None \<Rightarrow> (s, BinFail (RequiresName ''prog-start''))
           | Some name \<Rightarrow>
               (case start_program (program_ctx env s) name m of
                  (m1, Some e) \<Rightarrow> (s\<lparr>s_pm := Some m1\<rparr>, BinFail (StartProgramFailed name e))
                | (m1, None) \<Rightarrow> (s\<lparr>s_pm := Some m1\<rparr>, BinProgStarted name (prog_pid_of m1 name)))))"

definition handle_bin_stop_program :: "server_env \<Rightarrow> server \<Rightarrow> bin_command \<Rightarrow> server \<times> bin_reply" where
  "handle_bin_stop_program env s cmd =
     (case s_pm s of
        None \<Rightarrow> (s, BinFail NoProgramManager)
      | Some m \<Rightarrow>
          (case bin_name cmd of
             None \<Rightarrow> (s, BinFail (RequiresName ''prog-stop''))
           | Some name \<Rightarrow>
               (case stop_program (program_ctx env s) name m of
                  (m1, Some e) \<Rightarrow> (s\<lparr>s_pm := Some m1\<rparr>, BinFail (StopProgramFailed name e))
                | (m1, None) \<Rightarrow> (s\<lparr>s_pm := Some m1\<rparr>, BinProgStopped name))))"

section \<open>The binary dispatcher\<close>

definition dispatch_bin :: "server_env \<Rightarrow> server \<Rightarrow> bin_command \<Rightarrow> bin_reply handled" where
  "dispatch_bin env s cmd =
     (if bc_code cmd = CmdListDaemons then Ok (s, handle_bin_list_daemons s cmd)
      else if bc_code cmd = CmdStatus then Ok (s, handle_bin_status s cmd)
      else if bc_code cmd = CmdRestart then Ok (handle_bin_restart env s cmd)
      else if bc_code cmd = CmdStop then Ok (handle_bin_stop env s cmd)
      else if bc_code cmd = CmdStart then Ok (handle_bin_start env s cmd)
      else if bc_code cmd = CmdListFeatures then Ok (s, handle_bin_list_features s cmd)
      else if bc_code cmd = CmdLogs then obind (handle_bin_logs s cmd) (\<lambda>r. Ok (s, r))
      else if bc_code cmd = CmdShutdown then Ok (handle_bin_shutdown s cmd)
      else if bc_code cmd = CmdListPrograms then Ok (s, handle_bin_list_programs s cmd)
      else if bc_code cmd = CmdProgramStatus then Ok (s, handle_bin_program_status s cmd)
      else if bc_code cmd = CmdStartProgram then Ok (handle_bin_start_program env s cmd)
      else if bc_code cmd = CmdStopProgram then Ok (handle_bin_stop_program env s cmd)
      else Ok (s, BinFail (UnknownCode (bc_code cmd))))"

end
