(* ===== verification/Daemon_Groups.thy ===== *)
theory Daemon_Groups
  imports Daemon_Lifecycle
begin

text \<open>
  The operations of the daemon manager on many daemons: \<open>StartAll\<close> with its order groups, \<open>StopAll\<close>
  and \<open>reloadConfig\<close>, and the invariant of the records through all of them.
\<close>

section \<open>Order groups\<close>

definition flat_groups :: "(int \<times> string list) list \<Rightarrow> (string \<times> int) list" where
  "flat_groups gs = concat (map (\<lambda>(ord, names). map (\<lambda>n. (n, ord)) names) gs)"

definition groups_ok :: "(int \<times> string list) list \<Rightarrow> bool" where
  "groups_ok gs \<longleftrightarrow> sorted_wrt (<) (map fst gs) \<and> (\<forall>g \<in> set gs. snd g \<noteq> [])"

definition add_entry :: "(int \<times> string list) list \<Rightarrow> string \<Rightarrow> int \<Rightarrow> (int \<times> string list) list" where
  "add_entry groups name ord =
     (let groups' = (if groups = [] \<or> fst (last groups) \<noteq> ord then groups @ [(ord, [])] else groups)
      in butlast groups' @ [(fst (last groups'), snd (last groups') @ [name])])"

lemma add_to_groups_Cons: "add_to_groups gs ((n, ord) # es) = add_to_groups (add_entry gs n ord) es"
  by (simp add: add_entry_def Let_def)

lemma add_entry_cases:
  "add_entry gs n ord = gs @ [(ord, [n])] \<and> (gs = [] \<or> fst (last gs) \<noteq> ord)
   \<or> (\<exists>hs names. gs = hs @ [(ord, names)] \<and> add_entry gs n ord = hs @ [(ord, names @ [n])])"
proof (cases "gs = [] \<or> fst (last gs) \<noteq> ord")
  case True
  then show ?thesis by (auto simp: add_entry_def)
next
  case False
  then have "gs = butlast gs @ [(ord, snd (last gs))]"
    by (metis append_butlast_last_id prod.collapse)
  with False show ?thesis by (auto simp: add_entry_def)
qed

lemma add_entry_ok:
  assumes "groups_ok gs" and "gs \<noteq> [] \<longrightarrow> fst (last gs) \<le> ord"
  shows "groups_ok (add_entry gs n ord) \<and> flat_groups (add_entry gs n ord) = flat_groups gs @ [(n, ord)]
    \<and> add_entry gs n ord \<noteq> [] \<and> fst (last (add_entry gs n ord)) = ord"
  using add_entry_cases [of gs n ord]
proof (elim disjE exE conjE)
  fix hs names
  assume "gs = hs @ [(ord, names)]" and "add_entry gs n ord = hs @ [(ord, names @ [n])]"
  then show ?thesis using assms(1)
    by (auto simp: groups_ok_def flat_groups_def sorted_wrt_append)
next
  assume new: "add_entry gs n ord = gs @ [(ord, [n])]" and diff: "fst (last gs) \<noteq> ord"
  have "fst g < ord" if g: "g \<in> set gs" for g
  proof -
    from g have "gs \<noteq> []" by auto
    then obtain hs h where gs: "gs = hs @ [h]" by (cases gs rule: rev_cases) auto
    with assms diff g show ?thesis
      by (auto simp: groups_ok_def sorted_wrt_append)
  qed
  with new assms(1) show ?thesis
    by (auto simp: groups_ok_def flat_groups_def sorted_wrt_append)
qed (auto simp: groups_ok_def flat_groups_def)

lemma add_to_groups_ok:
  assumes "groups_ok gs" and "sorted (map snd es)"
    and "gs \<noteq> [] \<longrightarrow> (\<forall>e \<in> set es. fst (last gs) \<le> snd e)"
  shows "groups_ok (add_to_groups gs es) \<and> flat_groups (add_to_groups gs es) = flat_groups gs @ es"
  using assms
proof (induction es arbitrary: gs)
  case Nil
  then show ?case by simp
next
  case (Cons e es)
  obtain n ord where e: "e = (n, ord)" by fastforce
  have "groups_ok (add_entry gs n ord) \<and> flat_groups (add_entry gs n ord) = flat_groups gs @ [(n, ord)]
    \<and> add_entry gs n ord \<noteq> [] \<and> fst (last (add_entry gs n ord)) = ord"
    by (rule add_entry_ok) (use Cons.prems e in auto)
  with Cons.IH [of "add_entry gs n ord"] Cons.prems e show ?case
    by (simp only: add_to_groups_Cons) auto
qed

lemma group_by_order_flat:
  assumes "go_sort snd srt"
  shows "groups_ok (group_by_order srt configs)
    \<and> flat_groups (group_by_order srt configs) = srt (order_entries configs)"
proof (cases "order_entries configs = []")
  case True
  then show ?thesis
    using go_sort_Nil [OF assms] by (simp add: group_by_order_def flat_groups_def groups_ok_def)
next
  case False
  have "groups_ok (add_to_groups [] (srt (order_entries configs)))
      \<and> flat_groups (add_to_groups [] (srt (order_entries configs))) = flat_groups [] @ srt (order_entries configs)"
    by (rule add_to_groups_ok) (simp_all add: groups_ok_def go_sort_sorted [OF assms])
  with False show ?thesis by (simp add: group_by_order_def flat_groups_def)
qed

text \<open>The start groups hold exactly the enabled daemons, in the sorted order; every group has one
  order value and a member, and the values increase strictly from group to group.\<close>

theorem group_by_order_correct:
  assumes "go_sort snd srt"
  shows "flat_groups (group_by_order srt configs) = srt (order_entries configs)
    \<and> sorted_wrt (<) (map fst (group_by_order srt configs))
    \<and> (\<forall>g \<in> set (group_by_order srt configs). snd g \<noteq> [])
    \<and> mset (map fst (flat_groups (group_by_order srt configs)))
        = mset (map dc_name (filter dc_enabled configs))"
proof -
  have "mset (map fst (srt (order_entries configs))) = mset (map fst (order_entries configs))"
    by (simp only: mset_map go_sort_mset [OF assms])
  moreover have "map fst (order_entries configs) = map dc_name (filter dc_enabled configs)"
    by (simp add: order_entries_def)
  ultimately show ?thesis
    using group_by_order_flat [OF assms, of configs] by (simp add: groups_ok_def)
qed

theorem group_by_order_correct_witness:
  "flat_groups (group_by_order (sort_key snd) [indexd_config, bus_config]) = [(''bus'', 10), (''indexd'', 20)]
   \<and> group_by_order (sort_key snd) [indexd_config, bus_config] = [(10, [''bus'']), (20, [''indexd''])]"
proof -
  have "sort_key snd (order_entries [indexd_config, bus_config]) = [(''bus'', 10), (''indexd'', 20)]"
    by (simp add: order_entries_def indexd_config_def bus_config_def)
  with group_by_order_correct [of "sort_key snd" "[indexd_config, bus_config]"]
  show ?thesis
    by (simp add: group_by_order_def Let_def) (simp add: order_entries_def indexd_config_def)
qed

section \<open>Starting all\<close>

lemma dm_inv_at [simp]: "dm_inv (dm_at t m) = dm_inv m"
  by (simp add: dm_inv_def)

lemma dm_inv_emit [simp]: "dm_inv (dm_emit es m) = dm_inv m"
  by (simp add: dm_inv_def)

text \<open>A running daemon is not disturbed by starting anything.\<close>

lemma start_keeps_running:
  assumes "dm_get m k = Some d" and "d_state d = DaemonRunning"
  shows "dm_get (fst (dm_start env n m)) k = Some d"
proof (cases "k = n")
  case True
  with assms show ?thesis by (simp add: dm_start_def start_gate_def)
next
  case False
  with assms show ?thesis by (simp add: starts.op_other)
qed

lemma start_success_running:
  assumes "dm_inv m" and "dm_start env n m = (m', None)"
  shows "\<exists>d. dm_get m' n = Some d \<and> d_state d = DaemonRunning"
proof -
  obtain d where d: "dm_get m n = Some d"
    using assms(2) by (auto simp: dm_start_def split: option.splits)
  have "d_state d \<noteq> DaemonStarting" using assms(1) d by (auto simp: dm_inv_def daemon_ok_def)
  with start_cases [OF d assms(2)] d show ?thesis
    by (auto simp: start_gate_Skip set_state_def)
qed

text \<open>What a group, and then all groups, keep.\<close>

definition start_kept :: "dm \<Rightarrow> dm \<Rightarrow> bool" where
  "start_kept m m' \<longleftrightarrow> (dm_inv m \<longrightarrow> dm_inv m') \<and> (\<exists>es. dm_trace m' = dm_trace m @ es)
     \<and> (\<forall>k d. dm_get m k = Some d \<and> d_state d = DaemonRunning \<longrightarrow> dm_get m' k = Some d)
     \<and> dom (dm_get m') = dom (dm_get m) \<and> dm_configs m' = dm_configs m"

lemma start_kept_refl [simp]: "start_kept m m"
  by (simp add: start_kept_def)

lemma start_kept_trans: "start_kept m m' \<Longrightarrow> start_kept m' m'' \<Longrightarrow> start_kept m m''"
  unfolding start_kept_def by (metis append_assoc)

lemma start_kept_start: "start_kept m (fst (dm_start env n m))"
proof -
  have "dm_configs (fst (dm_start env n m)) = dm_configs m"
    and "\<exists>es. dm_trace (fst (dm_start env n m)) = dm_trace m @ es"
    using start_touches [of n m env] by (simp_all add: touches_only_def)
  with start_inv [of m env n] start_keeps_running [of m _ _ env n] starts.op_dom [of env n m]
  show ?thesis by (auto simp: start_kept_def)
qed

lemma start_kept_at [simp]: "start_kept m (dm_at t m') = start_kept m m'"
  by (simp add: start_kept_def dm_inv_def)

lemma start_kept_from_at [simp]: "start_kept (dm_at t m) m' = start_kept m m'"
  by (simp add: start_kept_def dm_inv_def)

lemma start_kept_emit [simp]: "start_kept m m' \<Longrightarrow> start_kept m (dm_emit es m')"
  by (auto simp: start_kept_def dm_inv_def)

lemma start_members_kept: "start_kept m (fst (start_members env t0 names m))"
proof (induction names arbitrary: m)
  case Nil
  then show ?case by simp
next
  case (Cons n names)
  have "start_kept m (fst (dm_start env n (dm_at t0 m)))"
    using start_kept_start [of "dm_at t0 m" env n] by simp
  from start_kept_trans [OF this Cons.IH] show ?case
    by (simp add: case_prod_beta Let_def)
qed

lemma start_group_kept: "start_kept m (fst (start_group env eg names m))"
  using start_members_kept [of m env "dm_clock m" names]
  by (simp add: start_group_def case_prod_beta Let_def)

lemma start_groups_kept: "start_kept m (fst (start_groups env eg gs m))"
proof (induction gs arbitrary: m)
  case (Cons g gs)
  obtain ord names where g: "g = (ord, names)" by fastforce
  obtain m1 r where sg: "start_group env eg names m = (m1, r)" by fastforce
  then have "start_kept m m1" using start_group_kept [of m env eg names] by simp
  with Cons.IH [of m1] start_kept_trans sg g show ?case
    by (cases r) (auto intro: start_kept_trans)
qed simp

text \<open>When no member fails, all of them run.\<close>

lemma start_members_ok:
  assumes "dm_inv m" and "start_members env t0 names m = (m', [])" and "n \<in> set names"
  shows "\<exists>d. dm_get m' n = Some d \<and> d_state d = DaemonRunning"
  using assms
proof (induction names arbitrary: m m')
  case (Cons k names)
  obtain m1 e where st: "dm_start env k (dm_at t0 m) = (m1, e)" by fastforce
  obtain m2 es where rest: "start_members env t0 names m1 = (m2, es)" by fastforce
  have "e = None" and "es = []" and m': "m' = dm_at (max (dm_clock m1) (dm_clock m2)) m2"
    using Cons.prems(2) st rest by (auto split: option.splits)
  have inv1: "dm_inv m1" using start_inv [of "dm_at t0 m" env k] st Cons.prems(1) by simp
  have kept: "start_kept m1 m2" using start_members_kept [of m1 env t0 names] rest by simp
  show ?case
  proof (cases "n = k")
    case True
    with start_success_running [of "dm_at t0 m" env k m1] st \<open>e = None\<close> Cons.prems(1) kept m'
    show ?thesis by (auto simp: start_kept_def)
  next
    case False
    with Cons.IH [OF inv1] rest \<open>es = []\<close> Cons.prems(3) m' show ?thesis by auto
  qed
qed simp

lemma start_group_ok:
  assumes "dm_inv m" and "errgroup_doc eg" and "start_group env eg names m = (m', None)" and "n \<in> set names"
  shows "\<exists>d. dm_get m' n = Some d \<and> d_state d = DaemonRunning"
proof -
  obtain m1 es where mem: "start_members env (dm_clock m) names m = (m1, es)" by fastforce
  have "eg_wait eg es = None" using assms(3) mem by (simp add: start_group_def Let_def)
  then have "es = []" using assms(2) by (force simp: errgroup_doc_def)
  with start_members_ok [OF assms(1) _ assms(4)] mem obtain d where
    "dm_get m1 n = Some d \<and> d_state d = DaemonRunning" by blast
  then show ?thesis using assms(3) mem by (auto simp: start_group_def Let_def)
qed

lemma start_groups_ok:
  assumes "dm_inv m" and "errgroup_doc eg" and "start_groups env eg gs m = (m', None)"
    and "(n, ord) \<in> set (flat_groups gs)"
  shows "\<exists>d. dm_get m' n = Some d \<and> d_state d = DaemonRunning"
  using assms
proof (induction gs arbitrary: m)
  case Nil
  then show ?case by (simp add: flat_groups_def)
next
  case (Cons g gs)
  obtain o' names where g: "g = (o', names)" by fastforce
  obtain m1 r where sg: "start_group env eg names m = (m1, r)" by fastforce
  have r: "r = None" and rest: "start_groups env eg gs m1 = (m', None)"
    using Cons.prems(3) g sg by (auto split: if_splits option.splits)
  have inv1: "dm_inv m1"
    using start_group_kept [of m env eg names] sg Cons.prems(1) by (simp add: start_kept_def)
  have kept: "start_kept m1 m'" using start_groups_kept [of m1 env eg gs] rest by simp
  show ?case
  proof (cases "n \<in> set names")
    case True
    with start_group_ok [OF Cons.prems(1,2)] sg r kept show ?thesis
      by (force simp: start_kept_def)
  next
    case False
    with Cons.prems(4) g have "(n, ord) \<in> set (flat_groups gs)" by (auto simp: flat_groups_def)
    with Cons.IH [OF inv1 Cons.prems(2) rest] show ?thesis by simp
  qed
qed

text \<open>Every process a group spawns is killed when its group is done.\<close>

definition killed_after :: "effect list \<Rightarrow> bool" where
  "killed_after es \<longleftrightarrow> (\<forall>pid \<in> set (spawned es). KilledByContext pid \<in> set es)"

lemma spawned_killed [simp]: "spawned (map KilledByContext ps) = []"
  by (induction ps) auto

lemma killed_after_append: "killed_after xs \<Longrightarrow> killed_after ys \<Longrightarrow> killed_after (xs @ ys)"
  by (auto simp: killed_after_def)

lemma start_group_kills:
  assumes "errgroup_doc eg" and "start_group env eg names m = (m', r)"
  shows "\<exists>es. dm_trace m' = dm_trace m @ es \<and> killed_after es"
proof -
  obtain m1 errs where mem: "start_members env (dm_clock m) names m = (m1, errs)" by fastforce
  then obtain es where es: "dm_trace m1 = dm_trace m @ es"
    using start_members_kept [of m env "dm_clock m" names] by (auto simp: start_kept_def)
  have "dm_trace m' = dm_trace m @ (es @ map KilledByContext (spawned es))"
    using assms mem es by (auto simp: start_group_def Let_def errgroup_doc_def)
  moreover have "killed_after (es @ map KilledByContext (spawned es))"
    by (auto simp: killed_after_def)
  ultimately show ?thesis by blast
qed

lemma start_groups_kill:
  assumes "errgroup_doc eg" and "start_groups env eg gs m = (m', r)"
  shows "\<exists>es. dm_trace m' = dm_trace m @ es \<and> killed_after es"
  using assms
proof (induction gs arbitrary: m)
  case Nil
  then show ?case by (auto simp: killed_after_def)
next
  case (Cons g gs)
  obtain ord names where g: "g = (ord, names)" by fastforce
  obtain m1 e where sg: "start_group env eg names m = (m1, e)" by fastforce
  obtain es where es: "dm_trace m1 = dm_trace m @ es" "killed_after es"
    using start_group_kills [OF Cons.prems(1) sg] by blast
  consider "m' = m" | "m' = m1" | "start_groups env eg gs m1 = (m', r)"
    using Cons.prems(2) g sg by (auto split: if_splits option.splits)
  then show ?case
  proof cases
    case 1
    then show ?thesis by (auto simp: killed_after_def)
  next
    case 2
    with es show ?thesis by blast
  next
    case 3
    from Cons.IH [OF Cons.prems(1) 3] obtain es' where "dm_trace m' = dm_trace m1 @ es'" "killed_after es'"
      by blast
    with es killed_after_append [of es es'] show ?thesis by auto
  qed
qed

lemma start_all_running:
  assumes "dm_inv m" and "errgroup_doc eg" and "go_sort snd srt"
    and "dm_start_all env eg srt m = (m', None)" and "dc \<in> set (dm_configs m)" and "dc_enabled dc"
  shows "\<exists>d. dm_get m' (dc_name dc) = Some d \<and> d_state d = DaemonRunning"
proof -
  have "(dc_name dc, dc_order dc) \<in> set (srt (order_entries (dm_configs m)))"
    using assms(5,6) by (force simp: order_entries_def go_sort_set [OF assms(3)])
  then have "(dc_name dc, dc_order dc) \<in> set (flat_groups (group_by_order srt (dm_configs m)))"
    by (simp only: group_by_order_flat [OF assms(3)])
  with start_groups_ok [OF assms(1,2)] assms(4) show ?thesis
    unfolding dm_start_all_def by blast
qed

text \<open>C19: when \<open>StartAll\<close> returns without an error every enabled daemon of the configuration is marked
  running. But the context the processes were started with belongs to the error group, which is done
  as soon as its \<open>Wait\<close> returns, so every process \<open>StartAll\<close> spawned has been killed again.\<close>

theorem start_all_runs_then_kills:
  assumes "dm_inv m" and "errgroup_doc eg" and "go_sort snd srt"
    and "dm_start_all env eg srt m = (m', None)"
  shows "(\<forall>dc \<in> set (dm_configs m). dc_enabled dc \<longrightarrow>
      (\<exists>d. dm_get m' (dc_name dc) = Some d \<and> d_state d = DaemonRunning))
    \<and> (\<exists>es. dm_trace m' = dm_trace m @ es \<and> (\<forall>pid \<in> set (spawned es). KilledByContext pid \<in> set es))"
proof (intro conjI ballI impI)
  fix dc assume "dc \<in> set (dm_configs m)" "dc_enabled dc"
  then show "\<exists>d. dm_get m' (dc_name dc) = Some d \<and> d_state d = DaemonRunning"
    by (rule start_all_running [OF assms])
next
  show "\<exists>es. dm_trace m' = dm_trace m @ es \<and> (\<forall>pid \<in> set (spawned es). KilledByContext pid \<in> set es)"
    using start_groups_kill [OF assms(2)] assms(4) unfolding dm_start_all_def killed_after_def by blast
qed

lemma demo_inv: "dm_inv demo"
proof -
  have "dm_get demo n = Some d \<Longrightarrow> d = new_daemon indexd_config \<and> n = ''indexd''
      \<or> d = new_daemon bus_config \<and> n = ''bus''" for n d
    by (auto simp: demo_def new_daemon_manager_def dm_get_def indexd_config_def bus_config_def
        split: if_splits)
  moreover have "daemon_ok ''indexd'' (new_daemon indexd_config)" "daemon_ok ''bus'' (new_daemon bus_config)"
    by (simp_all add: daemon_ok_def new_daemon_def indexd_config_def bus_config_def lb_inv_new)
  moreover have "dm_map_ok demo"
    by (simp add: dm_map_ok_def go_map_ok_def demo_def new_daemon_manager_def indexd_config_def
        bus_config_def)
  ultimately show ?thesis by (auto simp: dm_inv_def)
qed

text \<open>In the demonstration environment nothing fails.\<close>

lemma demo_start_none: "dm_get m n \<noteq> None \<Longrightarrow> snd (dm_start demo_env n m) = None"
proof -
  assume "dm_get m n \<noteq> None"
  then obtain d where d: "dm_get m n = Some d" by blast
  obtain m' r where st: "dm_start demo_env n m = (m', r)" by fastforce
  have "fst (wait_for_socket demo_env s t now)" for s t now
    by (simp add: wait_for_socket_def poll_first demo_simps)
  then have "wait_for_socket demo_env s t now \<noteq> (False, t')" for s t now t'
    by (metis fst_conv)
  then have "r \<noteq> Some (SocketTimeout n)"
    using st d by (auto simp: dm_start_def Let_def demo_simps split: gate.splits prod.splits if_splits)
  moreover have "r \<noteq> Some (LogdupFailed n)" "r \<noteq> Some (SpawnFailed n)"
    using st d by (auto simp: dm_start_def Let_def demo_simps split: gate.splits prod.splits if_splits)
  ultimately have "r = None" using start_cases [OF d st] by blast
  with st show ?thesis by simp
qed

lemma demo_members_none:
  "set names \<subseteq> dom (dm_get m) \<Longrightarrow> snd (start_members demo_env t0 names m) = []"
proof (induction names arbitrary: m)
  case (Cons n names)
  have "dom (dm_get (fst (dm_start demo_env n (dm_at t0 m)))) = dom (dm_get m)"
    using starts.op_dom [of demo_env n "dm_at t0 m"] by simp
  moreover have "snd (dm_start demo_env n (dm_at t0 m)) = None"
    using Cons.prems by (intro demo_start_none) auto
  ultimately show ?case
    using Cons.IH [of "fst (dm_start demo_env n (dm_at t0 m))"] Cons.prems
    by (simp add: case_prod_beta Let_def)
qed simp

lemma demo_groups_none:
  "fst ` set (flat_groups gs) \<subseteq> dom (dm_get m) \<Longrightarrow> snd (start_groups demo_env first_error_group gs m) = None"
proof (induction gs arbitrary: m)
  case (Cons g gs)
  obtain ord names where g: "g = (ord, names)" by fastforce
  have dom: "set names \<subseteq> dom (dm_get m)"
  proof
    fix n assume "n \<in> set names"
    then have "(n, ord) \<in> set (flat_groups (g # gs))" using g by (simp add: flat_groups_def)
    then show "n \<in> dom (dm_get m)" using Cons.prems by (metis fst_conv image_subset_iff)
  qed
  then have "snd (start_group demo_env first_error_group names m) = None"
    using demo_members_none [of names m "dm_clock m"]
    by (simp add: start_group_def case_prod_beta Let_def first_error_group_def)
  then obtain m1 where sg: "start_group demo_env first_error_group names m = (m1, None)"
    by (metis prod.collapse)
  then have "dom (dm_get m1) = dom (dm_get m)"
    using start_group_kept [of m demo_env first_error_group names] by (simp add: start_kept_def)
  moreover have "set (flat_groups gs) \<subseteq> set (flat_groups (g # gs))"
    by (simp add: flat_groups_def)
  ultimately have "fst ` set (flat_groups gs) \<subseteq> dom (dm_get m1)"
    using Cons.prems by (metis image_mono order_trans)
  from Cons.IH [OF this] sg g show ?case by (simp add: demo_simps)
qed simp

lemma dm_at_self [simp]: "dm_at (dm_clock m) m = m"
  by (simp add: dm_at_def)

lemma demo_names:
  "dm_configs demo = [indexd_config, bus_config]" "dc_name indexd_config = ''indexd''"
  "dc_name bus_config = ''bus''" "dc_enabled bus_config"
  by (simp_all add: demo_def new_daemon_manager_def indexd_config_def bus_config_def)

lemma demo_start_all: "snd (dm_start_all demo_env first_error_group (sort_key snd) (dm_at t demo)) = None"
proof -
  have "fst ` set (flat_groups (group_by_order (sort_key snd) (dm_configs demo))) \<subseteq> dom (dm_get demo)"
    using group_by_order_flat [of "sort_key snd" "dm_configs demo"]
    by (auto simp: order_entries_def demo_names demo_get domIff)
  then show ?thesis unfolding dm_start_all_def by (intro demo_groups_none) simp
qed

theorem start_all_runs_then_kills_witness:
  "\<exists>m'. dm_start_all demo_env first_error_group (sort_key snd) demo = (m', None)
     \<and> map_option d_state (dm_get m' ''bus'') = Some DaemonRunning
     \<and> (\<forall>pid \<in> set (spawned (dm_trace m')). KilledByContext pid \<in> set (dm_trace m'))"
proof -
  note configs = demo_names
  obtain m' where m': "dm_start_all demo_env first_error_group (sort_key snd) demo = (m', None)"
    using demo_start_all [of "dm_clock demo"] by (metis dm_at_self prod.collapse)
  have "(\<exists>d. dm_get m' ''bus'' = Some d \<and> d_state d = DaemonRunning)
      \<and> (\<forall>pid \<in> set (spawned (dm_trace m')). KilledByContext pid \<in> set (dm_trace m'))"
    using start_all_runs_then_kills [OF demo_inv first_error_group_doc go_sort_key m']
    by (auto simp: configs demo_simps)
  with m' show ?thesis by auto
qed

end
