(* ===== verification/Daemon_Shutdown.thy ===== *)
theory Daemon_Shutdown
  imports Daemon_Groups
begin

text \<open>
  \<open>StopAll\<close> and \<open>reloadConfig\<close> of the daemon manager, and the invariant of its records through every
  operation.
\<close>

section \<open>Stopping all\<close>

definition idle :: "daemon \<Rightarrow> bool" where
  "idle d \<longleftrightarrow> d_state d \<noteq> DaemonRunning \<and> d_state d \<noteq> DaemonStarting"

fun sigterms :: "effect list \<Rightarrow> int list" where
  "sigterms [] = []"
| "sigterms (Signalled p SIGTERM # es) = p # sigterms es"
| "sigterms (_ # es) = sigterms es"

lemma sigterms_append [simp]: "sigterms (xs @ ys) = sigterms xs @ sigterms ys"
  by (induction xs rule: sigterms.induct) auto

lemma sigterms_close [simp]: "sigterms (close_writers d) = []"
  by (simp add: close_writers_def)

lemma stop_keeps_idle:
  assumes "dm_get m k = Some d" and "idle d"
  shows "dm_get (fst (dm_stop env n m)) k = Some d"
proof (cases "k = n")
  case True
  with assms show ?thesis by (simp add: dm_stop_def idle_def)
next
  case False
  with assms show ?thesis by (simp add: stops.op_other)
qed

lemma stop_cases:
  assumes "dm_get m n = Some d" and "dm_stop env n m = (m', r)"
  shows "idle d \<and> r = None \<and> m' = m
    \<or> \<not> idle d \<and> r = None \<and> (\<exists>t. dm_get m' n = Some (cleanup_daemon t d))
        \<and> sigterms (dm_trace m') = sigterms (dm_trace m) @ [d_pgid d]
    \<or> \<not> idle d \<and> r \<noteq> None \<and> dm_get m' n = Some d
        \<and> sigterms (dm_trace m') = sigterms (dm_trace m) @ [d_pgid d]"
proof (cases "idle d")
  case True
  with assms show ?thesis by (auto simp: idle_def dm_stop_def)
next
  case False
  then have active: "d_state d = DaemonRunning \<or> d_state d = DaemonStarting" by (auto simp: idle_def)
  obtain w t where "stop_wait (e_alive env (d_pgid d)) (e_cancelled env) (e_lag env) (dm_clock m) = (w, t)"
    by fastforce
  from stop_active [OF assms(1) active this] assms False show ?thesis
    by (auto simp: Let_def cleanup_get cleanup_trace split: stop_result.splits if_splits)
qed

lemma stop_each_each: "fst (stop_each env es m) = stops.each env (map fst es) m"
  by (induction es arbitrary: m) (auto simp: case_prod_beta Let_def)

lemma stop_each_keeps_idle:
  "dm_get m k = Some d \<Longrightarrow> idle d \<Longrightarrow> dm_get (fst (stop_each env es m)) k = Some d"
  by (induction es arbitrary: m) (auto simp: case_prod_beta Let_def stop_keeps_idle)

lemma stop_each_ok:
  assumes "stop_each env es m = (m', None)" and "n \<in> fst ` set es" and "dm_get m n \<noteq> None"
  shows "\<exists>d. dm_get m' n = Some d \<and> idle d"
  using assms
proof (induction es arbitrary: m)
  case (Cons e es)
  obtain k ord where e: "e = (k, ord)" by fastforce
  obtain m1 r where st: "dm_stop env k m = (m1, r)" by fastforce
  have r: "r = None" and rest: "stop_each env es m1 = (m', None)"
    using Cons.prems(1) st e by (auto simp: Let_def split: prod.splits option.splits)
  have present: "dm_get m1 n \<noteq> None"
    using stops.op_dom [of env k m] st Cons.prems(3) by (auto simp: dom_def)
  show ?case
  proof (cases "n = k")
    case True
    obtain d where d: "dm_get m n = Some d" using Cons.prems(3) by blast
    obtain d' where d': "dm_get m1 n = Some d'" "idle d'"
      using stop_cases [of m k d env m1 r] d st r True by (auto simp: idle_def cleanup_daemon_def)
    from stop_each_keeps_idle [OF this, of env es] rest d' show ?thesis by auto
  next
    case False
    with Cons.IH [OF rest _ present] Cons.prems(2) e show ?thesis by auto
  qed
qed simp

definition pgid_of :: "dm \<Rightarrow> string \<Rightarrow> int" where
  "pgid_of m n = (case dm_get m n of None \<Rightarrow> 0 | Some d \<Rightarrow> d_pgid d)"

lemma stop_each_sigterms:
  assumes "distinct (map fst es)" and "\<forall>e \<in> set es. \<exists>d. dm_get m (fst e) = Some d \<and> \<not> idle d"
  shows "sigterms (dm_trace (fst (stop_each env es m)))
    = sigterms (dm_trace m) @ map (\<lambda>e. pgid_of m (fst e)) es"
  using assms
proof (induction es arbitrary: m)
  case (Cons e es)
  obtain k ord where e: "e = (k, ord)" by fastforce
  obtain m1 r where st: "dm_stop env k m = (m1, r)" by fastforce
  obtain d where d: "dm_get m k = Some d" "\<not> idle d" using Cons.prems(2) e by auto
  have frame: "dm_get m1 (fst x) = dm_get m (fst x)" if "x \<in> set es" for x
    using stops.op_other [of "fst x" k env m] Cons.prems(1) that st e by force
  have "sigterms (dm_trace m1) = sigterms (dm_trace m) @ [d_pgid d]"
    using stop_cases [OF d(1) st] d(2) by auto
  moreover have "sigterms (dm_trace (fst (stop_each env es m1)))
      = sigterms (dm_trace m1) @ map (\<lambda>e. pgid_of m1 (fst e)) es"
    by (rule Cons.IH) (use Cons.prems frame in auto)
  moreover have "map (\<lambda>e. pgid_of m1 (fst e)) es = map (\<lambda>e. pgid_of m (fst e)) es"
    using frame by (auto simp: pgid_of_def)
  ultimately show ?case
    using st e d by (simp add: case_prod_beta Let_def pgid_of_def)
qed simp

lemma dm_list_get: "dm_map_ok m \<Longrightarrow> d \<in> set (dm_list m) \<longleftrightarrow> (\<exists>k. dm_get m k = Some d)"
  by (auto simp: dm_list_def dm_get_def dm_map_ok_def go_map_Some_iff image_iff) force

lemma dm_list_names: "dm_inv m \<Longrightarrow> distinct (map d_name (dm_list m))"
proof -
  assume inv: "dm_inv m"
  then have ok: "dm_map_ok m" by (simp add: dm_inv_def)
  have "d_name (snd x) = fst x" if "x \<in> set (dm_daemons m)" for x
  proof -
    have "dm_get m (fst x) = Some (snd x)"
      using that ok by (simp add: dm_get_def dm_map_ok_def go_map_Some_iff)
    with inv show ?thesis by (simp add: dm_inv_def daemon_ok_def)
  qed
  then have names: "map d_name (dm_list m) = map fst (dm_daemons m)" by (simp add: dm_list_def)
  show ?thesis using ok by (simp only: names) (simp add: dm_map_ok_def go_map_ok_def)
qed

lemma stop_entries_names:
  assumes "dm_inv m"
  shows "distinct (map fst (stop_entries m))"
    and "\<And>n. n \<in> fst ` set (stop_entries m) \<longleftrightarrow>
      (\<exists>d. dm_get m n = Some d \<and> dc_enabled (d_config d) \<and> is_running d)"
proof -
  have ok: "dm_map_ok m" using assms by (simp add: dm_inv_def)
  from dm_list_names [OF assms] show "distinct (map fst (stop_entries m))"
    by (simp add: stop_entries_def comp_def distinct_map_filter)
  show "n \<in> fst ` set (stop_entries m) \<longleftrightarrow>
      (\<exists>d. dm_get m n = Some d \<and> dc_enabled (d_config d) \<and> is_running d)" for n
  proof -
    have own: "d_name d = k" if "dm_get m k = Some d" for k d
      using assms that by (simp add: dm_inv_def daemon_ok_def)
    have "n \<in> fst ` set (stop_entries m) \<longleftrightarrow>
        (\<exists>d \<in> set (dm_list m). dc_enabled (d_config d) \<and> is_running d \<and> d_name d = n)"
      by (auto simp: stop_entries_def image_image)
    also have "\<dots> \<longleftrightarrow> (\<exists>d. dm_get m n = Some d \<and> dc_enabled (d_config d) \<and> is_running d)"
      using own dm_list_get [OF ok] by metis
    finally show ?thesis .
  qed
qed

lemma stop_all_result:
  assumes "dm_inv m" and "go_sort (\<lambda>e. - snd e) srt" and "dm_stop_all env srt m = (m', r)"
  shows "sigterms (dm_trace m')
        = sigterms (dm_trace m) @ map (\<lambda>e. pgid_of m (fst e)) (srt (stop_entries m))
    \<and> (r = None \<longrightarrow> (\<forall>n d. dm_get m' n = Some d \<and> dc_enabled (d_config d) \<longrightarrow> \<not> is_running d))
    \<and> (\<forall>n d. dm_get m n = Some d \<and> (\<not> dc_enabled (d_config d) \<or> \<not> is_running d)
          \<longrightarrow> dm_get m' n = Some d)"
proof -
  let ?es = "srt (stop_entries m)"
  note names = stop_entries_names [OF assms(1)]
  have set_es: "set ?es = set (stop_entries m)" by (rule go_sort_set [OF assms(2)])
  have m': "m' = fst (stop_each env ?es m)" and sts: "stop_each env ?es m = (m', r)"
    using assms(3) by (simp_all add: dm_stop_all_def)
  have dist: "distinct (map fst ?es)"
  proof -
    have "mset (map fst ?es) = mset (map fst (stop_entries m))"
      by (simp only: mset_map go_sort_mset [OF assms(2)])
    with names(1) show ?thesis by (metis mset_eq_imp_distinct_iff)
  qed
  have active: "\<exists>d. dm_get m (fst e) = Some d \<and> \<not> idle d" if "e \<in> set ?es" for e
  proof -
    have "fst e \<in> fst ` set (stop_entries m)" using that set_es by blast
    then show ?thesis by (auto simp: names(2) idle_def is_running_def)
  qed
  have frame: "dm_get m' n = dm_get m n" if "n \<notin> fst ` set (stop_entries m)" for n
    using that set_es by (simp add: m' stop_each_each stops.each_other)
  have "\<not> is_running d" if "r = None" "dm_get m' n = Some d" "dc_enabled (d_config d)" for n d
  proof (cases "n \<in> fst ` set (stop_entries m)")
    case True
    then have "\<exists>d. dm_get m' n = Some d \<and> idle d"
      using stop_each_ok [of env ?es m m' n] sts that(1) set_es names(2) [of n] by auto
    with that show ?thesis by (auto simp: idle_def is_running_def)
  next
    case False
    with frame that names(2) [of n] show ?thesis by auto
  qed
  moreover have "sigterms (dm_trace m') = sigterms (dm_trace m) @ map (\<lambda>e. pgid_of m (fst e)) ?es"
    unfolding m' using dist active by (intro stop_each_sigterms) auto
  moreover have "dm_get m' n = Some d"
    if "dm_get m n = Some d" "\<not> dc_enabled (d_config d) \<or> \<not> is_running d" for n d
    using frame [of n] that names(2) [of n] by auto
  ultimately show ?thesis by (intro conjI allI impI) auto
qed

text \<open>\<open>StopAll\<close> sends SIGTERM to the groups of the enabled running daemons, each once, from the
  highest order to the lowest; without an error none of them runs afterwards. A daemon that is
  running but not enabled in its configuration (\<open>start\<close> over the socket allows that) is not touched.\<close>

theorem stop_all_outcome:
  assumes "dm_inv m" and "go_sort (\<lambda>e. - snd e) srt" and "dm_stop_all env srt m = (m', r)"
  shows "sigterms (dm_trace m')
        = sigterms (dm_trace m) @ map (\<lambda>e. pgid_of m (fst e)) (srt (stop_entries m))
    \<and> (r = None \<longrightarrow> (\<forall>n d. dm_get m' n = Some d \<and> dc_enabled (d_config d) \<longrightarrow> \<not> is_running d))
    \<and> (\<forall>n d. dm_get m n = Some d \<and> (\<not> dc_enabled (d_config d) \<or> \<not> is_running d)
          \<longrightarrow> dm_get m' n = Some d)"
  using assms by (rule stop_all_result)

theorem stop_all_outcome_witness:
  "\<exists>m' r. dm_stop_all demo_env (sort_key (\<lambda>e. - snd e)) (fst (dm_start demo_env ''bus'' demo)) = (m', r)
     \<and> sigterms (dm_trace m') = [101] \<and> dm_get m' ''indexd'' = dm_get demo ''indexd''"
proof -
  let ?m = "fst (dm_start demo_env ''bus'' demo)"
  obtain m' r where sa: "dm_stop_all demo_env (sort_key (\<lambda>e. - snd e)) ?m = (m', r)" by fastforce
  note res = stop_all_outcome [OF start_inv [OF demo_inv] go_sort_key sa]
  have "stop_entries ?m = [(''bus'', 10)]"
    by (simp only: demo_start_bus fst_conv) (simp add: stop_entries_def dm_list_def dm_emit_def dm_at_def dm_modify_def
        demo_def new_daemon_manager_def gm_modify_def set_state_def record_process_def new_daemon_def
        indexd_config_def bus_config_def is_running_def)
  then have "sigterms (dm_trace m') = [101]"
    using res by (simp add: pgid_of_def demo_start_bus dm_get_modify demo_simps set_state_def
        record_process_def)
  moreover have "dm_get ?m ''indexd'' = Some (new_daemon indexd_config)"
    by (simp add: demo_start_bus dm_get_modify demo_simps)
  moreover have "\<not> is_running (new_daemon indexd_config)"
    by (simp add: is_running_def new_daemon_def)
  ultimately show ?thesis using res sa by (auto simp: demo_simps)
qed

section \<open>Reloading\<close>

lemma get_delete: "dm_get (m\<lparr>dm_daemons := AList.delete n (dm_daemons m)\<rparr>) = (dm_get m)(n := None)"
  by (simp add: dm_get_def [abs_def])

lemma remove_daemons_get:
  "dm_get (remove_daemons env names m) k = (if k \<in> set names then None else dm_get m k)"
  by (induction names arbitrary: m) (auto simp: Let_def get_delete stops.op_other)

lemma remove_daemons_dom: "dom (dm_get (remove_daemons env names m)) = dom (dm_get m) - set names"
  by (auto simp: remove_daemons_get dom_def split: if_splits)

lemma add_daemons_other:
  "k \<notin> dc_name ` set dcs \<Longrightarrow> dm_get (add_daemons env dcs m) k = dm_get m k"
  by (induction dcs arbitrary: m) (auto simp: Let_def dm_get_put starts.op_other)

lemma add_daemons_dom:
  "dom (dm_get (add_daemons env dcs m)) = dom (dm_get m) \<union> dc_name ` set dcs"
  by (induction dcs arbitrary: m) (auto simp: Let_def dm_get_put starts.op_dom)

lemma configs_by_name_get:
  "map_of (fold (\<lambda>nc. AList.update (dc_name nc) nc) cs M) n
     = (case filter (\<lambda>nc. dc_name nc = n) (rev cs) of [] \<Rightarrow> map_of M n | nc # _ \<Rightarrow> Some nc)"
  by (induction cs arbitrary: M) (auto split: list.split)

lemma configs_by_name_dom: "dom (map_of (configs_by_name cs)) = dc_name ` set cs"
  by (auto simp: configs_by_name_def configs_by_name_get dom_def filter_empty_conv split: list.split)

lemma configs_by_name_entry: "(n, nc) \<in> set (configs_by_name cs) \<Longrightarrow> dc_name nc = n"
proof -
  have ok: "go_map_ok (fold (\<lambda>nc. AList.update (dc_name nc) nc) cs M)" if "go_map_ok M"
    for M :: "daemon_config go_map" using that by (induction cs arbitrary: M) auto
  assume "(n, nc) \<in> set (configs_by_name cs)"
  then have "map_of (configs_by_name cs) n = Some nc"
    using ok [of "[]"] by (simp add: configs_by_name_def go_map_Some_iff)
  then obtain rest where "filter (\<lambda>nc. dc_name nc = n) (rev cs) = nc # rest"
    by (auto simp: configs_by_name_def configs_by_name_get split: list.splits)
  then have "nc \<in> set (filter (\<lambda>nc. dc_name nc = n) (rev cs))"
    by (metis list.set_intros(1))
  then show ?thesis by simp
qed

text \<open>C38: after a reload the managed daemons are those the new file names. One that the file named
  before keeps its record as it is, whatever its section says now: a property that changed, and
  \<open>enabled\<close> in particular, has no effect.\<close>

theorem reload_outcome:
  assumes "\<And>xs. mset (ra xs) = mset xs" and "\<And>xs. mset (rr xs) = mset xs"
    and "reload_config env ra rr True (Some cs) m = (m', r)"
  shows "r = Reloaded \<and> dm_configs m' = cs \<and> dom (dm_get m') = dc_name ` set cs
    \<and> (\<forall>n d. dm_get m n = Some d \<and> n \<in> dc_name ` set cs \<longrightarrow> dm_get m' n = Some d)"
proof -
  let ?new = "configs_by_name cs"
  let ?old = "map fst (dm_daemons m)"
  let ?added = "map snd (filter (\<lambda>(n, nc). n \<notin> set ?old) (ra ?new))"
  let ?removed = "filter (\<lambda>n. map_of ?new n = None) (rr ?old)"
  let ?m1 = "add_daemons env ?added (remove_daemons env ?removed m)"
  have m': "m' = ?m1\<lparr>dm_configs := cs\<rparr>" "r = Reloaded"
    using assms(3) by (auto simp: reload_config_def Let_def)
  have ra: "set (ra xs) = set xs" for xs using assms(1) by (metis mset_eq_setD)
  have rr: "set (rr xs) = set xs" for xs using assms(2) by (metis mset_eq_setD)
  have old: "set ?old = dom (dm_get m)" by (auto simp: dm_get_def [abs_def] dom_map_of_conv_image_fst)
  have newdom: "fst ` set ?new = dc_name ` set cs"
    using configs_by_name_dom [of cs] by (simp add: dom_map_of_conv_image_fst)
  have added: "dc_name ` set ?added = dc_name ` set cs - dom (dm_get m)"
  proof -
    have "dc_name ` set ?added = {n. n \<in> fst ` set ?new \<and> n \<notin> set ?old}"
      using configs_by_name_entry by (force simp: ra)
    then show ?thesis using old newdom by auto
  qed
  have removed: "set ?removed = dom (dm_get m) - dc_name ` set cs"
    using old newdom by (auto simp: rr map_of_eq_None_iff simp del: set_map)
  have get': "dm_get m' = dm_get ?m1" by (simp add: m' dm_get_def [abs_def])
  have "dom (dm_get m') = dc_name ` set cs"
    by (simp only: get' add_daemons_dom added remove_daemons_dom removed) blast
  moreover have "dm_get m' n = Some d" if "dm_get m n = Some d" "n \<in> dc_name ` set cs" for n d
  proof -
    have "n \<notin> dc_name ` set ?added" using that added by auto
    moreover have "n \<notin> set ?removed" using that removed by simp
    ultimately show ?thesis using that(1) by (simp add: get' add_daemons_other remove_daemons_get)
  qed
  ultimately show ?thesis using m' by auto
qed

theorem reload_outcome_witness:
  "\<exists>m' r. reload_config demo_env id id True (Some [bus_config\<lparr>dc_enabled := False\<rparr>])
        (fst (dm_start demo_env ''bus'' demo)) = (m', r)
     \<and> dom (dm_get m') = {''bus''} \<and> map_option is_running (dm_get m' ''bus'') = Some True"
proof -
  let ?m = "fst (dm_start demo_env ''bus'' demo)"
  obtain m' r where re: "reload_config demo_env id id True (Some [bus_config\<lparr>dc_enabled := False\<rparr>]) ?m = (m', r)"
    by fastforce
  have name: "dc_name bus_config = ''bus''" by (simp add: bus_config_def)
  have "dm_get ?m ''bus'' = Some (set_state DaemonRunning (record_process 101 1
      (set_state DaemonStarting (new_daemon bus_config))))"
    by (simp add: demo_start_bus dm_get_modify demo_simps)
  with reload_outcome [of id id demo_env "[bus_config\<lparr>dc_enabled := False\<rparr>]" ?m m' r] re show ?thesis
    by (auto simp: name is_running_def set_state_def)
qed

section \<open>The invariant through every operation\<close>

lemma new_daemon_ok: "daemon_ok (dc_name dc) (new_daemon dc)"
  by (simp add: daemon_ok_def new_daemon_def lb_inv_new)

lemma put_inv: "dm_inv m \<Longrightarrow> dm_inv (dm_put (dc_name dc) (new_daemon dc) m)"
  using daemons.inv_put [of m] by (simp add: dm_inv_def dm_get_put new_daemon_ok)

lemma new_manager_inv: "dm_inv (new_daemon_manager cs now)"
proof -
  have "dm_inv (m\<lparr>dm_daemons := fold (\<lambda>dc. AList.update (dc_name dc) (new_daemon dc)) cs (dm_daemons m)\<rparr>)"
    if "dm_inv m" for m
    using that
  proof (induction cs arbitrary: m)
    case (Cons dc cs)
    from Cons.IH [OF put_inv [OF Cons.prems, of dc]] show ?case by (simp add: dm_put_def)
  qed simp
  moreover have "dm_inv \<lparr>dm_configs = cs, dm_daemons = [], dm_clock = now, dm_trace = []\<rparr>"
    by (simp add: dm_inv_def dm_map_ok_def dm_get_def)
  ultimately show ?thesis unfolding new_daemon_manager_def by fastforce
qed

lemma failed_ok: "daemon_ok name d \<Longrightarrow> daemon_ok name (set_state DaemonFailed d)"
  by (auto simp: daemon_ok_def set_state_def)

lemma rearm_ok: "daemon_ok name d \<Longrightarrow> daemon_ok name (monitor_rearm d)"
  by (simp add: daemon_ok_def monitor_rearm_def)

lemma clear_ok: "daemon_ok name d \<Longrightarrow> daemon_ok name (monitor_clear t (set_state s d))"
  if "s \<noteq> DaemonStarting"
  using that by (simp add: daemon_ok_def monitor_clear_def set_state_def)

lemma modify_inv:
  "dm_inv m \<Longrightarrow> (\<And>d. daemon_ok name d \<Longrightarrow> daemon_ok name (f d)) \<Longrightarrow> dm_inv (dm_modify name f m)"
  by (auto simp: dm_inv_def dm_get_modify)

lemma monitor_inv: "dm_inv m \<Longrightarrow> dm_inv (monitor_daemon env m0 failed name m)"
proof -
  assume inv: "dm_inv m"
  have restarted: "dm_inv (case dm_start env name m1 of (m2, None) \<Rightarrow> m2
      | (m2, Some e) \<Rightarrow> dm_modify name (set_state DaemonFailed) m2)" if "dm_inv m1" for m1
    using start_inv [OF that, of env name]
    by (auto simp: modify_inv failed_ok split: prod.split option.split)
  have "dm_inv (dm_modify name monitor_rearm (dm_emit es (dm_at t m)))" for es t
    using inv by (intro modify_inv rearm_ok) simp_all
  note restart = restarted [OF this]
  have "dm_inv (dm_modify name (monitor_clear t \<circ> set_state DaemonStopped) (dm_emit es m))" for t es
    using inv by (intro modify_inv) (simp_all add: clear_ok)
  with restart inv show ?thesis
    by (auto simp: monitor_daemon_def Let_def split: option.split)
qed

lemma remove_inv: "dm_inv m \<Longrightarrow> dm_inv (remove_daemons env names m)"
proof (induction names arbitrary: m)
  case (Cons n names)
  have "dm_inv (m1\<lparr>dm_daemons := AList.delete n (dm_daemons m1)\<rparr>)" if "dm_inv m1" for m1
    using that by (simp add: dm_inv_def get_delete dm_map_ok_def)
  with Cons stop_inv show ?case by (simp add: Let_def)
qed simp

lemma add_inv: "dm_inv m \<Longrightarrow> dm_inv (add_daemons env dcs m)"
  by (induction dcs arbitrary: m) (simp_all add: Let_def put_inv start_inv)

lemma configs_inv: "dm_inv (m\<lparr>dm_configs := cs\<rparr>) = dm_inv m"
  by (simp add: dm_inv_def dm_get_def dm_map_ok_def)

lemma stop_each_inv: "dm_inv m \<Longrightarrow> dm_inv (fst (stop_each env es m))"
  by (induction es arbitrary: m) (auto simp: case_prod_beta Let_def stop_inv)

text \<open>C4: every record the manager holds stays well formed: it is stored under its own name, its group is
  its pid, the pid is that of its command or 0, a stopped or disabled daemon has neither command nor
  log writers, no operation leaves a daemon "starting", and the log buffer is a valid ring.\<close>

theorem daemon_manager_invariant:
  "dm_inv (new_daemon_manager cs now)
   \<and> (dm_inv m \<longrightarrow>
       dm_inv (fst (dm_start env name m)) \<and> dm_inv (fst (dm_stop env name m))
     \<and> dm_inv (monitor_daemon env m0 failed name m)
     \<and> dm_inv (fst (dm_start_all env eg srt m)) \<and> dm_inv (fst (dm_stop_all env srt m))
     \<and> dm_inv (fst (reload_config env ra rr exists loaded m)))"
proof (intro conjI impI)
  assume inv: "dm_inv m"
  show "dm_inv (fst (dm_start_all env eg srt m))"
    using inv start_groups_kept unfolding dm_start_all_def start_kept_def by blast
  show "dm_inv (fst (reload_config env ra rr exists loaded m))"
    using inv by (auto simp: reload_config_def Let_def configs_inv add_inv remove_inv split: option.split)
qed (simp_all add: new_manager_inv start_inv stop_inv monitor_inv dm_stop_all_def stop_each_inv)

theorem daemon_manager_invariant_witness:
  "dm_inv (fst (dm_stop demo_env ''bus'' (fst (dm_start demo_env ''bus'' demo))))"
  using daemon_manager_invariant [of "[]" 0 "fst (dm_start demo_env ''bus'' demo)" demo_env "''bus''"]
    daemon_manager_invariant [of "[]" 0 demo demo_env "''bus''"] demo_inv
  by blast

end
