(* ===== verification/Program_Lifecycle.thy ===== *)
theory Program_Lifecycle
  imports Program_Manager
begin

text \<open>
  What the program manager's operations do: the outcomes of \<open>StartProgram\<close> and \<open>StopProgram\<close>, the end
  of a process, health checks, the phases, and the invariant of the records.
\<close>

section \<open>The store of programs\<close>

definition pm_map_ok :: "pm \<Rightarrow> bool" where
  "pm_map_ok m \<longleftrightarrow> go_map_ok (pm_programs m)"

interpretation programs: keyed_store pm_get pm_put pm_modify pm_map_ok
  by unfold_locales (simp_all add: pm_get_def [abs_def] pm_put_def pm_modify_def pm_map_ok_def)

lemma pm_get_simps [simp]: "pm_get (pm_emit es m) = pm_get m" "pm_get (pm_at t m) = pm_get m"
  by (simp_all add: pm_get_def [abs_def] pm_emit_def pm_at_def)

lemma pm_get_modify: "pm_get (pm_modify name f m) = (pm_get m)(name := map_option f (pm_get m name))"
  by (rule programs.lookup_modify)

lemma pm_trace_simps [simp]:
  "pm_trace (pm_emit es m) = pm_trace m @ es" "pm_trace (pm_at t m) = pm_trace m"
  "pm_trace (pm_modify name f m) = pm_trace m"
  by (simp_all add: pm_emit_def pm_at_def pm_modify_def)

lemma pm_clock_simps [simp]:
  "pm_clock (pm_emit es m) = pm_clock m" "pm_clock (pm_at t m) = t"
  "pm_clock (pm_modify name f m) = pm_clock m"
  by (simp_all add: pm_emit_def pm_at_def pm_modify_def)

lemma pm_configs_simps [simp]:
  "pm_configs (pm_emit es m) = pm_configs m" "pm_configs (pm_at t m) = pm_configs m"
  "pm_configs (pm_modify name f m) = pm_configs m"
  by (simp_all add: pm_emit_def pm_at_def pm_modify_def)

lemma pm_map_ok_simps [simp]:
  "pm_map_ok (pm_emit es m) = pm_map_ok m" "pm_map_ok (pm_at t m) = pm_map_ok m"
  by (simp_all add: pm_map_ok_def pm_emit_def pm_at_def)

section \<open>What an operation on one program leaves alone\<close>

definition ptouch :: "string \<Rightarrow> pm \<Rightarrow> pm \<Rightarrow> bool" where
  "ptouch name m m' \<longleftrightarrow>
     (\<forall>k. k \<noteq> name \<longrightarrow> pm_get m' k = pm_get m k)
     \<and> (pm_get m' name = None \<longleftrightarrow> pm_get m name = None)
     \<and> pm_configs m' = pm_configs m \<and> (pm_map_ok m \<longrightarrow> pm_map_ok m')
     \<and> (\<exists>es. pm_trace m' = pm_trace m @ es)"

lemma ptouch_refl [simp]: "ptouch name m m"
  by (simp add: ptouch_def)

lemma ptouch_trans: "ptouch name m m' \<Longrightarrow> ptouch name m' m'' \<Longrightarrow> ptouch name m m''"
  by (auto simp: ptouch_def)

lemma ptouch_modify [simp]: "ptouch name m m' \<Longrightarrow> ptouch name m (pm_modify name f m')"
  using programs.inv_modify [of m' name f] by (auto simp: ptouch_def pm_get_modify)

lemma ptouch_emit [simp]: "ptouch name m m' \<Longrightarrow> ptouch name m (pm_emit es m')"
  by (auto simp: ptouch_def)

lemma ptouch_at [simp]: "ptouch name m m' \<Longrightarrow> ptouch name m (pm_at t m')"
  by (auto simp: ptouch_def)

lemma wait_deps_touch: "ptouch name m (fst (wait_deps env name deps m))"
proof (induction deps arbitrary: m)
  case (Cons d deps)
  have "ptouch name m (fst (wait_deps env name deps (pm_at t m)))" for t
    using Cons ptouch_trans [of name m "pm_at t m"] by simp
  then show ?case by (auto split: option.split prod.split health_wait.split)
qed simp

lemma launch_touch: "ptouch name m (fst (launch_program env name cfg m))"
  by (simp add: launch_program_def Let_def split: option.split)

lemma start_program_touch: "ptouch name m (fst (start_program env name m))"
proof -
  have launch: "ptouch name m (fst (launch_program env name cfg m'))" if "ptouch name m m'" for cfg m'
    using launch_touch ptouch_trans that by blast
  have deps: "ptouch name m (fst (wait_deps env name ds m'))" if "ptouch name m m'" for ds m'
    using wait_deps_touch ptouch_trans that by blast
  show ?thesis
  proof (cases "pm_get m name")
    case None
    then show ?thesis by (simp add: start_program_def)
  next
    case (Some p)
    obtain m2 r where w: "wait_deps env name (pc_depends_on (p_config p))
        (pm_modify name (set_pstate ProgWaitingDeps) m) = (m2, r)" by fastforce
    then have "ptouch name m m2"
      using deps [of "pm_modify name (set_pstate ProgWaitingDeps) m" "pc_depends_on (p_config p)"] by simp
    then show ?thesis using Some w
      by (cases r) (simp_all add: start_program_def Let_def launch)
  qed
qed

lemma stop_program_touch: "ptouch name m (fst (stop_program env name m))"
  by (simp add: stop_program_def Let_def split: option.split stop_result.split prod.split)

lemma monitor_program_touch: "ptouch name m (monitor_program m0 code name m)"
  by (simp add: monitor_program_def split: option.split)

interpretation prog_starts: named_op pm_get "\<lambda>n m. fst (start_program env n m)" for env
  using start_program_touch by unfold_locales (auto simp: ptouch_def)

interpretation prog_stops: named_op pm_get "\<lambda>n m. fst (stop_program env n m)" for env
  using stop_program_touch by unfold_locales (auto simp: ptouch_def)

section \<open>Starting and stopping a program\<close>

lemma prog_spawned_append [simp]: "prog_spawned (xs @ ys) = prog_spawned xs @ prog_spawned ys"
  by (induction xs rule: prog_spawned.induct) auto

lemma pm_at_at [simp]: "pm_at t (pm_at t' m) = pm_at t m" "pm_at (pm_clock m) m = m"
  by (simp_all add: pm_at_def)

lemmas program_sections =
  set_pstate_def record_program_def mark_healthy_def stopped_program_def program_exited_def

text \<open>Waiting for the dependencies changes nothing but the clock, unless one is not healthy.\<close>

lemma wait_deps_result:
  "wait_deps env name deps m = (m', r) \<Longrightarrow>
     r = None \<and> (\<exists>t. m' = pm_at t m)
        \<and> (\<forall>d \<in> set deps. pm_get m d \<noteq> None \<and> (\<exists>t. pe_view env d t = ProgHealthy))
   \<or> (\<exists>d. r = Some (DependencyNotFound d name)) \<and> (\<exists>t. m' = pm_at t m)
   \<or> (\<exists>d w. r = Some (DependencyNotHealthy d w))
        \<and> (\<exists>t. m' = pm_modify name (set_pstate ProgFailed) (pm_at t m))"
proof (induction deps arbitrary: m)
  case Nil
  then show ?case by (auto intro: exI [of _ "pm_clock m"])
next
  case (Cons d deps)
  show ?case
  proof (cases "pm_get m d")
    case None
    with Cons.prems show ?thesis by (auto intro: exI [of _ "pm_clock m"])
  next
    case (Some p)
    obtain w t where w: "wait_for_healthy env d (sec 120) (pm_clock m) = (w, t)" by fastforce
    show ?thesis
    proof (cases "w = DepHealthy")
      case True
      then have "\<exists>t. pe_view env d t = ProgHealthy"
        using poll_result [OF _ w [unfolded wait_for_healthy_def]]
        by (auto simp: health_poll_def split: if_splits)
      moreover have "wait_deps env name deps (pm_at t m) = (m', r)"
        using Cons.prems Some w True by simp
      ultimately show ?thesis using Cons.IH [of "pm_at t m"] Some by (auto split: if_splits)
    next
      case False
      with Cons.prems Some w show ?thesis by (cases w) auto
    qed
  qed
qed

lemma set_pstate_absorb [simp]:
  "set_pstate s (set_pstate s' p) = set_pstate s p" "record_program pid t (set_pstate s p) = record_program pid t p"
  by (simp_all add: program_sections)

lemma launch_result:
  assumes "pm_get m name = Some (set_pstate s p)" and "launch_program env name cfg m = (m', r)"
  shows "r \<noteq> None \<and> pm_get m' name = Some (set_pstate ProgFailed p) \<and> pm_trace m' = pm_trace m
    \<or> r = None \<and> (\<exists>pid t es. pm_get m' name
          = Some (if pc_health_check cfg = [] then mark_healthy (record_program pid t p) else record_program pid t p)
        \<and> pm_trace m' = pm_trace m @ ProgSpawned name pid # es \<and> prog_spawned es = [])"
proof (cases "pe_spawn env name (pm_clock m)")
  case None
  with assms show ?thesis by (auto simp: launch_program_def pm_get_modify)
next
  case (Some pid)
  let ?es = "(if pc_health_check cfg = [] then [] else [HealthCheckLaunched name]) @ [ProgMonitorLaunched name]"
  from Some assms have "r = None" "pm_trace m' = pm_trace m @ ProgSpawned name pid # ?es"
    "pm_get m' name = Some (if pc_health_check cfg = [] then mark_healthy (record_program pid (pm_clock m) p)
      else record_program pid (pm_clock m) p)"
    by (auto simp: launch_program_def Let_def pm_get_modify split: if_splits)
  moreover have "prog_spawned ?es = []" by simp
  ultimately show ?thesis by blast
qed

text \<open>How \<open>StartProgram\<close> ends for a known program: skipped, at a dependency, in its delay, or with a launch.\<close>

lemma start_program_cases:
  assumes p: "pm_get m name = Some p" and st: "start_program env name m = (m', r)"
  obtains (skipped) "\<not> prog_gate p" "m' = m" "r = None"
    | (missing) d where "prog_gate p" "pc_depends_on (p_config p) \<noteq> []" "r = Some (DependencyNotFound d name)"
      "pm_get m' name = Some (set_pstate ProgWaitingDeps p)" "pm_trace m' = pm_trace m"
    | (unhealthy) d w where "prog_gate p" "pc_depends_on (p_config p) \<noteq> []" "r = Some (DependencyNotHealthy d w)"
      "pm_get m' name = Some (set_pstate ProgFailed p)" "pm_trace m' = pm_trace m"
    | (cancelled) "prog_gate p" "pc_start_delay (p_config p) > 0" "r = Some DelayCancelled"
      "pm_get m' name = Some (set_pstate ProgWaitingDelay p)" "pm_trace m' = pm_trace m"
    | (launched) m1 s where "prog_gate p" "\<forall>d \<in> set (pc_depends_on (p_config p)). \<exists>t. pe_view env d t = ProgHealthy"
      "s = (if pc_start_delay (p_config p) > 0 then ProgWaitingDelay else ProgWaitingDeps)"
      "pm_get m1 name = Some (set_pstate s p)" "pm_trace m1 = pm_trace m"
      "launch_program env name (p_config p) m1 = (m', r)"
proof (cases "prog_gate p")
  case False
  with assms skipped show ?thesis by (simp add: start_program_def)
next
  case True
  let ?cfg = "p_config p" and ?m1 = "pm_modify name (set_pstate ProgWaitingDeps) m"
  obtain m2 r2 where w: "wait_deps env name (pc_depends_on ?cfg) ?m1 = (m2, r2)" by fastforce
  note deps = wait_deps_result [OF w]
  have get1: "pm_get ?m1 name = Some (set_pstate ProgWaitingDeps p)" using p by (simp add: pm_get_modify)
  show ?thesis
  proof (cases r2)
    case (Some e)
    then have "m' = m2" "r = Some e" "pc_depends_on ?cfg \<noteq> []"
      using assms True w by (auto simp: start_program_def Let_def)
    with deps Some get1 True missing unhealthy show ?thesis by (auto simp: pm_get_modify)
  next
    case None
    then obtain t where m2: "m2 = pm_at t ?m1"
      and healthy: "\<forall>d \<in> set (pc_depends_on ?cfg). \<exists>t. pe_view env d t = ProgHealthy"
      using deps by auto
    show ?thesis
    proof (cases "pc_start_delay ?cfg > 0")
      case delay: True
      let ?m3 = "pm_modify name (set_pstate ProgWaitingDelay) m2"
      have m3: "pm_get (pm_at t' ?m3) name = Some (set_pstate ProgWaitingDelay p)"
        "pm_trace (pm_at t' ?m3) = pm_trace m" for t'
        using p m2 by (simp_all add: pm_get_modify)
      have "(m', r) = (if pe_cancelled env (pm_clock ?m3) then (?m3, Some DelayCancelled)
          else launch_program env name ?cfg (pm_at (pm_clock ?m3 + ms (pc_start_delay ?cfg)) ?m3))"
        using assms True w None delay by (simp add: start_program_def Let_def)
      then show ?thesis
        using cancelled [OF True delay] launched [OF True healthy _ m3] m3 [of "pm_clock ?m3"] delay
        by (auto split: if_splits)
    next
      case False
      then have "launch_program env name ?cfg m2 = (m', r)"
        using assms True w None by (simp add: start_program_def Let_def)
      with launched [OF True healthy _ _ _ this] False get1 m2 show ?thesis by simp
    qed
  qed
qed

text \<open>C26: \<open>StartProgram\<close> does nothing for a program that is starting, running, healthy or disabled.
  Otherwise it either fails before anything is spawned, leaving the program waiting for a
  dependency that does not exist, waiting for its delay, or failed; or every dependency was found
  healthy, one process was spawned, and the program is running or, without a health check, healthy.\<close>

theorem start_program_outcome:
  assumes "pm_get m name = Some p" and "start_program env name m = (m', r)"
  shows "(\<forall>k. k \<noteq> name \<longrightarrow> pm_get m' k = pm_get m k)
    \<and> (\<not> prog_gate p \<and> r = None \<and> m' = m
      \<or> prog_gate p \<and> r \<noteq> None \<and> pm_trace m' = pm_trace m
          \<and> (\<exists>s \<in> {ProgWaitingDeps, ProgWaitingDelay, ProgFailed}. pm_get m' name = Some (set_pstate s p)
              \<and> (s = ProgWaitingDeps \<longrightarrow> (\<exists>d. r = Some (DependencyNotFound d name))))
      \<or> prog_gate p \<and> r = None
          \<and> (\<forall>d \<in> set (pc_depends_on (p_config p)). \<exists>t. pe_view env d t = ProgHealthy)
          \<and> (\<exists>pid t es. pm_get m' name
                = Some (if pc_health_check (p_config p) = [] then mark_healthy (record_program pid t p)
                        else record_program pid t p)
              \<and> pm_trace m' = pm_trace m @ ProgSpawned name pid # es \<and> prog_spawned es = []))"
proof -
  have frame: "\<forall>k. k \<noteq> name \<longrightarrow> pm_get m' k = pm_get m k"
    using start_program_touch [of name m env] assms(2) by (simp add: ptouch_def)
  show ?thesis
    using assms
  proof (cases rule: start_program_cases)
    case (launched m1 s)
    from launch_result [OF launched(4,6)] show ?thesis
      using frame launched by (elim disjE conjE exE) auto
  qed (use frame in \<open>simp_all add: set_pstate_def\<close>)
qed

text \<open>An installation to evaluate the model on: the programs of \<open>demo_programs\<close>, all seen healthy, a
  process with pid 7 for whatever is started, groups that end on SIGTERM.\<close>

definition demo_penv :: pm_env where
  "demo_penv =
     \<lparr>pe_view = (\<lambda>_ _. ProgHealthy), pe_spawn = (\<lambda>_ _. Some 7), pe_alive = (\<lambda>_ _. False),
      pe_kill_ok = (\<lambda>_. True), pe_cancelled = (\<lambda>_. False), pe_lag = (\<lambda>_. 0)\<rparr>"

definition demo_pm :: pm where
  "demo_pm = new_program_manager demo_programs 1"

definition bus_program :: program where
  "bus_program = new_program (prog ''bus'' phase_early 9 [])"

lemma demo_pm_get: "pm_get demo_pm ''bus'' = Some bus_program"
  by (simp add: demo_pm_def new_program_manager_def demo_programs_def pm_get_def prog_def bus_program_def)

lemma bus_program_simps:
  "prog_gate bus_program" "pc_depends_on (p_config bus_program) = []" "pc_start_delay (p_config bus_program) = 0"
  "pc_health_check (p_config bus_program) = []" "\<not> prog_is_running bus_program"
  by (simp_all add: bus_program_def new_program_def prog_def prog_gate_def prog_is_running_def)

lemma demo_pm_start:
  "\<exists>m'. start_program demo_penv ''bus'' demo_pm = (m', None)
     \<and> pm_get m' ''bus'' = Some (mark_healthy (record_program 7 1 bus_program))
     \<and> pm_trace m' = [ProgSpawned ''bus'' 7, ProgMonitorLaunched ''bus''] \<and> pm_clock m' = 1"
proof -
  have "pm_clock demo_pm = 1" "pm_trace demo_pm = []"
    by (simp_all add: demo_pm_def new_program_manager_def)
  moreover have "pe_spawn demo_penv n t = Some 7" for n t by (simp add: demo_penv_def)
  ultimately show ?thesis
    by (simp add: start_program_def demo_pm_get bus_program_simps launch_program_def pm_get_modify)
qed

theorem start_program_outcome_witness:
  "\<exists>m'. start_program demo_penv ''bus'' demo_pm = (m', None)
     \<and> pm_get m' ''theme'' = pm_get demo_pm ''theme''"
proof -
  obtain m' where m': "start_program demo_penv ''bus'' demo_pm = (m', None)" using demo_pm_start by blast
  from start_program_outcome [OF demo_pm_get m'] m' show ?thesis by simp
qed

lemma stop_program_active:
  assumes "pm_get m name = Some p" and "prog_is_running p"
    and "stop_wait (pe_alive env (p_pid p)) (pe_cancelled env) (pe_lag env) (pm_clock m) = (w, t)"
  shows "stop_program env name m =
    (let m1 = pm_emit [ProgSignalled (p_pid p) SIGTERM] m;
         m2 = pm_emit [ProgSignalled (p_pid p) SIGKILL] (pm_at t m1)
     in case w of
          Exited \<Rightarrow> (pm_modify name (stopped_program t) (pm_at t m1), None)
        | Cancelled \<Rightarrow> (pm_at t m1, Some DelayCancelled)
        | StillAlive \<Rightarrow>
            if pe_kill_ok env (p_pid p)
            then (pm_modify name (stopped_program (t + ms 100)) (pm_at (t + ms 100) m2), None)
            else (m2, Some (ProgKillFailed name (p_pid p))))"
  using assms by (auto simp: stop_program_def Let_def split: stop_result.split)

text \<open>\<open>StopProgram\<close> leaves a program alone that has no process. Otherwise it signals the process's
  group; without an error the program is stopped, without pid and command; it returns at most 10.2
  seconds and two scheduling lags after the call.\<close>

theorem stop_program_outcome:
  assumes "pm_get m name = Some p" and "stop_program env name m = (m', r)" and "\<forall>t. int (pe_lag env t) \<le> L"
  shows "(\<not> prog_is_running p \<longrightarrow> m' = m \<and> r = None)
    \<and> (prog_is_running p \<longrightarrow>
        (\<exists>es. pm_trace m' = pm_trace m @ ProgSignalled (p_pid p) SIGTERM # es
            \<and> (r = None \<longrightarrow> (\<exists>t. pm_get m' name = Some (stopped_program t p)
                  \<and> (es = [] \<and> \<not> pe_alive env (p_pid p) t \<or> es = [ProgSignalled (p_pid p) SIGKILL]))))
        \<and> (r \<noteq> None \<longrightarrow> pm_get m' name = Some p)
        \<and> pm_clock m' \<le> pm_clock m + sec 10 + ms 200 + L)"
proof -
  obtain w t where w: "stop_wait (pe_alive env (p_pid p)) (pe_cancelled env) (pe_lag env) (pm_clock m) = (w, t)"
    by fastforce
  have t: "t \<le> pm_clock m + sec 10 + ms 100 + L" using stop_wait_by [OF assms(3) w] by simp
  have ms: "ms 200 = ms 100 + ms 100" "0 \<le> ms 100" by (simp_all add: ms_def)
  have dead: "w = Exited \<Longrightarrow> \<not> pe_alive env (p_pid p) t" using w stop_wait_Exited by blast
  have "pm_clock m' \<le> pm_clock m + sec 10 + ms 200 + L" if "prog_is_running p"
    using stop_program_active [OF assms(1) that w] assms(2) t ms
    by (auto simp: Let_def split: stop_result.splits if_splits)
  moreover have "m' = m \<and> r = None" if "\<not> prog_is_running p"
    using assms(1,2) that by (simp add: stop_program_def)
  ultimately show ?thesis
    using stop_program_active [OF assms(1) _ w] assms(1,2) dead
    by (auto simp: Let_def pm_get_modify split: stop_result.splits if_splits)
qed

theorem stop_program_outcome_witness:
  "\<exists>m m' r. stop_program demo_penv ''bus'' m = (m', r)
     \<and> (\<exists>es. pm_trace m' = [ProgSpawned ''bus'' 7, ProgMonitorLaunched ''bus'', ProgSignalled 7 SIGTERM] @ es)"
proof -
  obtain m where m: "pm_get m ''bus'' = Some (mark_healthy (record_program 7 1 bus_program))"
    "pm_trace m = [ProgSpawned ''bus'' 7, ProgMonitorLaunched ''bus'']" using demo_pm_start by blast
  obtain m' r where st: "stop_program demo_penv ''bus'' m = (m', r)" by fastforce
  have "\<forall>t. int (pe_lag demo_penv t) \<le> 0" by (simp add: demo_penv_def)
  from stop_program_outcome [OF m(1) st this] m(2) st show ?thesis
    by (auto simp: mark_healthy_def record_program_def prog_is_running_def)
qed

section \<open>When a process ends\<close>

text \<open>When its process ends a program is done (code 0), failed (another code), or, if it has
  \<open>restart\<close> set and the code is 0, keeps the state it was in. In no case is it started again; in the
  last one it stays healthy without a process, and a later \<open>StopProgram\<close> sends SIGTERM to group 0,
  that of the manager itself.\<close>

theorem program_exit_outcome:
  fixes code :: int
  assumes "pm_get m0 name = Some p0" and "p_cmd p0 \<noteq> None" and "pm_get m name = Some p"
    and "p_config p = p_config p0"
  defines "m' \<equiv> monitor_program m0 code name m"
  shows "pm_trace m' = pm_trace m
    \<and> (\<exists>p'. pm_get m' name = Some p' \<and> p_exit_code p' = code \<and> p_pid p' = 0 \<and> p_cmd p' = None
        \<and> p_state p' = (if code \<noteq> 0 then ProgFailed
                        else if pc_restart (p_config p) then p_state p else ProgDone))
    \<and> (code = 0 \<and> pc_restart (p_config p) \<and> prog_is_running p \<longrightarrow>
        (\<exists>es. pm_trace (fst (stop_program env name m')) = pm_trace m @ ProgSignalled 0 SIGTERM # es))"
proof -
  let ?p = "program_exited code (pc_restart (p_config p)) (pm_clock m) p"
  have m': "m' = pm_modify name (program_exited code (pc_restart (p_config p)) (pm_clock m)) m"
    using assms(1,2,4) by (auto simp: m'_def monitor_program_def)
  have g: "pm_get m' name = Some ?p" using assms(3) by (simp add: m' pm_get_modify)
  obtain w t where w: "stop_wait (pe_alive env (p_pid ?p)) (pe_cancelled env) (pe_lag env) (pm_clock m') = (w, t)"
    by fastforce
  have "\<exists>es. pm_trace (fst (stop_program env name m')) = pm_trace m' @ ProgSignalled 0 SIGTERM # es"
    if "prog_is_running ?p"
    using stop_program_active [OF g that w]
    by (auto simp: Let_def program_exited_def split: stop_result.splits)
  moreover have "prog_is_running ?p" if "code = 0" "pc_restart (p_config p)" "prog_is_running p"
    using that by (simp add: program_exited_def prog_is_running_def)
  moreover have "pm_trace m' = pm_trace m" by (simp add: m')
  ultimately show ?thesis using g by (auto simp: program_exited_def)
qed

theorem program_exit_outcome_witness:
  "\<exists>m. let m' = monitor_program m 1 ''bus'' m
     in map_option p_state (pm_get m' ''bus'') = Some ProgFailed \<and> prog_spawned (pm_trace m') = [7]"
proof -
  obtain m where m: "pm_get m ''bus'' = Some (mark_healthy (record_program 7 1 bus_program))"
    "pm_trace m = [ProgSpawned ''bus'' 7, ProgMonitorLaunched ''bus'']" using demo_pm_start by blast
  have "p_cmd (mark_healthy (record_program 7 1 bus_program)) \<noteq> None"
    by (simp add: mark_healthy_def record_program_def)
  from program_exit_outcome [OF m(1) this m(1) refl, of 1 demo_penv] m(2) show ?thesis
    by (intro exI [of _ m]) (auto simp: Let_def)
qed

section \<open>Health checks\<close>

lemma health_attempts_result:
  "health_attempts halted passes k n = r \<Longrightarrow>
     (\<exists>j. k \<le> j \<and> j < k + n \<and> (\<forall>i. k \<le> i \<and> i < j \<longrightarrow> \<not> halted i \<and> \<not> passes i)
        \<and> (r = HealthPassed j \<and> \<not> halted j \<and> passes j \<or> r = HealthCancelled j \<and> halted j))
   \<or> r = HealthGaveUp (k + n) \<and> (\<forall>i. k \<le> i \<and> i < k + n \<longrightarrow> \<not> halted i \<and> \<not> passes i)"
proof (induction n arbitrary: k)
  case (Suc n)
  show ?case
  proof (cases "halted k \<or> passes k")
    case True
    then show ?thesis using Suc.prems by (intro disjI1 exI [of _ k]) (auto split: if_splits)
  next
    case False
    then have step: "health_attempts halted passes (Suc k) n = r" using Suc.prems by simp
    have ext: "\<forall>i. k \<le> i \<and> i < l \<longrightarrow> \<not> halted i \<and> \<not> passes i"
      if "\<forall>i. Suc k \<le> i \<and> i < l \<longrightarrow> \<not> halted i \<and> \<not> passes i" for l
      using that False by (metis Suc_leI le_neq_implies_less)
    from Suc.IH [OF step] show ?thesis
    proof (elim disjE exE conjE)
      fix j assume "Suc k \<le> j" "j < Suc k + n" "r = HealthPassed j" "\<not> halted j" "passes j"
        and "\<forall>i. Suc k \<le> i \<and> i < j \<longrightarrow> \<not> halted i \<and> \<not> passes i"
      with ext [of j] show ?thesis by (intro disjI1 exI [of _ j]) simp
    next
      fix j assume "Suc k \<le> j" "j < Suc k + n" "r = HealthCancelled j" "halted j"
        and "\<forall>i. Suc k \<le> i \<and> i < j \<longrightarrow> \<not> halted i \<and> \<not> passes i"
      with ext [of j] show ?thesis by (intro disjI1 exI [of _ j]) simp
    next
      assume "r = HealthGaveUp (Suc k + n)"
        and "\<forall>i. Suc k \<le> i \<and> i < Suc k + n \<longrightarrow> \<not> halted i \<and> \<not> passes i"
      with ext [of "Suc k + n"] show ?thesis by (intro disjI2) simp
    qed
  qed
qed auto

text \<open>A configured health check runs at most \<open>health_retry\<close> times (three if that is not positive),
  and only after failures; the first success makes the program healthy, as many failures make it
  health-failed, and only a context that is done leaves the state alone.\<close>

theorem health_check_outcome:
  assumes "pm_get m name = Some p" and "pc_health_check (p_config p) \<noteq> []"
    and "pm_get (meanwhile (pm_modify name (\<lambda>p. p\<lparr>p_health := HealthChecking\<rparr>) m)) name = Some q"
    and "run_health_check halted passes meanwhile name m = (m', r)"
  defines "n \<equiv> (if pc_health_retry (p_config p) \<le> 0 then 3 else nat (pc_health_retry (p_config p)))"
    and "ok \<equiv> passes (if pc_health_timeout (p_config p) \<le> 0 then 30 else pc_health_timeout (p_config p))"
  shows "(\<exists>j < n. r = HealthPassed j \<and> ok j \<and> (\<forall>i < j. \<not> ok i)
          \<and> pm_get m' name = Some (q\<lparr>p_state := ProgHealthy, p_health := HealthOK\<rparr>))
    \<or> (\<exists>j < n. r = HealthCancelled j \<and> halted j \<and> (\<forall>i < j. \<not> ok i) \<and> pm_get m' name = Some q)
    \<or> r = HealthGaveUp n \<and> (\<forall>i < n. \<not> ok i)
          \<and> pm_get m' name = Some (q\<lparr>p_health := HealthFailed, p_state := ProgHealthFailed\<rparr>)"
proof -
  let ?m1 = "meanwhile (pm_modify name (\<lambda>p. p\<lparr>p_health := HealthChecking\<rparr>) m)"
  have n: "health_retries (p_config p) = n" and ok: "passes (health_timeout (p_config p)) = ok"
    by (simp_all add: n_def ok_def health_retries_def health_timeout_def default_health_retry_def
        default_health_timeout_def)
  let ?h = "health_attempts halted ok 0 n"
  have run: "(m', r) = (case ?h of
        HealthPassed k \<Rightarrow> (pm_modify name mark_healthy ?m1, HealthPassed k)
      | HealthCancelled k \<Rightarrow> (?m1, HealthCancelled k)
      | HealthGaveUp k \<Rightarrow>
          (pm_modify name (\<lambda>p. p\<lparr>p_health := HealthFailed, p_state := ProgHealthFailed\<rparr>) ?m1, HealthGaveUp k))"
    using assms(1,2,4) n ok by (simp add: run_health_check_def Let_def)
  from health_attempts_result [OF refl, where halted = halted and passes = ok and k = 0 and n = n]
  show ?thesis
  proof (elim disjE exE conjE)
    fix j assume "0 \<le> j" "j < 0 + n" "\<forall>i. 0 \<le> i \<and> i < j \<longrightarrow> \<not> halted i \<and> \<not> ok i"
      "?h = HealthPassed j" "\<not> halted j" "ok j"
    then show ?thesis using run assms(3)
      by (intro disjI1 exI [of _ j]) (simp add: pm_get_modify mark_healthy_def)
  next
    fix j assume "0 \<le> j" "j < 0 + n" "\<forall>i. 0 \<le> i \<and> i < j \<longrightarrow> \<not> halted i \<and> \<not> ok i"
      "?h = HealthCancelled j" "halted j"
    then show ?thesis using run assms(3) by (intro disjI2 disjI1 exI [of _ j]) simp
  next
    assume "?h = HealthGaveUp (0 + n)" "\<forall>i. 0 \<le> i \<and> i < 0 + n \<longrightarrow> \<not> halted i \<and> \<not> ok i"
    then show ?thesis using run assms(3) by (intro disjI2) (simp add: pm_get_modify)
  qed
qed

text \<open>A program with a health check, to evaluate on.\<close>

definition checked_pm :: pm where
  "checked_pm = new_program_manager [(prog ''web'' phase_post 0 [])\<lparr>pc_health_check := ''true''\<rparr>] 1"

definition web_program :: program where
  "web_program = new_program ((prog ''web'' phase_post 0 [])\<lparr>pc_health_check := ''true''\<rparr>)"

lemma checked_get: "pm_get checked_pm ''web'' = Some web_program"
  by (simp add: checked_pm_def new_program_manager_def pm_get_def prog_def web_program_def)

lemma web_config: "pc_health_check (p_config web_program) = ''true''" "pc_health_retry (p_config web_program) = 3"
  "pc_health_timeout (p_config web_program) = 30"
  by (simp_all add: web_program_def new_program_def prog_def)

theorem health_check_outcome_witness:
  "\<exists>m' r. run_health_check (\<lambda>_. False) (\<lambda>s i. i = 2) id ''web'' checked_pm = (m', r)
     \<and> r \<noteq> HealthGaveUp 3 \<and> r \<noteq> HealthPassed 1"
proof -
  obtain m' r where run: "run_health_check (\<lambda>_. False) (\<lambda>s i. i = 2) id ''web'' checked_pm = (m', r)"
    by fastforce
  have "pm_get (id (pm_modify ''web'' (\<lambda>p. p\<lparr>p_health := HealthChecking\<rparr>) checked_pm)) ''web''
      = Some (web_program\<lparr>p_health := HealthChecking\<rparr>)"
    by (simp add: pm_get_modify checked_get)
  note res = health_check_outcome [OF checked_get _ this run]
  have "\<not> (\<forall>i < 3. i \<noteq> (2 :: nat))" by auto
  with res run show ?thesis by (auto simp: web_config)
qed

text \<open>The result of a health check is written whatever has happened to the program meanwhile: a
  process that ended with an error during the check is marked healthy again by the check's success,
  and a later \<open>StopProgram\<close> then signals group 0.\<close>

theorem late_health_check_revives:
  fixes code :: int
  assumes "pm_get m name = Some p" and "pc_health_check (p_config p) \<noteq> []" and "p_cmd p \<noteq> None"
    and "code \<noteq> 0" and "\<not> halted 0" and "\<And>s. passes s 0"
  defines "m' \<equiv> fst (run_health_check halted passes (monitor_program m code name) name m)"
  shows "\<exists>p'. pm_get m' name = Some p' \<and> p_state p' = ProgHealthy \<and> p_exit_code p' = code \<and> p_cmd p' = None
    \<and> (\<exists>es. pm_trace (fst (stop_program env name m')) = pm_trace m @ ProgSignalled 0 SIGTERM # es)"
proof -
  let ?m0 = "pm_modify name (\<lambda>p. p\<lparr>p_health := HealthChecking\<rparr>) m"
  let ?m1 = "monitor_program m code name ?m0"
  let ?p1 = "program_exited code (pc_restart (p_config p)) (pm_clock m) (p\<lparr>p_health := HealthChecking\<rparr>)"
  have m1: "pm_get ?m1 name = Some ?p1" "pm_trace ?m1 = pm_trace m"
    using assms(1,3) by (auto simp: monitor_program_def pm_get_modify)
  have "\<exists>n. health_retries (p_config p) = Suc n"
    by (cases "health_retries (p_config p)") (auto simp: health_retries_def default_health_retry_def split: if_splits)
  then have "health_attempts halted (passes (health_timeout (p_config p))) 0 (health_retries (p_config p)) = HealthPassed 0"
    using assms(5,6) by auto
  then have m': "m' = pm_modify name mark_healthy ?m1"
    using assms(1,2) by (simp add: m'_def run_health_check_def Let_def)
  have g: "pm_get m' name = Some (mark_healthy ?p1)" using m1 by (simp add: m' pm_get_modify)
  have pid: "p_pid (mark_healthy ?p1) = 0" "prog_is_running (mark_healthy ?p1)"
    by (simp_all add: mark_healthy_def program_exited_def prog_is_running_def)
  obtain w t where w: "stop_wait (pe_alive env 0) (pe_cancelled env) (pe_lag env) (pm_clock m') = (w, t)"
    by fastforce
  have "\<exists>es. pm_trace (fst (stop_program env name m')) = pm_trace m' @ ProgSignalled 0 SIGTERM # es"
    using stop_program_active [OF g pid(2), unfolded pid, OF w]
    by (auto simp: Let_def split: stop_result.splits)
  moreover have "pm_trace m' = pm_trace m" by (simp add: m' m1)
  ultimately show ?thesis using g by (auto simp: mark_healthy_def program_exited_def)
qed

theorem late_health_check_revives_witness:
  "\<exists>m p'. pm_get (fst (run_health_check (\<lambda>_. False) (\<lambda>_ _. True) (monitor_program m 1 ''web'') ''web'' m)) ''web'' = Some p'
     \<and> p_state p' = ProgHealthy \<and> p_exit_code p' = 1"
proof -
  let ?m = "pm_modify ''web'' (record_program 7 1) checked_pm"
  have "pm_get ?m ''web'' = Some (record_program 7 1 web_program)"
    by (simp add: pm_get_modify checked_get)
  from late_health_check_revives [OF this, where code = 1 and halted = "\<lambda>_. False" and passes = "\<lambda>_ _. True"
      and env = demo_penv]
  obtain p' where "pm_get (fst (run_health_check (\<lambda>_. False) (\<lambda>_ _. True) (monitor_program ?m 1 ''web'') ''web'' ?m)) ''web''
      = Some p'" "p_state p' = ProgHealthy" "p_exit_code p' = 1"
    by (auto simp: record_program_def web_config)
  then show ?thesis by blast
qed

end
