(* ===== verification/Program_Phases.thy ===== *)
theory Program_Phases
  imports Program_Lifecycle
begin

text \<open>
  The program manager's operations on many programs, \<open>StartPhase\<close> and \<open>StopPhase\<close>, and the invariant
  of its records.
\<close>

section \<open>Laws about the records\<close>

text \<open>A law that holds of every program of the manager, under the name it is stored by.\<close>

definition pm_all :: "(string \<Rightarrow> program \<Rightarrow> bool) \<Rightarrow> pm \<Rightarrow> bool" where
  "pm_all law m \<longleftrightarrow> pm_map_ok m \<and> (\<forall>name p. pm_get m name = Some p \<longrightarrow> law name p)"

lemma pm_all_simps [simp]: "pm_all law (pm_emit es m) = pm_all law m" "pm_all law (pm_at t m) = pm_all law m"
  by (simp_all add: pm_all_def)

lemma pm_all_modify:
  "pm_all law m \<Longrightarrow> (\<And>p. law name p \<Longrightarrow> law name (f p)) \<Longrightarrow> pm_all law (pm_modify name f m)"
  using programs.inv_modify [of m name f] by (auto simp: pm_all_def pm_get_modify)

lemma pm_all_new:
  assumes "\<And>pc. pc \<in> set cs \<Longrightarrow> law (pc_name pc) (new_program pc)"
  shows "pm_all law (new_program_manager cs now)"
proof -
  have put: "pm_all law (pm_put (pc_name pc) (new_program pc) m)" if "pm_all law m" "pc \<in> set cs" for pc m
    using that programs.inv_put [of m] assms by (auto simp: pm_all_def programs.lookup_put)
  have "pm_all law (m\<lparr>pm_programs := fold (\<lambda>pc. AList.update (pc_name pc) (new_program pc)) ds (pm_programs m)\<rparr>)"
    if "pm_all law m" "set ds \<subseteq> set cs" for m ds
    using that
  proof (induction ds arbitrary: m)
    case (Cons pc ds)
    from Cons.IH [OF put [OF Cons.prems(1), of pc]] Cons.prems(2) show ?case by (simp add: pm_put_def)
  qed simp
  moreover have "pm_all law \<lparr>pm_configs = cs, pm_programs = [], pm_clock = now, pm_trace = []\<rparr>"
    by (simp add: pm_all_def pm_map_ok_def pm_get_def)
  ultimately show ?thesis unfolding new_program_manager_def by fastforce
qed

text \<open>A law that every section under a program's lock keeps is kept by every operation of the manager.\<close>

locale program_law =
  fixes law :: "string \<Rightarrow> program \<Rightarrow> bool"
  assumes law_state:
      "law n p \<Longrightarrow> s \<notin> {ProgPending, ProgStopped, ProgDone, ProgDisabled} \<Longrightarrow> law n (set_pstate s p)"
    and law_record: "law n p \<Longrightarrow> law n (record_program pid t p)"
    and law_healthy: "law n p \<Longrightarrow> law n (mark_healthy p)"
    and law_stopped: "law n p \<Longrightarrow> law n (stopped_program t p)"
    and law_exited: "law n p \<Longrightarrow> law n (program_exited code restart t p)"
    and law_health: "law n p \<Longrightarrow> law n (p\<lparr>p_health := h\<rparr>)"
    and law_failed: "law n p \<Longrightarrow> law n (p\<lparr>p_health := h, p_state := ProgHealthFailed\<rparr>)"
begin

lemmas sections = pm_all_modify law_state law_record law_healthy law_stopped law_exited law_health law_failed

lemma wait_deps_kept: "pm_all law m \<Longrightarrow> pm_all law (fst (wait_deps env name deps m))"
proof -
  assume inv: "pm_all law m"
  obtain m' r where w: "wait_deps env name deps m = (m', r)" by fastforce
  from wait_deps_result [OF w] inv show ?thesis
    by (auto simp: w intro!: sections)
qed

lemma launch_kept: "pm_all law m \<Longrightarrow> pm_all law (fst (launch_program env name cfg m))"
  by (auto simp: launch_program_def Let_def intro!: sections split: option.split)

lemma start_program_kept: "pm_all law m \<Longrightarrow> pm_all law (fst (start_program env name m))"
proof (cases "pm_get m name")
  case (Some p)
  assume inv: "pm_all law m"
  let ?m1 = "pm_modify name (set_pstate ProgWaitingDeps) m"
  obtain m2 r where w: "wait_deps env name (pc_depends_on (p_config p)) ?m1 = (m2, r)" by fastforce
  have "pm_all law ?m1" using inv by (intro sections) simp_all
  then have kept: "pm_all law m2" using wait_deps_kept [of ?m1 env name "pc_depends_on (p_config p)"] w by simp
  then have "pm_all law (pm_modify name (set_pstate ProgWaitingDelay) m2)" by (intro sections) simp_all
  with kept inv Some w show ?thesis
    by (cases r) (simp_all add: start_program_def Let_def launch_kept)
qed (simp add: start_program_def)

lemma stop_program_kept: "pm_all law m \<Longrightarrow> pm_all law (fst (stop_program env name m))"
  by (auto simp: stop_program_def Let_def intro!: sections split: option.split stop_result.split prod.split)

lemma monitor_program_kept: "pm_all law m \<Longrightarrow> pm_all law (monitor_program m0 code name m)"
  by (auto simp: monitor_program_def intro!: sections split: option.split)

lemma health_check_kept:
  assumes "pm_all law m" and "\<And>m. pm_all law m \<Longrightarrow> pm_all law (meanwhile m)"
  shows "pm_all law (fst (run_health_check halted passes meanwhile name m))"
proof -
  have "pm_all law (meanwhile (pm_modify name (\<lambda>p. p\<lparr>p_health := HealthChecking\<rparr>) m))"
    using assms by (intro assms(2) sections)
  then show ?thesis
    using assms(1)
    by (auto simp: run_health_check_def Let_def intro!: sections split: option.split health_result.split)
qed

lemma start_programs_kept: "pm_all law m \<Longrightarrow> pm_all law (fst (start_programs env t0 names m))"
  by (induction names arbitrary: m) (auto simp: case_prod_beta Let_def start_program_kept)

lemma start_program_group_kept: "pm_all law m \<Longrightarrow> pm_all law (fst (start_program_group env eg names m))"
  using start_programs_kept [of m env "pm_clock m" names]
  by (simp add: start_program_group_def case_prod_beta Let_def)

lemma start_phase_groups_kept: "pm_all law m \<Longrightarrow> pm_all law (fst (start_phase_groups env eg chosen idx gs m))"
proof (induction gs arbitrary: m idx)
  case (Cons g gs)
  obtain m1 r where sg: "start_program_group env eg (filter (\<lambda>n. n \<in> set chosen) g) m = (m1, r)" by fastforce
  then have "pm_all law m1" using start_program_group_kept [OF Cons.prems, of env eg] by (metis fst_conv)
  with sg Cons show ?case by (cases r) (simp_all add: Let_def)
qed simp

lemma start_phase_kept: "pm_all law m \<Longrightarrow> pm_all law (fst (start_phase env eg r1 r2 phase m))"
  by (simp add: start_phase_def Let_def start_phase_groups_kept split: sum.split)

lemma stop_programs_kept: "pm_all law m \<Longrightarrow> pm_all law (stop_programs env names m)"
  by (induction names arbitrary: m) (simp_all add: stop_program_kept)

lemma stop_phase_kept: "pm_all law m \<Longrightarrow> pm_all law (fst (stop_phase env phase m))"
  by (simp add: stop_phase_def stop_programs_kept)

end

section \<open>The invariant\<close>

definition program_ok :: "string \<Rightarrow> program \<Rightarrow> bool" where
  "program_ok name p \<longleftrightarrow> p_name p = name
     \<and> p_pid p = (case p_cmd p of None \<Rightarrow> 0 | Some pid \<Rightarrow> pid)
     \<and> (p_state p \<in> {ProgPending, ProgStopped, ProgDone, ProgDisabled} \<longrightarrow> p_cmd p = None)"

definition pm_inv :: "pm \<Rightarrow> bool" where
  "pm_inv m \<longleftrightarrow> pm_map_ok m \<and> (\<forall>name p. pm_get m name = Some p \<longrightarrow> program_ok name p)"

lemma pm_inv_all: "pm_inv m = pm_all program_ok m"
  by (simp add: pm_inv_def pm_all_def)

interpretation well_formed: program_law program_ok
  by unfold_locales (simp_all add: program_ok_def program_sections)

text \<open>The configurations of the programs are those the manager was created with.\<close>

interpretation configured: program_law "\<lambda>_ p. p_config p \<in> C"
  by unfold_locales (simp_all add: program_sections)

lemma pm_inv_simps [simp]: "pm_inv (pm_emit es m) = pm_inv m" "pm_inv (pm_at t m) = pm_inv m"
  by (simp_all add: pm_inv_all)

lemma pm_inv_step:
  "pm_inv m \<Longrightarrow> (\<And>p. program_ok name p \<Longrightarrow> program_ok name (f p)) \<Longrightarrow> pm_inv (pm_modify name f m)"
  unfolding pm_inv_all by (rule pm_all_modify)

lemmas start_program_inv = well_formed.start_program_kept [folded pm_inv_all]
lemmas stop_program_inv = well_formed.stop_program_kept [folded pm_inv_all]
lemmas monitor_program_inv = well_formed.monitor_program_kept [folded pm_inv_all]
lemmas health_check_inv = well_formed.health_check_kept [folded pm_inv_all]
lemmas start_phase_inv = well_formed.start_phase_kept [folded pm_inv_all]
lemmas stop_programs_inv = well_formed.stop_programs_kept [folded pm_inv_all]
lemmas stop_phase_inv = well_formed.stop_phase_kept [folded pm_inv_all]

lemma new_manager_pm_inv: "pm_inv (new_program_manager cs now)"
  unfolding pm_inv_all by (rule pm_all_new) (simp add: program_ok_def new_program_def)

text \<open>C29: every record of the program manager stays well formed: it is stored under its own name, its
  pid is that of its command or 0, and a program that is pending, stopped, done or disabled has no
  command.\<close>

theorem program_manager_invariant:
  "pm_inv (new_program_manager cs now)
   \<and> (pm_inv m \<longrightarrow>
       pm_inv (fst (start_program env name m)) \<and> pm_inv (fst (stop_program env name m))
     \<and> pm_inv (monitor_program m0 code name m)
     \<and> pm_inv (fst (run_health_check halted passes (monitor_program m0 code k) name m))
     \<and> pm_inv (fst (start_phase env eg r1 r2 phase m)) \<and> pm_inv (fst (pm_stop_all env m)))"
proof (intro conjI impI)
  assume inv: "pm_inv m"
  show "pm_inv (fst (start_phase env eg r1 r2 phase m))"
    using inv by (rule start_phase_inv)
  show "pm_inv (fst (pm_stop_all env m))"
    using inv stop_phase_inv by (simp add: pm_stop_all_def stop_phase_def stop_programs_inv)
  show "pm_inv (fst (run_health_check halted passes (monitor_program m0 code k) name m))"
    using inv by (intro health_check_inv monitor_program_inv)
qed (simp_all add: new_manager_pm_inv start_program_inv stop_program_inv monitor_program_inv)

theorem program_manager_invariant_witness:
  "pm_inv (fst (stop_program demo_penv ''bus'' (fst (start_program demo_penv ''bus'' demo_pm))))"
  using program_manager_invariant [where m = demo_pm and env = demo_penv and name = "''bus''"]
    program_manager_invariant [where m = "fst (start_program demo_penv ''bus'' demo_pm)" and env = demo_penv
      and name = "''bus''"]
    new_manager_pm_inv [of demo_programs 1]
  by (simp add: demo_pm_def)

section \<open>Phases\<close>

text \<open>What starting leaves, for the processes and their contexts.\<close>

definition prog_killed_after :: "prog_effect list \<Rightarrow> bool" where
  "prog_killed_after es \<longleftrightarrow> (\<forall>pid \<in> set (prog_spawned es). ProgKilledByContext pid \<in> set es)"

lemma prog_spawned_killed [simp]: "prog_spawned (map ProgKilledByContext ps) = []"
  by (induction ps) auto

lemma prog_killed_append: "prog_killed_after xs \<Longrightarrow> prog_killed_after ys \<Longrightarrow> prog_killed_after (xs @ ys)"
  by (auto simp: prog_killed_after_def)

lemma start_programs_trace: "\<exists>es. pm_trace (fst (start_programs env t0 names m)) = pm_trace m @ es"
proof (induction names arbitrary: m)
  case (Cons n names)
  obtain es where "pm_trace (fst (start_program env n (pm_at t0 m))) = pm_trace m @ es"
    using start_program_touch [of n "pm_at t0 m" env] by (auto simp: ptouch_def)
  with Cons [of "fst (start_program env n (pm_at t0 m))"] show ?case
    by (auto simp: case_prod_beta Let_def)
qed simp

lemma start_program_group_kills:
  assumes "errgroup_doc eg" and "start_program_group env eg names m = (m', r)"
  shows "\<exists>es. pm_trace m' = pm_trace m @ es \<and> prog_killed_after es"
proof -
  obtain m1 errs where mem: "start_programs env (pm_clock m) names m = (m1, errs)" by fastforce
  then obtain es where es: "pm_trace m1 = pm_trace m @ es"
    using start_programs_trace [of env "pm_clock m" names m] by auto
  have "pm_trace m' = pm_trace m @ (es @ map ProgKilledByContext (prog_spawned es))"
    using assms mem es by (auto simp: start_program_group_def Let_def errgroup_doc_def)
  moreover have "prog_killed_after (es @ map ProgKilledByContext (prog_spawned es))"
    by (auto simp: prog_killed_after_def)
  ultimately show ?thesis by blast
qed

lemma start_phase_groups_kill:
  assumes "errgroup_doc eg" and "start_phase_groups env eg chosen idx gs m = (m', r)"
  shows "\<exists>es. pm_trace m' = pm_trace m @ es \<and> prog_killed_after es"
  using assms
proof (induction gs arbitrary: m idx)
  case Nil
  then show ?case by (auto simp: prog_killed_after_def)
next
  case (Cons g gs)
  let ?names = "filter (\<lambda>n. n \<in> set chosen) g"
  obtain m1 e where sg: "start_program_group env eg ?names m = (m1, e)" by fastforce
  obtain es where es: "pm_trace m1 = pm_trace m @ es" "prog_killed_after es"
    using start_program_group_kills [OF Cons.prems(1) sg] by blast
  consider "m' = m" | "m' = m1" | "start_phase_groups env eg chosen (Suc idx) gs m = (m', r)"
    | "start_phase_groups env eg chosen (Suc idx) gs m1 = (m', r)"
    using Cons.prems(2) sg by (auto simp: Let_def split: if_splits option.splits)
  then show ?case
  proof cases
    case 1
    then show ?thesis by (auto simp: prog_killed_after_def)
  next
    case 2
    with es show ?thesis by blast
  next
    case 3
    then show ?thesis by (rule Cons.IH [OF Cons.prems(1)])
  next
    case 4
    from Cons.IH [OF Cons.prems(1) 4] obtain es' where "pm_trace m' = pm_trace m1 @ es'" "prog_killed_after es'"
      by blast
    with es prog_killed_append [of es es'] show ?thesis by auto
  qed
qed

lemma start_phase_kills:
  assumes "errgroup_doc eg" and "start_phase env eg r1 r2 phase m = (m', r)"
  shows "\<exists>es. pm_trace m' = pm_trace m @ es \<and> prog_killed_after es"
proof -
  consider "m' = m" | gs where "start_phase_groups env eg (phase_programs phase m) 0 gs m = (m', r)"
    using assms(2) by (auto simp: start_phase_def Let_def split: sum.splits if_splits)
  then show ?thesis
  proof cases
    case 1
    then show ?thesis by (auto simp: prog_killed_after_def)
  next
    case 2
    then show ?thesis by (rule start_phase_groups_kill [OF assms(1)])
  qed
qed

end
