(* ===== verification/Server_Front.thy ===== *)
theory Server_Front
  imports Server_Binary Daemon_Shutdown Daemon_Groups Program_Phases
begin

text \<open>
  What the management server promises, whichever protocol a command arrives by. \<open>serve\<close> is the
  abstract command: a verb and the name it is about, if there is one. The locale \<open>front_end\<close> says
  that a dispatcher refines it; its lemmas hold for the text and for the binary dispatcher, which
  interpret it.
\<close>

section \<open>Abstract commands\<close>

datatype verb = Restart | Stop | Start | Shutdown | ProgStart | ProgStop

fun verb_text :: "verb \<Rightarrow> string" where
  "verb_text Restart = ''restart''"
| "verb_text Stop = ''stop''"
| "verb_text Start = ''start''"
| "verb_text Shutdown = ''shutdown''"
| "verb_text ProgStart = ''prog-start''"
| "verb_text ProgStop = ''prog-stop''"

fun verb_code :: "verb \<Rightarrow> byte" where
  "verb_code Restart = CmdRestart"
| "verb_code Stop = CmdStop"
| "verb_code Start = CmdStart"
| "verb_code Shutdown = CmdShutdown"
| "verb_code ProgStart = CmdStartProgram"
| "verb_code ProgStop = CmdStopProgram"

definition serve_daemon :: "server_env \<Rightarrow> verb \<Rightarrow> string \<Rightarrow> server \<Rightarrow> server \<times> reply_error option" where
  "serve_daemon env v name s =
     (let ctx = daemon_ctx env s;
          (m1, e) = (if v = Start then (s_manager s, None) else dm_stop ctx name (s_manager s));
          (m2, e') = (if v = Stop then (m1, None) else dm_start ctx name m1)
      in case e of
           Some x \<Rightarrow> (s\<lparr>s_manager := m1\<rparr>, Some (StopFailed name x))
         | None \<Rightarrow>
             (case e' of
                Some x \<Rightarrow> (s\<lparr>s_manager := m2\<rparr>, Some (StartFailed name x))
              | None \<Rightarrow>
                  (if v = Stop
                   then mark_ready name False
                          (s\<lparr>s_manager := dm_modify name (set_restart_policy RestartDisabled) m2\<rparr>)
                   else if v = Start then mark_ready name True (s\<lparr>s_manager := m2\<rparr>)
                   else s\<lparr>s_manager := m2\<rparr>, None)))"

definition serve_program :: "server_env \<Rightarrow> verb \<Rightarrow> string \<Rightarrow> pm \<Rightarrow> server \<Rightarrow> server \<times> reply_error option" where
  "serve_program env v name m s =
     (let (m1, e) = (if v = ProgStart then start_program else stop_program) (program_ctx env s) name m
      in (s\<lparr>s_pm := Some m1\<rparr>,
          map_option (if v = ProgStart then StartProgramFailed name else StopProgramFailed name) e))"

definition serve :: "server_env \<Rightarrow> verb \<Rightarrow> string option \<Rightarrow> server \<Rightarrow> server \<times> reply_error option" where
  "serve env v named s =
     (if v = Shutdown then (s\<lparr>s_cancelled := True\<rparr>, None)
      else if v = ProgStart \<or> v = ProgStop then
        (case s_pm s of
           None \<Rightarrow> (s, Some NoProgramManager)
         | Some m \<Rightarrow>
             (case named of
                None \<Rightarrow> (s, Some (RequiresName (verb_text v)))
              | Some name \<Rightarrow> serve_program env v name m s))
      else
        (case named of
           None \<Rightarrow> (s, Some (RequiresName (verb_text v)))
         | Some name \<Rightarrow>
             (case dm_get (s_manager s) name of
                None \<Rightarrow> (s, Some (DaemonUnknown name))
              | Some d \<Rightarrow> serve_daemon env v name s)))"

section \<open>The invariant of the server\<close>

definition server_ok :: "server \<Rightarrow> bool" where
  "server_ok s \<longleftrightarrow> dm_inv (s_manager s) \<and> pred_option pm_inv (s_pm s) \<and> pred_option registry_ok (s_features s)"

lemma policy_ok: "daemon_ok name d \<Longrightarrow> daemon_ok name (set_restart_policy p d)"
  by (simp add: daemon_ok_def set_restart_policy_def)

lemma mark_ready_ok: "server_ok s \<Longrightarrow> server_ok (mark_ready name b s)"
  by (cases "s_features s") (simp_all add: server_ok_def mark_ready_def registry_ok_set_ready)

lemma server_ok_manager:
  "server_ok s \<Longrightarrow> dm_inv m \<Longrightarrow> server_ok (s\<lparr>s_manager := m\<rparr>)"
  by (simp add: server_ok_def)

lemma server_ok_cancel [simp]: "server_ok (s\<lparr>s_cancelled := b\<rparr>) = server_ok s"
  by (simp add: server_ok_def)

lemma serve_daemon_ok: "server_ok s \<Longrightarrow> server_ok (fst (serve_daemon env v name s))"
proof -
  assume ok: "server_ok s"
  obtain m1 e where 1: "(if v = Start then (s_manager s, None)
      else dm_stop (daemon_ctx env s) name (s_manager s)) = (m1, e)" by fastforce
  obtain m2 e' where 2: "(if v = Stop then (m1, None) else dm_start (daemon_ctx env s) name m1) = (m2, e')"
    by fastforce
  have i1: "dm_inv m1"
    using 1 ok stop_inv [of "s_manager s" "daemon_ctx env s" name]
    by (auto simp: server_ok_def split: if_splits)
  have i2: "dm_inv m2"
    using 2 i1 start_inv [of m1 "daemon_ctx env s" name] by (auto split: if_splits)
  have "dm_inv (dm_modify name (set_restart_policy RestartDisabled) m2)"
    using i2 by (intro modify_inv policy_ok) simp_all
  with i1 i2 ok show ?thesis
    by (simp add: serve_daemon_def Let_def 1 2 server_ok_manager mark_ready_ok split: option.split)
qed

lemma serve_ok: "server_ok s \<Longrightarrow> server_ok (fst (serve env v named s))"
proof -
  assume ok: "server_ok s"
  have "server_ok (fst (serve_program env v name m s))" if "s_pm s = Some m" for name m
    using ok that start_program_inv [of m "program_ctx env s" name] stop_program_inv [of m "program_ctx env s" name]
    by (auto simp: serve_program_def server_ok_def case_prod_beta Let_def)
  with ok serve_daemon_ok [OF ok] show ?thesis
    by (auto simp: serve_def split: option.split)
qed

section \<open>Front ends\<close>

locale front_end =
  fixes handle :: "server_env \<Rightarrow> server \<Rightarrow> 'c \<Rightarrow> 'r handled"
    and verb_of :: "'c \<Rightarrow> verb option"
    and named :: "'c \<Rightarrow> string option"
    and failure :: "'r \<Rightarrow> reply_error option"
  assumes refines: "verb_of c = Some v \<Longrightarrow>
      \<exists>r. handle env s c = Ok (fst (serve env v (named c) s), r) \<and> failure r = snd (serve env v (named c) s)"
    and reads: "verb_of c = None \<Longrightarrow> server_ok s \<Longrightarrow> \<exists>r. handle env s c = Ok (s, r)"
begin

lemma handled:
  assumes "handle env s c = Ok (s', r)" and "verb_of c = Some v"
  shows "s' = fst (serve env v (named c) s) \<and> failure r = snd (serve env v (named c) s)"
  using refines [OF assms(2), of env s] assms(1) by auto

lemma handle_total: "server_ok s \<Longrightarrow> \<exists>s' r. handle env s c = Ok (s', r) \<and> server_ok s'"
  using refines [of c _ env s] reads [of c s env] serve_ok [of s env _ "named c"]
  by (cases "verb_of c") fastforce+

text \<open>One command after the other, as a connection sends them.\<close>

fun run :: "server_env \<Rightarrow> server \<Rightarrow> 'c list \<Rightarrow> (unit, server \<times> 'r list) outcome" where
  "run env s [] = Ok (s, [])"
| "run env s (c # cs) =
     obind (handle env s c) (\<lambda>(s1, r). obind (run env s1 cs) (\<lambda>(s2, rs). Ok (s2, r # rs)))"

lemma run_total: "server_ok s \<Longrightarrow> \<exists>s' rs. run env s cs = Ok (s', rs) \<and> server_ok s' \<and> length rs = length cs"
proof (induction cs arbitrary: s)
  case (Cons c cs)
  obtain s1 r where 1: "handle env s c = Ok (s1, r)" "server_ok s1"
    using handle_total [OF Cons.prems, of env c] by blast
  from Cons.IH [OF 1(2)] 1(1) show ?case by fastforce
qed simp

text \<open>Commands without one of the six verbs change nothing.\<close>

lemma run_reads: "server_ok s \<Longrightarrow> \<forall>c \<in> set cs. verb_of c = None \<Longrightarrow> \<exists>rs. run env s cs = Ok (s, rs)"
proof (induction cs)
  case (Cons c cs)
  obtain r where "handle env s c = Ok (s, r)" using reads Cons.prems by fastforce
  with Cons show ?case by fastforce
qed simp

end

definition verbs :: "verb list" where
  "verbs = [Restart, Stop, Start, Shutdown, ProgStart, ProgStop]"

definition txt_verb :: "txt_command \<Rightarrow> verb option" where
  "txt_verb c = List.find (\<lambda>v. verb_text v = tc_name c) verbs"

definition bin_verb :: "bin_command \<Rightarrow> verb option" where
  "bin_verb c = List.find (\<lambda>v. verb_code v = bc_code c) verbs"

definition txt_failure :: "txt_reply \<Rightarrow> reply_error option" where
  "txt_failure r = (case r of TxtFail e \<Rightarrow> Some e | TxtOK _ _ \<Rightarrow> None)"

definition bin_failure :: "bin_reply \<Rightarrow> reply_error option" where
  "bin_failure r = (case r of BinFail e \<Rightarrow> Some e | _ \<Rightarrow> None)"

text \<open>Each mutating handler is the abstract command; what the two protocols add is the response.\<close>

lemmas serve_simps = serve_def serve_daemon_def serve_program_def Let_def

lemma txt_restart: "\<exists>r. handle_restart env s c = (fst (serve env Restart (arg_name c) s), r)
    \<and> txt_failure r = snd (serve env Restart (arg_name c) s)"
  by (auto simp: handle_restart_def serve_simps txt_failure_def split: option.split prod.split)

lemma txt_stop: "\<exists>r. handle_stop env s c = (fst (serve env Stop (arg_name c) s), r)
    \<and> txt_failure r = snd (serve env Stop (arg_name c) s)"
  by (auto simp: handle_stop_def serve_simps txt_failure_def split: option.split prod.split)

lemma txt_start: "\<exists>r. handle_start env s c = (fst (serve env Start (arg_name c) s), r)
    \<and> txt_failure r = snd (serve env Start (arg_name c) s)"
  by (auto simp: handle_start_def serve_simps txt_failure_def split: option.split prod.split)

lemma txt_prog_start: "\<exists>r. handle_start_program env s c = (fst (serve env ProgStart (arg_name c) s), r)
    \<and> txt_failure r = snd (serve env ProgStart (arg_name c) s)"
  by (auto simp: handle_start_program_def serve_simps txt_failure_def split: option.split prod.split)

lemma txt_prog_stop: "\<exists>r. handle_stop_program env s c = (fst (serve env ProgStop (arg_name c) s), r)
    \<and> txt_failure r = snd (serve env ProgStop (arg_name c) s)"
  by (auto simp: handle_stop_program_def serve_simps txt_failure_def split: option.split prod.split)

lemma bin_restart: "\<exists>r. handle_bin_restart env s c = (fst (serve env Restart (bin_name c) s), r)
    \<and> bin_failure r = snd (serve env Restart (bin_name c) s)"
  by (auto simp: handle_bin_restart_def serve_simps bin_failure_def split: option.split prod.split)

lemma bin_stop: "\<exists>r. handle_bin_stop env s c = (fst (serve env Stop (bin_name c) s), r)
    \<and> bin_failure r = snd (serve env Stop (bin_name c) s)"
  by (auto simp: handle_bin_stop_def serve_simps bin_failure_def split: option.split prod.split)

lemma bin_start: "\<exists>r. handle_bin_start env s c = (fst (serve env Start (bin_name c) s), r)
    \<and> bin_failure r = snd (serve env Start (bin_name c) s)"
  by (auto simp: handle_bin_start_def serve_simps bin_failure_def split: option.split prod.split)

lemma bin_prog_start: "\<exists>r. handle_bin_start_program env s c = (fst (serve env ProgStart (bin_name c) s), r)
    \<and> bin_failure r = snd (serve env ProgStart (bin_name c) s)"
  by (auto simp: handle_bin_start_program_def serve_simps bin_failure_def split: option.split prod.split)

lemma bin_prog_stop: "\<exists>r. handle_bin_stop_program env s c = (fst (serve env ProgStop (bin_name c) s), r)
    \<and> bin_failure r = snd (serve env ProgStop (bin_name c) s)"
  by (auto simp: handle_bin_stop_program_def serve_simps bin_failure_def split: option.split prod.split)

lemma txt_shutdown: "handle_shutdown s c = (fst (serve env Shutdown n s), snd (handle_shutdown s c))
    \<and> txt_failure (snd (handle_shutdown s c)) = snd (serve env Shutdown n s)"
  by (simp add: handle_shutdown_def serve_def txt_failure_def)

lemma bin_shutdown: "handle_bin_shutdown s c = (fst (serve env Shutdown n s), snd (handle_bin_shutdown s c))
    \<and> bin_failure (snd (handle_bin_shutdown s c)) = snd (serve env Shutdown n s)"
  by (simp add: handle_bin_shutdown_def serve_def bin_failure_def)

lemma txt_verb_name: "txt_verb c = Some v \<Longrightarrow> tc_name c = verb_text v"
  by (auto simp: txt_verb_def find_Some_iff)

lemma bin_verb_code: "bin_verb c = Some v \<Longrightarrow> bc_code c = verb_code v"
  by (auto simp: bin_verb_def find_Some_iff)

lemma logs_total: "server_ok s \<Longrightarrow> \<exists>r. handle_logs s c = Ok r"
  by (auto simp: handle_logs_def server_ok_def dm_inv_def daemon_ok_def lb_tail_ok split: option.split)

lemma bin_logs_total: "server_ok s \<Longrightarrow> \<exists>r. handle_bin_logs s c = Ok r"
  by (auto simp: handle_bin_logs_def server_ok_def dm_inv_def daemon_ok_def lb_tail_ok split: option.split)

interpretation text_front: front_end dispatch txt_verb arg_name txt_failure
proof
  fix c v env s assume "txt_verb c = Some v"
  then have name: "tc_name c = verb_text v" by (rule txt_verb_name)
  show "\<exists>r. dispatch env s c = Ok (fst (serve env v (arg_name c) s), r)
      \<and> txt_failure r = snd (serve env v (arg_name c) s)"
    using txt_restart [of env s c] txt_stop [of env s c] txt_start [of env s c] txt_shutdown [of s c env]
      txt_prog_start [of env s c] txt_prog_stop [of env s c]
    by (cases v) (auto simp: name dispatch_def)
next
  fix c env s assume "txt_verb c = None" "server_ok s"
  then show "\<exists>r. dispatch env s c = Ok (s, r)"
    using logs_total [of s c]
    by (auto simp: dispatch_def txt_verb_def verbs_def)
qed

interpretation bin_front: front_end dispatch_bin bin_verb bin_name bin_failure
proof
  fix c v env s assume "bin_verb c = Some v"
  then have code: "bc_code c = verb_code v" by (rule bin_verb_code)
  show "\<exists>r. dispatch_bin env s c = Ok (fst (serve env v (bin_name c) s), r)
      \<and> bin_failure r = snd (serve env v (bin_name c) s)"
    using bin_restart [of env s c] bin_stop [of env s c] bin_start [of env s c] bin_shutdown [of s c env]
      bin_prog_start [of env s c] bin_prog_stop [of env s c]
    by (cases v) (auto simp: code bin_consts dispatch_bin_def)
next
  fix c env s
  show "bin_verb c = None \<Longrightarrow> server_ok s \<Longrightarrow> \<exists>r. dispatch_bin env s c = Ok (s, r)"
  proof -
    assume none: "bin_verb c = None" and ok: "server_ok s"
    obtain r where r: "handle_bin_logs s c = Ok r" using bin_logs_total [OF ok] by blast
    have "bc_code c \<noteq> CmdRestart" "bc_code c \<noteq> CmdStop" "bc_code c \<noteq> CmdStart"
      "bc_code c \<noteq> CmdShutdown" "bc_code c \<noteq> CmdStartProgram" "bc_code c \<noteq> CmdStopProgram"
      using none by (auto simp: bin_verb_def verbs_def split: if_splits)
    then show ?thesis by (simp add: dispatch_bin_def r)
  qed
qed

end
