(* ===== verification/Txt_Protocol.thy ===== *)
theory Txt_Protocol
  imports Txt_Parser
begin

text \<open>
  What the text protocol promises: the values and the verb of a well-formed command are read back in
  order; a command has a known verb and 64-bit integers; a last line without its newline has no
  effect; responses end the way the protocol says.
\<close>

section \<open>One line\<close>

lemma NL_in_rune:
  assumes "r \<in> set space_runes" and "NL \<in> set r"
  shows "r = [NL]"
proof -
  have "\<forall>r \<in> set space_runes. NL \<in> set r \<longrightarrow> r = [NL]" by code_simp
  with assms show ?thesis by blast
qed

lemma trim_space_line:
  assumes "trimmed s" and "s \<noteq> []"
  shows "trim_space (s @ [NL]) = s"
proof -
  have "\<not> has_prefix (s @ [NL]) r" if r: "r \<in> set space_runes" for r
  proof
    assume "has_prefix (s @ [NL]) r"
    then obtain t where t: "s @ [NL] = r @ t" by (auto simp: has_prefix_append_iff)
    show False
    proof (cases t rule: rev_cases)
      case Nil
      with t have "NL \<in> set r" by (metis append_Nil2 in_set_conv_decomp)
      with NL_in_rune [OF r] Nil t assms(2) show False by simp
    next
      case (snoc u c)
      with t have "s = r @ u" by simp
      with assms(1) r show False by (auto simp: trimmed_def has_prefix_append_iff)
    qed
  qed
  then have "trim_left (s @ [NL]) = s @ [NL]"
    unfolding trim_left_def by (rule trim_with_id)
  then show ?thesis
    using assms(1) by (simp add: trim_space_def trim_right_NL trim_right_trimmed)
qed

text \<open>The four things a line can do.\<close>

lemma parse_loop_line:
  assumes "NL \<notin> set line" and "trimmed line" and "line \<noteq> []"
  shows "parse_loop stack (line @ NL # rest) =
    (if has_prefix line ''#'' then parse_loop stack rest
     else if resolve_command line \<noteq> [] then
       Ok (\<lparr>tc_name = resolve_command line, tc_args = stack\<rparr>, rest)
     else case parse_text_value line of
       Ok v \<Rightarrow> parse_loop (stack @ [v]) rest
     | Err e \<Rightarrow> Err e
     | Panic \<Rightarrow> Panic)"
  using assms by (subst parse_loop.simps) (simp add: read_string_line trim_space_line Let_def)

lemma verb_facts:
  assumes "v \<in> set command_verbs"
  shows "v \<noteq> []" "trimmed v" "NL \<notin> set v" "\<not> has_prefix v ''#''" "\<not> has_prefix v [QUOTE]"
proof -
  have "\<forall>v \<in> set command_verbs. v \<noteq> [] \<and> trimmed v \<and> NL \<notin> set v \<and> \<not> has_prefix v ''#''
      \<and> \<not> has_prefix v [QUOTE]"
    by code_simp
  with assms show "v \<noteq> []" "trimmed v" "NL \<notin> set v" "\<not> has_prefix v ''#''" "\<not> has_prefix v [QUOTE]"
    by blast+
qed

lemma parse_loop_verb:
  "v \<in> set command_verbs \<Longrightarrow>
     parse_loop stack (v @ NL # rest) = Ok (\<lparr>tc_name = v, tc_args = stack\<rparr>, rest)"
  using verb_facts [of v] by (simp add: parse_loop_line resolve_command_def)

lemma int_line_facts:
  shows "trimmed (show_int i)" "NL \<notin> set (show_int i)" "resolve_command (show_int i) = []"
    "\<not> has_prefix (show_int i) ''#''" "\<not> has_prefix (show_int i) [QUOTE]"
    "show_int i \<noteq> ''t''" "show_int i \<noteq> ''f''"
proof -
  note num = show_int_num_char [of _ i]
  show "trimmed (show_int i)" "resolve_command (show_int i) = []"
    using num by (auto intro: trimmed_num resolve_command_num)
  show "NL \<notin> set (show_int i)" using num NL_not_num by blast
  have first: "\<not> num_char c \<Longrightarrow> \<not> has_prefix (show_int i) [c]" for c
    using num by (auto simp: has_prefix_append_iff)
  show "\<not> has_prefix (show_int i) ''#''" "\<not> has_prefix (show_int i) [QUOTE]"
    by (rule first, simp add: num_char_def)+
  have other: "\<not> num_char c \<Longrightarrow> show_int i \<noteq> [c]" for c
    using num [of c] by auto
  show "show_int i \<noteq> ''t''" "show_int i \<noteq> ''f''"
    by (rule other, simp add: num_char_def)+
qed

lemma parse_loop_value:
  assumes "line_value v"
  shows "parse_loop stack (render_value v @ NL # rest) = parse_loop (stack @ [v]) rest"
proof (cases "v_type v")
  case TypeString
  then have v: "v = zero_value\<lparr>v_type := TypeString, v_str := v_str v\<rparr>"
    and s: "NL \<notin> set (v_str v)" "trimmed (QUOTE # v_str v)"
    using assms by (auto simp: line_value_def zero_value_def)
  have "resolve_command (QUOTE # v_str v) = []"
    using verb_facts(5) [of "QUOTE # v_str v"] by (auto simp: resolve_command_def has_prefix_def)
  with TypeString s v show ?thesis
    by (simp add: render_value_def parse_loop_line parse_text_value_def has_prefix_def
        flip: append_Cons)
next
  case TypeInt
  then have v: "v = zero_value\<lparr>v_type := TypeInt, v_int := v_int v\<rparr>" and i: "int64_range (v_int v)"
    using assms by (auto simp: line_value_def zero_value_def)
  with TypeInt show ?thesis
    using v by (simp add: render_value_def parse_loop_line int_line_facts show_int_nonempty
        parse_text_value_def parse_show_int)
next
  case TypeBool
  have t: "trimmed ''t''" "trimmed ''f''" "resolve_command ''t'' = []" "resolve_command ''f'' = []"
    by code_simp+
  show ?thesis
  proof (cases "v_bool v")
    case True
    then have "v = zero_value\<lparr>v_type := TypeBool, v_bool := True\<rparr>"
      using TypeBool assms by (auto simp: line_value_def zero_value_def)
    with TypeBool True t parse_loop_line [of "''t''"] show ?thesis
      by (simp add: render_value_def parse_text_value_def has_prefix_def)
  next
    case False
    then have "v = zero_value\<lparr>v_type := TypeBool, v_bool := False\<rparr>"
      using TypeBool assms by (auto simp: line_value_def zero_value_def)
    with TypeBool False t parse_loop_line [of "''f''"] show ?thesis
      by (simp add: render_value_def parse_text_value_def has_prefix_def)
  qed
qed

section \<open>Round trip of a command\<close>

definition render_command :: "txt_command \<Rightarrow> string" where
  "render_command c =
     concat (map (\<lambda>v. render_value v @ [NL]) (tc_args c)) @ tc_name c @ [NL]"

lemma parse_loop_command:
  assumes "\<forall>v \<in> set args. line_value v" and "name \<in> set command_verbs"
  shows "parse_loop stack (concat (map (\<lambda>v. render_value v @ [NL]) args) @ name @ NL # rest)
       = Ok (\<lparr>tc_name = name, tc_args = stack @ args\<rparr>, rest)"
  using assms(1)
proof (induction args arbitrary: stack)
  case Nil
  then show ?case using assms(2) by (simp add: parse_loop_verb)
next
  case (Cons v args)
  then show ?case by (simp add: parse_loop_value)
qed

text \<open>C32: a command written as the protocol describes, one value per line and then the verb, is read
  back with the same verb and the same arguments in the same order, and the parser stops right after
  it.\<close>

theorem txt_command_roundtrip:
  assumes "\<forall>v \<in> set (tc_args c). line_value v" and "tc_name c \<in> set command_verbs"
    and "tp_reader p = render_command c @ rest"
  shows "parse_command p = Ok (c, p\<lparr>tp_reader := rest\<rparr>)"
  using parse_loop_command [OF assms(1,2), of "[]" rest] assms(3)
  by (simp add: parse_command_def render_command_def)

theorem txt_command_roundtrip_witness:
  "parse_command \<lparr>tp_reader = [QUOTE] @ ''a-skripto'' @ [NL] @ ''20'' @ [NL] @ ''logs'' @ [NL],
       tp_header = ''TXT'', tp_version = ''01''\<rparr>
   = Ok (\<lparr>tc_name = ''logs'',
          tc_args = [zero_value\<lparr>v_str := ''a-skripto''\<rparr>, zero_value\<lparr>v_type := TypeInt, v_int := 20\<rparr>]\<rparr>,
         \<lparr>tp_reader = [], tp_header = ''TXT'', tp_version = ''01''\<rparr>)"
proof -
  let ?c = "\<lparr>tc_name = ''logs'',
    tc_args = [zero_value\<lparr>v_str := ''a-skripto''\<rparr>, zero_value\<lparr>v_type := TypeInt, v_int := 20\<rparr>]\<rparr>"
  let ?p = "\<lparr>tp_reader = [QUOTE] @ ''a-skripto'' @ [NL] @ ''20'' @ [NL] @ ''logs'' @ [NL],
    tp_header = ''TXT'', tp_version = ''01''\<rparr>"
  have "\<forall>v \<in> set (tc_args ?c). line_value v" by code_simp
  moreover have "tc_name ?c \<in> set command_verbs" by code_simp
  moreover have "tp_reader ?p = render_command ?c @ []" by code_simp
  ultimately show ?thesis using txt_command_roundtrip [of ?c ?p "[]"] by simp
qed

section \<open>What a parsed command is\<close>

text \<open>What \<open>parseValue\<close> returns: a 64-bit integer, no newline, the unused fields zero.\<close>

definition parsed_value :: "txt_value \<Rightarrow> bool" where
  "parsed_value v \<longleftrightarrow> NL \<notin> set (v_str v) \<and> int64_range (v_int v)
     \<and> (v_type v \<noteq> TypeString \<longrightarrow> v_str v = []) \<and> (v_type v \<noteq> TypeInt \<longrightarrow> v_int v = 0)
     \<and> (v_type v \<noteq> TypeBool \<longrightarrow> \<not> v_bool v)"

lemma parse_text_value_parsed:
  "parse_text_value line = Ok v \<Longrightarrow> NL \<notin> set line \<Longrightarrow> parsed_value v"
  by (auto simp: parse_text_value_def parsed_value_def zero_value_def int64_range_def
      dest!: go_parse_int_range in_set_dropD split: if_splits option.splits)

lemma NL_notin_trim_right: "NL \<notin> set l \<Longrightarrow> NL \<notin> set (trim_space (l @ [NL]))"
proof
  assume l: "NL \<notin> set l" and mem: "NL \<in> set (trim_space (l @ [NL]))"
  obtain t where t: "l @ [NL] = t @ trim_left (l @ [NL])"
    using trim_with_suffix unfolding trim_left_def by blast
  show False
  proof (cases "trim_left (l @ [NL])" rule: rev_cases)
    case Nil
    then have "trim_space (l @ [NL]) = trim_right []" by (simp add: trim_space_def)
    then show False using mem set_trim_with by (fastforce simp: trim_right_def)
  next
    case (snoc u c)
    with t have c: "c = NL" and u: "set u \<subseteq> set l" by auto
    have "trim_space (l @ [NL]) = trim_right u"
      by (simp add: trim_space_def snoc c trim_right_NL)
    then have "set (trim_space (l @ [NL])) \<subseteq> set u"
      using set_trim_with [of "map rev space_runes" "rev u"] by (auto simp: trim_right_def)
    with u l mem show False by blast
  qed
qed

lemma parse_loop_parsed:
  assumes "parse_loop stack s = Ok (c, rest)" and "\<forall>v \<in> set stack. parsed_value v"
  shows "tc_name c \<in> set command_verbs \<and> (\<forall>v \<in> set (tc_args c). parsed_value v)
    \<and> (\<exists>t. s = t @ [NL] @ rest)"
  using assms
proof (induction stack s rule: parse_loop.induct)
  case (1 stack s)
  from "1.prems"(1) obtain raw r where r: "read_string NL s = Some (raw, r)"
    by (subst (asm) parse_loop.simps) (auto split: option.splits)
  then obtain l where raw: "raw = l @ [NL]" "NL \<notin> set l" "s = l @ [NL] @ r"
    by (auto simp: read_string_eq_cut cut_Some_iff)
  have val: "parsed_value v" if "parse_text_value (trim_space raw) = Ok v" for v
    using that raw NL_notin_trim_right by (auto intro: parse_text_value_parsed)
  have rest: "\<exists>t. s = t @ [NL] @ rest" if "\<exists>t. r = t @ [NL] @ rest"
    using that raw(3) by (metis append.assoc)
  have here: "\<exists>t. s = t @ [NL] @ r" using raw(3) by blast
  show ?case
    using "1.prems" "1.IH" [OF r refl refl] val rest here
    by (subst (asm) parse_loop.simps)
      (auto simp: r Let_def resolve_command_def split: if_splits outcome.splits)
qed

text \<open>C33: every command the text parser returns has one of the known verbs, its arguments are values
  of the protocol (integers of 64 bits, strings within one line), and it ends with a newline.\<close>

theorem parse_command_wellformed:
  assumes "parse_command p = Ok (c, p')"
  shows "tc_name c \<in> set command_verbs \<and> (\<forall>v \<in> set (tc_args c). parsed_value v)
    \<and> (\<exists>t. tp_reader p = t @ [NL] @ tp_reader p')"
  using assms parse_loop_parsed [of "[]" "tp_reader p"]
  by (auto simp: parse_command_def outcome_iff)

theorem parse_command_wellformed_witness:
  "''status'' \<in> set command_verbs \<and> parsed_value (zero_value\<lparr>v_type := TypeInt, v_int := 7\<rparr>)"
proof -
  let ?v = "zero_value\<lparr>v_type := TypeInt, v_int := 7\<rparr>"
  have "line_value ?v" and "render_value ?v = ''7''" by code_simp+
  then have "parse_command \<lparr>tp_reader = ''7'' @ [NL] @ ''status'' @ [NL], tp_header = ''TXT'', tp_version = ''01''\<rparr>
    = Ok (\<lparr>tc_name = ''status'', tc_args = [?v]\<rparr>, \<lparr>tp_reader = [], tp_header = ''TXT'', tp_version = ''01''\<rparr>)"
    using parse_loop_command [of "[?v]" "''status''" "[]" "[]"]
    by (simp add: parse_command_def command_verbs_def)
  from parse_command_wellformed [OF this] show ?thesis by simp
qed

section \<open>An unterminated last line\<close>

fun extend_rest :: "string \<Rightarrow> (txt_err, txt_command \<times> string) outcome \<Rightarrow> (txt_err, txt_command \<times> string) outcome" where
  "extend_rest t (Ok (c, rest)) = Ok (c, rest @ t)"
| "extend_rest t r = r"

lemma parse_loop_fragment:
  assumes "NL \<notin> set frag"
  shows "parse_loop stack (s @ frag) = extend_rest frag (parse_loop stack s)"
proof (induction stack s rule: parse_loop.induct)
  case (1 stack s)
  show ?case
  proof (cases "read_string NL s")
    case None
    then have "read_string NL (s @ frag) = None"
      using assms by (simp add: read_string_None_iff)
    with None show ?thesis by (simp add: parse_loop.simps [of stack])
  next
    case (Some lr)
    obtain raw r where lr: "lr = (raw, r)" by (cases lr)
    with Some have e: "read_string NL (s @ frag) = Some (raw, r @ frag)"
      by (simp add: read_string_extend)
    show ?thesis
      using "1.IH" [OF Some lr [symmetric] refl]
      by (auto simp: parse_loop.simps [of stack] Some e lr Let_def split: outcome.splits)
  qed
qed

text \<open>bytes after the last newline have no effect: \<open>ReadAllCommands\<close> reads the same commands with
  or without them. In particular a command sent without its newline is never executed.\<close>

theorem unterminated_line_ignored:
  assumes "NL \<notin> set frag"
  shows "read_all_commands (p\<lparr>tp_reader := s @ frag\<rparr>) = read_all_commands (p\<lparr>tp_reader := s\<rparr>)
    \<and> read_all_commands (p\<lparr>tp_reader := frag\<rparr>) = Ok []"
proof (intro conjI)
  show "read_all_commands (p\<lparr>tp_reader := s @ frag\<rparr>) = read_all_commands (p\<lparr>tp_reader := s\<rparr>)" for s
  proof (induction s rule: length_induct)
    case (1 s)
    show ?case
    proof (cases "parse_loop [] s")
      case (Ok cr)
      obtain c r where cr: "cr = (c, r)" by (cases cr)
      with Ok have less: "length r < length s" by (simp add: parse_loop_length)
      have "read_all_commands (p\<lparr>tp_reader := r @ frag\<rparr>) = read_all_commands (p\<lparr>tp_reader := r\<rparr>)"
        using 1 less by blast
      with Ok cr show ?thesis
        by (simp add: read_all_commands.simps [of "p\<lparr>tp_reader := s @ frag\<rparr>"]
            read_all_commands.simps [of "p\<lparr>tp_reader := s\<rparr>"]
            parse_command_def parse_loop_fragment [OF assms])
    qed (simp_all add: read_all_commands.simps [of "p\<lparr>tp_reader := s @ frag\<rparr>"]
        read_all_commands.simps [of "p\<lparr>tp_reader := s\<rparr>"]
        parse_command_def parse_loop_fragment [OF assms])
  qed
  from this [of "[]"] show "read_all_commands (p\<lparr>tp_reader := frag\<rparr>) = Ok []"
    by (simp add: read_all_commands.simps [of "p\<lparr>tp_reader := []\<rparr>"] parse_command_def
        parse_loop.simps)
qed

theorem unterminated_line_ignored_witness:
  "read_all_commands \<lparr>tp_reader = ''shutdown'', tp_header = ''TXT'', tp_version = ''01''\<rparr> = Ok []"
  using unterminated_line_ignored [where frag = "''shutdown''"
      and p = "\<lparr>tp_reader = [], tp_header = ''TXT'', tp_version = ''01''\<rparr>"]
  by simp

section \<open>Responses can be taken apart\<close>

lemma first_line_unique:
  assumes "l @ NL # x = l' @ NL # x'" and "NL \<notin> set l" and "NL \<notin> set l'"
  shows "l = l' \<and> x = x'"
proof -
  have "cut NL (l @ NL # x) = Some (l, x)" and "cut NL (l' @ NL # x') = Some (l', x')"
    using assms(2,3) by (simp_all add: cut_Some_iff)
  then have "Some (l, x) = Some (l', x')" unfolding assms(1) by (rule subst)
  then show ?thesis by simp
qed

definition attr_block :: "string list \<Rightarrow> string" where
  "attr_block ls = concat (map (\<lambda>l. l @ [NL]) ls)"

definition plain_lines :: "string list \<Rightarrow> bool" where
  "plain_lines ls \<longleftrightarrow> (\<forall>l \<in> set ls. l \<noteq> [] \<and> NL \<notin> set l)"

lemma attr_block_inject:
  assumes "attr_block ls @ NL # r = attr_block ls' @ NL # r'" and "plain_lines ls" and "plain_lines ls'"
  shows "ls = ls' \<and> r = r'"
  using assms
proof (induction ls arbitrary: ls')
  case Nil
  then show ?case by (cases ls'; cases "hd ls'") (auto simp: attr_block_def plain_lines_def)
next
  case (Cons l ls)
  show ?case
  proof (cases ls')
    case Nil
    with Cons.prems show ?thesis by (cases l) (auto simp: attr_block_def plain_lines_def)
  next
    case (Cons l' ks)
    with Cons.prems have "l @ NL # (attr_block ls @ NL # r) = l' @ NL # (attr_block ks @ NL # r')"
      by (simp add: attr_block_def)
    moreover have nl: "NL \<notin> set l" "NL \<notin> set l'" "plain_lines ls" "plain_lines ks"
      using Cons.prems(2,3) Cons by (simp_all add: plain_lines_def)
    ultimately have eq: "l = l' \<and> attr_block ls @ NL # r = attr_block ks @ NL # r'"
      by (intro first_line_unique)
    have "ls = ks \<and> r = r'"
      by (rule Cons.IH [OF conjunct2 [OF eq] nl(3,4)])
    then show ?thesis using eq Cons by blast
  qed
qed

lemma attr_block_ends:
  assumes "ls \<noteq> []"
  shows "has_suffix (attr_block ls) [NL]"
proof -
  obtain ks l where "ls = ks @ [l]" using assms by (cases ls rule: rev_cases) auto
  then have "attr_block ls = (attr_block ks @ l) @ [NL]" by (simp add: attr_block_def)
  then show ?thesis by (simp only: has_suffix_append)
qed

lemma attr_block_empty: "attr_block ls = [] \<longleftrightarrow> ls = []"
  by (cases ls) (simp_all add: attr_block_def)

lemma format_ok_with_body_lines:
  assumes "\<not> has_suffix body [NL]"
  shows "format_ok_with_body (attr_block ls) body
    = show_int TxtCodeOK @ '' OK'' @ [NL] @ attr_block ls @ NL
        # (if body \<noteq> [] then ''body:'' @ [NL] @ body @ [NL] else []) @ [NL]"
  using assms attr_block_ends [of ls] attr_block_empty [of ls]
  by (auto simp: format_ok_with_body_def)

text \<open>an OK response determines the attribute lines and the body it was built from (attribute
  lines not empty, body without a trailing newline), and it ends with the two newlines that end a
  response.\<close>

theorem ok_response_unambiguous:
  assumes "format_ok_with_body (attr_block ls) body = format_ok_with_body (attr_block ls') body'"
    and "plain_lines ls" and "plain_lines ls'"
    and "\<not> has_suffix body [NL]" and "\<not> has_suffix body' [NL]"
  shows "ls = ls' \<and> body = body' \<and> has_suffix (format_ok_with_body (attr_block ls) body) [NL, NL]"
proof (intro conjI)
  let ?b = "\<lambda>body. (if body \<noteq> [] then ''body:'' @ [NL] @ body @ [NL] else []) @ [NL]"
  have "attr_block ls @ NL # ?b body = attr_block ls' @ NL # ?b body'"
    using assms(1) unfolding format_ok_with_body_lines [OF assms(4)] format_ok_with_body_lines [OF assms(5)]
    by simp
  then have "ls = ls' \<and> ?b body = ?b body'"
    using assms(2,3) by (rule attr_block_inject)
  then show "ls = ls'" and "body = body'"
    by (auto split: if_splits)
  show "has_suffix (format_ok_with_body (attr_block ls) body) [NL, NL]"
  proof (cases "body = []")
    case True
    then have "format_ok_with_body (attr_block ls) body
        = (show_int TxtCodeOK @ '' OK'' @ [NL] @ attr_block ls) @ [NL, NL]"
      using assms(4) by (simp add: format_ok_with_body_lines)
    then show ?thesis by (simp only: has_suffix_append)
  next
    case False
    then have "format_ok_with_body (attr_block ls) body
        = (show_int TxtCodeOK @ '' OK'' @ [NL] @ attr_block ls @ [NL] @ ''body:'' @ [NL] @ body) @ [NL, NL]"
      using assms(4) by (simp add: format_ok_with_body_lines)
    then show ?thesis by (simp only: has_suffix_append)
  qed
qed

theorem ok_response_unambiguous_witness:
  "has_suffix (format_ok_with_body (attr_block [''cmd: stop'', ''status: 0'']) ''x'') [NL, NL]"
  using ok_response_unambiguous [of "[''cmd: stop'', ''status: 0'']" "''x''"
      "[''cmd: stop'', ''status: 0'']" "''x''"]
  by (simp add: plain_lines_def has_suffix_def)

end
