(* ===== verification/Server_Commands.thy ===== *)
theory Server_Commands
  imports Server_Front Txt_Protocol
begin

text \<open>
  What the commands of the management protocol do: the two protocols agree, no command breaks the
  invariant or panics, and the outcome of stop, start and restart in the daemon, its restart policy
  and its feature.
\<close>

section \<open>The abstract commands\<close>

definition feature_ready :: "server \<Rightarrow> string \<Rightarrow> bool option" where
  "feature_ready s name =
     (case s_features s of None \<Rightarrow> None | Some r \<Rightarrow> map_option f_ready (get_feature r name))"

lemma feature_ready_mark:
  "feature_ready (mark_ready name b s) k =
     (if k = name then map_option (\<lambda>_. b) (feature_ready s name) else feature_ready s k)"
  by (cases "s_features s") (auto simp: feature_ready_def mark_ready_def set_ready_def
      features.lookup_modify option.map_comp o_def)

lemma feature_ready_manager [simp]: "feature_ready (s\<lparr>s_manager := m\<rparr>) k = feature_ready s k"
  by (simp add: feature_ready_def)

lemma mark_ready_manager [simp]: "s_manager (mark_ready name b s) = s_manager s"
  by (simp add: mark_ready_def)

text \<open>A daemon after a stop that returned no error.\<close>

lemma stopped_daemon:
  assumes "dm_get m n = Some d" and "dm_stop env n m = (m', None)"
  shows "\<exists>d'. dm_get m' n = Some d' \<and> idle d' \<and> d_config d' = d_config d \<and> start_gate d' = Proceed"
  using stop_cases [OF assms]
proof (elim disjE conjE exE)
  assume "idle d" "m' = m"
  with assms(1) show ?thesis
    by (intro exI [of _ d]) (cases "d_state d"; simp add: idle_def start_gate_def)
next
  fix t assume "dm_get m' n = Some (cleanup_daemon t d)"
  then show ?thesis by (simp add: idle_def start_gate_def cleanup_daemon_def)
qed simp

lemma serve_stop:
  assumes "dm_get (s_manager s) n = Some d" and "serve env Stop (Some n) s = (s', e)"
  shows "(e = None \<longrightarrow> (\<exists>d'. dm_get (s_manager s') n = Some d' \<and> idle d'
            \<and> d_config d' = (d_config d)\<lparr>dc_restart := RestartDisabled\<rparr>)
          \<and> feature_ready s' n = map_option (\<lambda>_. False) (feature_ready s n))
    \<and> (e \<noteq> None \<longrightarrow> dm_get (s_manager s') n = Some d \<and> feature_ready s' n = feature_ready s n)
    \<and> (\<forall>k. k \<noteq> n \<longrightarrow> dm_get (s_manager s') k = dm_get (s_manager s) k \<and> feature_ready s' k = feature_ready s k)"
proof -
  obtain m1 r where st: "dm_stop (daemon_ctx env s) n (s_manager s) = (m1, r)" by fastforce
  have other: "dm_get m1 k = dm_get (s_manager s) k" if "k \<noteq> n" for k
    using stops.op_other [OF that, of "daemon_ctx env s" "s_manager s"] st by simp
  show ?thesis
  proof (cases r)
    case None
    with stopped_daemon [OF assms(1)] st obtain d' where
      "dm_get m1 n = Some d'" "idle d'" "d_config d' = d_config d" by blast
    with None st assms other show ?thesis
      by (auto simp: serve_def serve_daemon_def feature_ready_mark dm_get_modify set_restart_policy_def idle_def)
  next
    case (Some x)
    with stop_cases [OF assms(1) st] have "dm_get m1 n = Some d" by auto
    with Some st assms other show ?thesis
      by (auto simp: serve_def serve_daemon_def)
  qed
qed

lemma serve_start:
  assumes "server_ok s" and "dm_get (s_manager s) n = Some d" and "serve env Start (Some n) s = (s', None)"
  shows "\<exists>d'. dm_get (s_manager s') n = Some d' \<and> d_state d' = DaemonRunning \<and> d_config d' = d_config d
    \<and> feature_ready s' n = map_option (\<lambda>_. True) (feature_ready s n)"
proof -
  obtain m1 r where st: "dm_start (daemon_ctx env s) n (s_manager s) = (m1, r)" by fastforce
  with assms have r: "r = None" and s': "s' = mark_ready n True (s\<lparr>s_manager := m1\<rparr>)"
    by (auto simp: serve_def serve_daemon_def split: option.splits)
  have "dm_inv (s_manager s)" using assms(1) by (simp add: server_ok_def)
  from start_success_running [OF this st [unfolded r]] obtain d' where
    d': "dm_get m1 n = Some d'" "d_state d' = DaemonRunning" by blast
  with start_cases [OF assms(2) st] assms(2) have "d_config d' = d_config d"
    by (auto simp: set_state_def record_process_def)
  with d' s' show ?thesis by (simp add: feature_ready_mark)
qed

text \<open>Restart: stop first; when that worked, start passes its guard.\<close>

lemma serve_restart:
  assumes "dm_get (s_manager s) n = Some d" and "serve env Restart (Some n) s = (s', e)"
  shows "s_features s' = s_features s
    \<and> (e = None \<longrightarrow> (\<exists>d' pid es. dm_get (s_manager s') n = Some d' \<and> d_state d' = DaemonRunning
         \<and> d_cmd d' = Some pid \<and> d_config d' = d_config d
         \<and> dm_trace (s_manager s') = dm_trace (s_manager s) @ es @ [Spawned n pid, MonitorLaunched n]))"
proof -
  let ?ctx = "daemon_ctx env s"
  obtain m1 r1 where st: "dm_stop ?ctx n (s_manager s) = (m1, r1)" by fastforce
  obtain m2 r2 where sta: "dm_start ?ctx n m1 = (m2, r2)" by fastforce
  have feat: "s_features s' = s_features s"
    using assms by (auto simp: serve_def serve_daemon_def st sta split: option.splits)
  have "\<exists>d' pid es. dm_get (s_manager s') n = Some d' \<and> d_state d' = DaemonRunning
         \<and> d_cmd d' = Some pid \<and> d_config d' = d_config d
         \<and> dm_trace (s_manager s') = dm_trace (s_manager s) @ es @ [Spawned n pid, MonitorLaunched n]"
    if "e = None"
  proof -
    from that assms have r: "r1 = None" "r2 = None" and s': "s' = s\<lparr>s_manager := m2\<rparr>"
      by (auto simp: serve_def serve_daemon_def st sta split: option.splits)
    from stopped_daemon [OF assms(1) st [unfolded r]] obtain d1 where
      d1: "dm_get m1 n = Some d1" "d_config d1 = d_config d" "start_gate d1 = Proceed" by blast
    obtain es where es: "dm_trace m1 = dm_trace (s_manager s) @ es"
      using stop_touches [of n "s_manager s" ?ctx] st by (auto simp: touches_only_def)
    from start_cases [OF d1(1) sta] d1 es s' r show ?thesis
      by (auto simp: set_state_def record_process_def)
  qed
  with feat show ?thesis by blast
qed

section \<open>A server to evaluate on\<close>

definition demo_server :: server where
  "demo_server =
     \<lparr>s_manager = fst (dm_start demo_env ''bus'' demo), s_pm = Some demo_pm,
      s_features = Some (set_ready ''bus'' True (register ''bus'' ''0.0.0'' [] new_registry)),
      s_cancelled = False\<rparr>"

definition demo_senv :: server_env where
  "demo_senv = \<lparr>se_daemons = demo_env, se_programs = demo_penv\<rparr>"

definition bin_request :: "byte \<Rightarrow> string \<Rightarrow> bin_command" where
  "bin_request code name = \<lparr>bc_code = code, bc_attrs = Some [''name'' \<mapsto> VStr name], bc_data = []\<rparr>"

definition txt_request :: "string \<Rightarrow> string \<Rightarrow> txt_command" where
  "txt_request v name = \<lparr>tc_name = v, tc_args = [zero_value\<lparr>v_type := TypeString, v_str := name\<rparr>]\<rparr>"

lemma bin_request_simps [simp]:
  "bc_code (bin_request code n) = code" "n \<noteq> [] \<Longrightarrow> bin_name (bin_request code n) = Some n"
  by (simp_all add: bin_request_def bin_name_def bin_attr_name_def bin_attr_def bin_attr_value_def)

lemma txt_request_simps [simp]:
  "tc_name (txt_request v n) = v" "arg_name (txt_request v n) = Some n"
  by (simp_all add: txt_request_def arg_name_def)

lemma bin_verb_codes [simp]: "bin_verb (bin_request (verb_code v) n) = Some v"
  by (cases v) (simp_all add: bin_verb_def verbs_def bin_consts)

lemma txt_verb_names [simp]: "txt_verb (txt_request (verb_text v) n) = Some v"
  by (cases v) (simp_all add: txt_verb_def verbs_def)

lemma demo_bus:
  "dm_get (s_manager demo_server) ''bus'' =
     Some (set_state DaemonRunning (record_process 101 1 (set_state DaemonStarting (new_daemon bus_config))))"
  by (simp add: demo_server_def demo_start_bus dm_get_modify demo_simps)

lemma demo_server_ok: "server_ok demo_server"
  using start_inv [OF demo_inv, of demo_env "''bus''"] new_manager_pm_inv [of demo_programs 1]
  by (simp add: server_ok_def demo_server_def demo_pm_def registry_ok_set_ready registry_ok_register
      registry_ok_new)

lemma demo_serve_stop: "snd (serve demo_senv Stop (Some ''bus'') demo_server) = None"
proof -
  have "stop_wait (e_alive demo_env 101) (e_cancelled demo_env) (e_lag demo_env) 1 = (Exited, 1)"
    by (rule stop_wait_dead) (simp add: demo_simps)
  moreover have "dm_clock (s_manager demo_server) = 1"
    by (simp add: demo_server_def demo_start_bus demo_simps)
  ultimately show ?thesis
    using demo_bus by (simp add: serve_def serve_daemon_def daemon_ctx_def demo_server_def demo_senv_def
        dm_stop_def set_state_def record_process_def)
qed

section \<open>Properties\<close>



text \<open>C14: Every command of either protocol, in any order and any number, is answered: no handler panics, the
  invariants of the daemons, the programs and the features are kept, there is one response per command,
  and commands that are not one of the six that act leave the state as it is.\<close>

theorem server_serves_all_commands:
  assumes "server_ok s"
  shows "(\<exists>s' rs. text_front.run env s cs = Ok (s', rs) \<and> server_ok s' \<and> length rs = length cs)
    \<and> (\<exists>s' rs. bin_front.run env s bs = Ok (s', rs) \<and> server_ok s' \<and> length rs = length bs)
    \<and> (\<forall>c. txt_verb c = None \<longrightarrow> (\<exists>r. dispatch env s c = Ok (s, r)))
    \<and> (\<forall>b. bin_verb b = None \<longrightarrow> (\<exists>r. dispatch_bin env s b = Ok (s, r)))"
  using text_front.run_total [OF assms, of env cs] bin_front.run_total [OF assms, of env bs]
    text_front.reads [OF _ assms] bin_front.reads [OF _ assms] by blast

theorem server_serves_all_commands_witness:
  "\<exists>s' rs. bin_front.run demo_senv demo_server [bin_request CmdStop ''bus'', bin_request CmdLogs ''bus'']
     = Ok (s', rs) \<and> server_ok s' \<and> length rs = Suc (Suc 0)"
  using server_serves_all_commands [OF demo_server_ok, of demo_senv "[]"
      "[bin_request CmdStop ''bus'', bin_request CmdLogs ''bus'']"] by simp

text \<open>A start command once the policy is disabled.\<close>

lemma start_after_stop:
  assumes "server_ok s'" and "dm_get (s_manager s') n = Some d'" and "dc_restart (d_config d') = RestartDisabled"
    and "bin_verb b = Some Start" and "bin_name b = Some n" and "dispatch_bin env s' b = Ok (s'', r')"
    and "bin_failure r' = None"
  shows "(\<exists>d''. dm_get (s_manager s'') n = Some d'' \<and> d_state d'' = DaemonRunning
        \<and> dc_restart (d_config d'') = RestartDisabled)
      \<and> feature_ready s'' n = map_option (\<lambda>_. True) (feature_ready s' n)"
proof -
  have "serve env Start (Some n) s' = (s'', None)"
    using bin_front.handled [OF assms(6,4)] assms(5,7) by (metis prod.collapse)
  from serve_start [OF assms(1,2) this] assms(3) show ?thesis by auto
qed

text \<open>C24: A stop command that reports success leaves the daemon neither running nor starting, under the
  policy "disabled", for which the monitor never restarts it, and its feature not ready; one that
  reports an error leaves the daemon and its feature as they were. Other daemons and features are
  untouched. A start command afterwards makes the feature ready again, but the policy stays disabled:
  the configured restart policy is never put back.\<close>

theorem stop_command_outcome:
  assumes "server_ok s" and "bin_verb c = Some Stop" and "bin_name c = Some n"
    and "dm_get (s_manager s) n = Some d" and "dispatch_bin env s c = Ok (s', r)"
  shows "(bin_failure r = None \<longrightarrow>
        (\<exists>d'. dm_get (s_manager s') n = Some d' \<and> idle d' \<and> dc_restart (d_config d') = RestartDisabled
          \<and> (\<forall>count failed. \<not> should_restart count (dc_restart (d_config d')) failed))
        \<and> feature_ready s' n = map_option (\<lambda>_. False) (feature_ready s n)
        \<and> (\<forall>b s'' r'. bin_verb b = Some Start \<and> bin_name b = Some n \<and> dispatch_bin env s' b = Ok (s'', r')
            \<and> bin_failure r' = None \<longrightarrow>
              (\<exists>d''. dm_get (s_manager s'') n = Some d'' \<and> d_state d'' = DaemonRunning
                \<and> dc_restart (d_config d'') = RestartDisabled)
              \<and> feature_ready s'' n = map_option (\<lambda>_. True) (feature_ready s n)))
    \<and> (bin_failure r \<noteq> None \<longrightarrow>
        dm_get (s_manager s') n = Some d \<and> feature_ready s' n = feature_ready s n)
    \<and> (\<forall>k. k \<noteq> n \<longrightarrow> dm_get (s_manager s') k = dm_get (s_manager s) k
        \<and> feature_ready s' k = feature_ready s k)"
proof -
  from bin_front.handled [OF assms(5,2)] assms(3) have s':
    "serve env Stop (Some n) s = (s', bin_failure r)" by (metis prod.collapse)
  note stop = serve_stop [OF assms(4) s']
  have ok': "server_ok s'" using serve_ok [OF assms(1), of env Stop "Some n"] s' by simp
  have never: "\<not> should_restart count RestartDisabled failed" for count failed
    by (simp add: should_restart_def policy_names)
  show ?thesis
  proof (intro conjI impI allI)
    assume r: "bin_failure r = None"
    then obtain d' where d': "dm_get (s_manager s') n = Some d'" "idle d'"
        "d_config d' = (d_config d)\<lparr>dc_restart := RestartDisabled\<rparr>"
      using stop by blast
    then show "\<exists>d'. dm_get (s_manager s') n = Some d' \<and> idle d' \<and> dc_restart (d_config d') = RestartDisabled
        \<and> (\<forall>count failed. \<not> should_restart count (dc_restart (d_config d')) failed)"
      using never by simp
    show ready: "feature_ready s' n = map_option (\<lambda>_. False) (feature_ready s n)" using stop r by blast
    fix b s'' r'
    assume "bin_verb b = Some Start \<and> bin_name b = Some n \<and> dispatch_bin env s' b = Ok (s'', r') \<and> bin_failure r' = None"
    with start_after_stop [OF ok' d'(1), of b env s'' r'] d'(3) ready show
      "\<exists>d''. dm_get (s_manager s'') n = Some d'' \<and> d_state d'' = DaemonRunning \<and> dc_restart (d_config d'') = RestartDisabled"
      "feature_ready s'' n = map_option (\<lambda>_. True) (feature_ready s n)"
      by (auto simp: option.map_comp o_def)
  qed (use stop in blast)+
qed

theorem stop_command_outcome_witness:
  "\<exists>s' r. dispatch_bin demo_senv demo_server (bin_request CmdStop ''bus'') = Ok (s', r)
     \<and> feature_ready s' ''bus'' = Some False
     \<and> (\<exists>d'. dm_get (s_manager s') ''bus'' = Some d' \<and> idle d' \<and> dc_restart (d_config d') = RestartDisabled)"
proof -
  let ?c = "bin_request CmdStop ''bus''"
  have v: "bin_verb ?c = Some Stop" using bin_verb_codes [of Stop "''bus''"] by simp
  obtain s' r where d: "dispatch_bin demo_senv demo_server ?c = Ok (s', r)"
      "bin_failure r = snd (serve demo_senv Stop (Some ''bus'') demo_server)"
    using bin_front.refines [OF v, of demo_senv demo_server] by auto
  then have ok: "bin_failure r = None" using demo_serve_stop by simp
  have "feature_ready demo_server ''bus'' = Some True"
    by (simp add: feature_ready_def demo_server_def set_ready_def register_def features.lookup_modify
        features.lookup_put)
  with stop_command_outcome [OF demo_server_ok v _ demo_bus d(1)] ok d(1) show ?thesis by auto
qed

text \<open>Restart never looks at the features: whatever comes of it, every feature keeps its flag. When it
  succeeds, the daemon runs as a newly spawned process under its old policy, so a daemon that was
  stopped and is then restarted runs while its feature stays marked as not ready; when its start
  fails, a feature that was ready stays ready.\<close>

theorem restart_command_outcome:
  assumes "bin_verb c = Some Restart" and "bin_name c = Some n"
    and "dm_get (s_manager s) n = Some d" and "dispatch_bin env s c = Ok (s', r)"
  shows "s_features s' = s_features s
    \<and> (bin_failure r = None \<longrightarrow> (\<exists>d' pid es. dm_get (s_manager s') n = Some d'
         \<and> d_state d' = DaemonRunning \<and> d_cmd d' = Some pid \<and> d_config d' = d_config d
         \<and> dm_trace (s_manager s') = dm_trace (s_manager s) @ es @ [Spawned n pid, MonitorLaunched n]))"
proof -
  have "serve env Restart (Some n) s = (s', bin_failure r)"
    using bin_front.handled [OF assms(4,1)] assms(2) by (metis prod.collapse)
  from serve_restart [OF assms(3) this] show ?thesis .
qed

theorem restart_command_outcome_witness:
  "\<exists>s' r. dispatch_bin demo_senv demo_server (bin_request CmdRestart ''bus'') = Ok (s', r)
     \<and> s_features s' = s_features demo_server"
proof -
  let ?c = "bin_request CmdRestart ''bus''"
  have v: "bin_verb ?c = Some Restart" using bin_verb_codes [of Restart "''bus''"] by simp
  obtain s' r where d: "dispatch_bin demo_senv demo_server ?c = Ok (s', r)"
    using bin_front.refines [OF v, of demo_senv demo_server] by auto
  from restart_command_outcome [OF v _ demo_bus d] d show ?thesis by simp
qed

text \<open>The text parser accepts five verbs the dispatcher does not know. Every command it parses either
  is one of the twelve the server handles or one of these, which get the answer "unknown command" and
  change nothing.\<close>

definition unserved_verbs :: "string list" where
  "unserved_verbs = [''list'', ''reload'', ''help'', ''version'', ''quit'']"

lemma dispatch_known:
  assumes "tc_name c \<in> set command_verbs" and "tc_name c \<notin> set unserved_verbs" and "dispatch env s c = Ok (s', r)"
  shows "r \<noteq> TxtFail (UnknownCommand x)"
proof -
  have fail: "txt_failure r = None \<or> (\<exists>v. txt_verb c = Some v \<and> txt_failure r = snd (serve env v (arg_name c) s))
      \<or> r \<in> {TxtFail NoRegistry, TxtFail NoProgramManager}
      \<or> (\<exists>v n. r = TxtFail (RequiresName v) \<or> r = TxtFail (DaemonUnknown n) \<or> r = TxtFail (ProgramUnknown n))"
  proof (cases "txt_verb c")
    case (Some v)
    then show ?thesis using text_front.handled [OF assms(3) Some] by blast
  next
    case None
    then have "tc_name c \<in> {''list-daemons'', ''status'', ''list-features'', ''logs'', ''prog-list'', ''prog-status''}"
      using assms(1,2) by (auto simp: txt_verb_def verbs_def command_verbs_def unserved_verbs_def)
    with assms(3) show ?thesis
      by (auto simp: dispatch_def handle_list_daemons_def handle_status_def handle_list_features_def
          handle_logs_def handle_list_programs_def handle_program_status_def txt_failure_def Let_def
          outcome_iff split: option.splits)
  qed
  have ne: "snd (serve env v nm s) \<noteq> Some (UnknownCommand x)" for v nm
    by (auto simp: serve_simps split: option.split prod.split)
  from fail have "txt_failure r \<noteq> Some (UnknownCommand x)"
  proof (elim disjE exE conjE)
    fix v assume "txt_failure r = snd (serve env v (arg_name c) s)"
    then show ?thesis using ne by simp
  qed (auto simp: txt_failure_def)
  then show ?thesis by (auto simp: txt_failure_def)
qed

theorem unserved_verbs_get_an_error:
  assumes "parse_command p = Ok (c, p')" and "server_ok s"
  shows "\<exists>s' r. dispatch env s c = Ok (s', r)
    \<and> (r = TxtFail (UnknownCommand (tc_name c)) \<longleftrightarrow> tc_name c \<in> set unserved_verbs)
    \<and> (tc_name c \<in> set unserved_verbs \<longrightarrow> s' = s)"
proof -
  have verb: "tc_name c \<in> set command_verbs"
    using assms(1) parse_loop_parsed [of "[]" "tp_reader p"]
    by (auto simp: parse_command_def outcome_iff)
  obtain s' r where d: "dispatch env s c = Ok (s', r)"
    using text_front.handle_total [OF assms(2), of env c] by blast
  have "dispatch env s c = Ok (s, TxtFail (UnknownCommand (tc_name c)))" if "tc_name c \<in> set unserved_verbs"
    using that by (auto simp: unserved_verbs_def dispatch_def)
  with d dispatch_known [OF verb _ d] show ?thesis by fastforce
qed

theorem unserved_verbs_get_an_error_witness:
  "\<exists>s' r. dispatch demo_senv demo_server \<lparr>tc_name = ''help'', tc_args = []\<rparr> = Ok (s', r)
     \<and> r = TxtFail (UnknownCommand ''help'') \<and> s' = demo_server"
proof -
  have "parse_command \<lparr>tp_reader = ''help'' @ NL # [], tp_header = ''TXT'', tp_version = ''01''\<rparr>
      = Ok (\<lparr>tc_name = ''help'', tc_args = []\<rparr>, \<lparr>tp_reader = [], tp_header = ''TXT'', tp_version = ''01''\<rparr>)"
    using parse_loop_verb [of "''help''" "[]" "[]"]
    by (simp add: parse_command_def command_verbs_def)
  from unserved_verbs_get_an_error [OF this demo_server_ok, of demo_senv] show ?thesis
    by (simp add: unserved_verbs_def)
qed

end
