(* ===== verification/Bin_Roundtrip.thy ===== *)
theory Bin_Roundtrip
  imports Bin_Parser
begin

text \<open>
  What the BIN01 protocol promises: a command the writer emits is read back as it was given,
  with the rest of the stream untouched; reading does not look past the command it returns;
  a truncated command is never taken for a whole one; and the only inputs on which the parser
  panics are attribute frames with a key length of 65534 or 65535.
\<close>

section \<open>Frames\<close>

text \<open>The bound below which a length survives the 32-bit length field.\<close>

abbreviation fits32 :: "nat \<Rightarrow> bool" where
  "fits32 n \<equiv> n < 2 ^ 32"

lemma unat_of_nat32: "fits32 n \<Longrightarrow> unat (of_nat n :: 32 word) = n"
  by (simp add: unat_of_nat take_bit_nat_eq_self)

lemma read_write_frame:
  assumes "fits32 (length payload)"
  shows "read_frame (write_frame ft payload @ rest) = Ok (ft, payload, rest)"
proof -
  let ?len = "put_uint32 (of_nat (length payload))"
  have "read_full 5 (write_frame ft payload @ rest) = Ok (ft # ?len, payload @ rest)"
    by (simp add: write_frame_def outcome_iff u32le.enc_width)
  moreover have "get_uint32 (take 4 ?len) = of_nat (length payload)"
    using u32le.dec_take_enc [of "of_nat (length payload)" "[]"] by simp
  ultimately show ?thesis
    using assms by (auto simp: read_frame_def unat_of_nat32 Let_def)
qed

lemma read_frame_extend:
  assumes "read_frame s = Ok (ft, payload, rest)"
  shows "read_frame (s @ t) = Ok (ft, payload, rest @ t)"
proof -
  obtain header s1 where h: "read_full 5 s = Ok (header, s1)"
    using assms by (cases "read_full 5 s") (auto simp: read_frame_def)
  let ?n = "unat (get_uint32 (take 4 (drop 1 header)))"
  show ?thesis
  proof (cases "?n > 0")
    case True
    with assms h have "read_full ?n s1 = Ok (payload, rest)" and "ft = header ! 0"
      by (cases "read_full ?n s1"; auto simp: read_frame_def Let_def)+
    then show ?thesis
      using True read_full_extend [OF h] by (simp add: read_frame_def Let_def read_full_extend)
  next
    case False
    then show ?thesis
      using assms h read_full_extend [OF h] by (simp add: read_frame_def Let_def)
  qed
qed

lemma read_frame_not_Panic [simp]: "read_frame s \<noteq> Panic"
  by (auto simp: read_frame_def outcome_iff Let_def split: if_splits)

lemma read_frame_payload_fits: "read_frame s = Ok (ft, payload, rest) \<Longrightarrow> fits32 (length payload)"
  using unat_bound32
  by (auto simp: read_frame_def outcome_iff Let_def split: if_splits)

section \<open>Values and attributes\<close>

fun decoded :: "go_value \<Rightarrow> bin_value" where
  "decoded (GString s) = VStr s"
| "decoded (GInt64 v) = VInt v"
| "decoded (GInt v) = VInt v"
| "decoded (GBool b) = VBool b"
| "decoded (GBytes v) = VBlob v"
| "decoded (GOther text) = VStr text"

lemma unat_plus_4:
  assumes "unat (n :: 32 word) + 4 \<le> k" and "fits32 k"
  shows "unat (4 + n) = unat n + 4"
  using assms by (subst unat_plus_if_size) (auto simp: word_size)

lemma slice_length_prefixed:
  assumes "n = length xs" and "fits32 (n + 4)"
  shows "go_slice (put_uint32 (of_nat n) @ xs) 4 (unat (4 + of_nat n :: 32 word)) = Ok xs"
proof -
  have "unat (4 + of_nat n :: 32 word) = n + 4"
    using unat_plus_4 [of "of_nat n" "n + 4"] assms by (simp add: unat_of_nat32)
  then show ?thesis
    using assms by (simp add: u32le.enc_width)
qed

lemmas value_codec_simps =
  parse_value_def bin_consts encode_str_def encode_int_def encode_bool_def encode_blob_def Let_def
  u32le.enc_width u32le.dec_enc u64le.enc_width u64le.dec_enc

lemma parse_encode_value:
  assumes "fits32 (length (encode_value v))"
  shows "\<exists>t data. encode_value v = t # data \<and> parse_value t data = Ok (decoded v)"
proof -
  have str: "parse_value ValSTR (put_uint32 (of_nat (length s)) @ bytes_of_string s) = Ok (VStr s)"
    if "fits32 (length (encode_str s))" for s
    using that by (simp add: value_codec_simps unat_of_nat32 slice_length_prefixed)
  have blob: "parse_value ValBLOB (put_uint32 (of_nat (length b)) @ b) = Ok (VBlob b)"
    if "fits32 (length (encode_blob b))" for b
    using that by (simp add: value_codec_simps unat_of_nat32 slice_length_prefixed)
  have int: "parse_value ValINT (put_uint64 w) = Ok (VInt w)" for w
    by (simp add: value_codec_simps)
  have bool: "parse_value ValBOOL [if b then 1 else 0] = Ok (VBool b)" for b
    by (simp add: value_codec_simps)
  show ?thesis
    using assms str blob int bool
    by (cases v) (simp_all add: encode_str_def encode_int_def encode_bool_def encode_blob_def)
qed

text \<open>An attribute the protocol can carry: the key is short enough that \<open>2+keyLen\<close> does not wrap
  at 16 bits, and the payload fits its frame.\<close>

definition sendable :: "string \<times> go_value \<Rightarrow> bool" where
  "sendable kv \<longleftrightarrow> length (fst kv) < 65534 \<and> fits32 (length (encode_attr (fst kv) (snd kv)))"

lemma encode_value_nonempty: "encode_value v \<noteq> []"
  by (cases v) (simp_all add: encode_str_def encode_int_def encode_bool_def encode_blob_def)

lemma unat_key_len:
  assumes "n < 65534"
  shows "unat (of_nat n :: 16 word) = n" and "unat (2 + of_nat n :: 16 word) = n + 2"
proof -
  show n: "unat (of_nat n :: 16 word) = n"
    using assms by (simp add: unat_of_nat take_bit_nat_eq_self)
  show "unat (2 + of_nat n :: 16 word) = n + 2"
    using n assms by (subst unat_plus_if_size) (auto simp: word_size)
qed

lemma parse_encode_attr:
  assumes "sendable (key, v)"
  shows "parse_attr (encode_attr key v) = Ok (key, decoded v)"
proof -
  let ?k = "of_nat (length key) :: 16 word"
  let ?p = "put_key_len ?k @ bytes_of_string key @ encode_value v"
  have p: "encode_attr key v = ?p"
    by (simp add: encode_attr_def)
  from assms have short: "length key < 65534" and fits: "fits32 (length ?p)"
    by (simp_all add: sendable_def p)
  obtain t data where tv: "encode_value v = t # data" "parse_value t data = Ok (decoded v)"
    using parse_encode_value [of v] fits by (auto simp: u16be.enc_width)
  have "go_slice ?p 2 (length key + 2) = Ok (bytes_of_string key)"
    and "go_slice ?p (length key + 2) (length ?p) = Ok (encode_value v)"
    by (simp_all add: u16be.enc_width)
  then show ?thesis
    using tv unat_key_len [OF short]
    by (simp add: p parse_attr_def get_key_len_append Let_def u16be.enc_width)
qed

section \<open>Round trip of a command\<close>

lemma read_loop_CMD:
  "read_loop cmd attrs data (write_frame FrameCMD [code] @ rest) = read_loop (Some code) attrs data rest"
  by (subst read_loop.simps) (simp add: read_write_frame)

lemma read_loop_ATTR:
  assumes "sendable (key, v)"
  shows "read_loop cmd attrs data (write_frame FrameATTR (encode_attr key v) @ rest)
       = read_loop cmd (Some ((case attrs of None \<Rightarrow> Map.empty | Some m \<Rightarrow> m)(key \<mapsto> decoded v))) data rest"
  using assms parse_encode_attr [OF assms]
  by (subst read_loop.simps) (simp add: read_write_frame sendable_def bin_consts Let_def)

lemma read_loop_DATA:
  "fits32 (length payload) \<Longrightarrow> read_loop cmd attrs data (write_frame FrameDATA payload @ rest)
     = read_loop cmd attrs (data @ payload) rest"
  by (subst read_loop.simps) (simp add: read_write_frame bin_consts)

lemma read_loop_END:
  "read_loop (Some code) attrs data (write_frame FrameEND [] @ rest)
     = Ok (\<lparr>bc_code = code, bc_attrs = attrs, bc_data = data\<rparr>, rest)"
  by (subst read_loop.simps) (simp add: read_write_frame bin_consts)

lemma read_loop_attrs:
  assumes "\<forall>kv \<in> set kvs. sendable kv"
  shows "read_loop cmd attrs data
           (concat (map (\<lambda>(k, v). write_frame FrameATTR (encode_attr k v)) kvs) @ rest)
       = read_loop cmd
           (if kvs = [] then attrs
            else Some (foldl (\<lambda>m (k, v). m(k \<mapsto> decoded v))
              (case attrs of None \<Rightarrow> Map.empty | Some m \<Rightarrow> m) kvs)) data rest"
  using assms
proof (induction kvs arbitrary: attrs)
  case Nil
  then show ?case by simp
next
  case (Cons kv kvs)
  obtain k v where kv: "kv = (k, v)" by (cases kv)
  with Cons.prems have "sendable (k, v)" by simp
  from read_loop_ATTR [OF this] Cons kv show ?case by simp
qed

lemma foldl_updates_map_of:
  "distinct (map fst kvs) \<Longrightarrow>
     foldl (\<lambda>m (k, v). m(k \<mapsto> f v)) m kvs = m ++ map_of (map (\<lambda>(k, v). (k, f v)) kvs)"
proof (induction kvs arbitrary: m)
  case Nil
  then show ?case by simp
next
  case (Cons kv kvs)
  obtain k v where kv: "kv = (k, v)" by (cases kv)
  let ?step = "\<lambda>m (k, v). m(k \<mapsto> f v)" and ?M = "map_of (map (\<lambda>(k, v). (k, f v)) kvs)"
  have fresh: "k \<notin> dom ?M"
    using Cons.prems kv by (auto simp: dom_map_of_conv_image_fst image_iff)
  have "foldl ?step m (kv # kvs) = foldl ?step (m(k \<mapsto> f v)) kvs"
    by (simp add: kv)
  also have "\<dots> = m(k \<mapsto> f v) ++ ?M"
    using Cons.prems by (intro Cons.IH) simp
  also have "\<dots> = (m ++ ?M)(k \<mapsto> f v)"
    using fresh by (rule map_add_upd_left)
  also have "\<dots> = m ++ map_of (map (\<lambda>(k, v). (k, f v)) (kv # kvs))"
    by (simp only: kv list.map prod.case map_of.simps fst_conv snd_conv map_add_upd)
  finally show ?case .
qed

text \<open>The command a reader is meant to see.\<close>

definition command_of :: "byte \<Rightarrow> go_value go_map \<Rightarrow> bytes \<Rightarrow> bin_command" where
  "command_of code attrs data =
     \<lparr>bc_code = code,
      bc_attrs = (if attrs = [] then None else Some (map_of (map (\<lambda>(k, v). (k, decoded v)) attrs))),
      bc_data = data\<rparr>"

lemma read_loop_write_command:
  assumes "go_map_ok attrs" and "\<forall>kv \<in> set attrs. sendable kv" and "fits32 (length data)"
  shows "read_loop None None [] (write_command code attrs data @ rest)
       = Ok (command_of code attrs data, rest)"
proof -
  have map: "foldl (\<lambda>m (k, v). m(k \<mapsto> decoded v)) Map.empty attrs
      = map_of (map (\<lambda>(k, v). (k, decoded v)) attrs)"
    using assms(1) foldl_updates_map_of [of attrs decoded Map.empty] by (simp add: go_map_ok_def)
  show ?thesis
    using read_loop_attrs [OF assms(2)] assms(3) map
    by (simp add: write_command_def command_of_def read_loop_CMD read_loop_DATA read_loop_END)
qed

text \<open>C15: reading what \<open>WriteCommand\<close> wrote gives the command back, whatever order the attribute map
  was ranged over and whatever follows on the stream, which is left where the command ended.\<close>

theorem command_roundtrip:
  assumes "go_map_ok attrs" and "\<forall>kv \<in> set attrs. sendable kv" and "length data < 2 ^ 32"
  shows "read_command (write_command code attrs data @ rest) = Ok (command_of code attrs data, rest)"
  unfolding read_command_def using assms by (rule read_loop_write_command)

theorem command_roundtrip_witness:
  "read_command (write_command CmdLogs [(''name'', GString ''a-lancxo''), (''lines'', GInt64 100)] [] @ [7, 7])
   = Ok (command_of CmdLogs [(''name'', GString ''a-lancxo''), (''lines'', GInt64 100)] [], [7, 7])"
proof (rule command_roundtrip)
  show "go_map_ok [(''name'', GString ''a-lancxo''), (''lines'', GInt64 100)]"
    by (simp add: go_map_ok_def)
  show "\<forall>kv \<in> set [(''name'', GString ''a-lancxo''), (''lines'', GInt64 100)]. sendable kv"
    by (simp add: sendable_def encode_attr_def encode_str_def encode_int_def Let_def
        u16be.enc_width u32le.enc_width u64le.enc_width)
qed simp

section \<open>Reading a stream\<close>

lemma read_loop_extend:
  "read_loop cmd attrs data s = Ok (c, rest) \<Longrightarrow> read_loop cmd attrs data (s @ t) = Ok (c, rest @ t)"
proof (induction cmd attrs data s arbitrary: c rest rule: read_loop.induct)
  case (1 cmd attrs data s)
  from "1.prems" obtain ft payload r where f: "read_frame s = Ok (ft, payload, r)"
    by (subst (asm) read_loop.simps) (auto split: outcome.splits)
  note f' = read_frame_extend [OF f, of t]
  show ?case
    using "1.prems" "1.IH" [OF f refl refl]
    by (subst read_loop.simps, subst (asm) read_loop.simps)
      (auto simp: f f' Let_def bin_consts split: if_splits list.splits option.splits outcome.splits prod.splits)
qed

text \<open>what follows a command on the stream does not change how it is read: a command read from
  \<open>s\<close> is read from every stream that starts with \<open>s\<close>, with the extra bytes left unread.\<close>

theorem read_command_extend:
  assumes "read_command s = Ok (c, rest)"
  shows "read_command (s @ t) = Ok (c, rest @ t)"
  using assms unfolding read_command_def by (rule read_loop_extend)

text \<open>a command cut short is never taken for a whole one: no proper prefix of the bytes
  \<open>WriteCommand\<close> emits is read as a command.\<close>

theorem truncated_command_rejected:
  assumes "go_map_ok attrs" and "\<forall>kv \<in> set attrs. sendable kv" and "length data < 2 ^ 32"
    and "write_command code attrs data = p @ q" and "q \<noteq> []"
  shows "\<nexists>c rest. read_command p = Ok (c, rest)"
proof
  assume "\<exists>c rest. read_command p = Ok (c, rest)"
  then obtain c rest where "read_command p = Ok (c, rest)" by blast
  then have "read_loop None None [] (p @ q) = Ok (c, rest @ q)"
    unfolding read_command_def by (rule read_loop_extend)
  moreover have "read_loop None None [] (p @ q) = Ok (command_of code attrs data, [])"
    using read_loop_write_command [OF assms(1-3), of code "[]"] assms(4) by simp
  ultimately show False using assms(5) by simp
qed


text \<open>One command and a proper prefix of it, for both theorems.\<close>

lemma status_command_bytes:
  "write_command CmdStatus [] [] = [1, 1, 0, 0, 0, 2] @ [4, 0, 0, 0, 0]"
  by (simp add: write_command_def write_frame_def bin_consts put_uint32_def numeral_eq_Suc)

theorem read_command_extend_witness:
  "read_command ([1, 1, 0, 0, 0, 2, 4, 0, 0, 0, 0] @ [9]) = Ok (command_of CmdStatus [] [], [] @ [9])"
proof (rule read_command_extend)
  show "read_command [1, 1, 0, 0, 0, 2, 4, 0, 0, 0, 0] = Ok (command_of CmdStatus [] [], [])"
    using read_loop_write_command [of "[]" "[]" CmdStatus "[]"] status_command_bytes
    by (simp add: read_command_def)
qed

theorem truncated_command_rejected_witness:
  "\<nexists>c rest. read_command [1, 1, 0, 0, 0, 2] = Ok (c, rest)"
  by (rule truncated_command_rejected [OF _ _ _ status_command_bytes]) simp_all

section \<open>Panics\<close>

lemma parse_value_not_Panic: "fits32 (length data) \<Longrightarrow> parse_value t data \<noteq> Panic"
  using unat_plus_4 [where k = "length data"]
  by (auto simp: parse_value_def Let_def outcome_iff not_less)

lemma unat_key_len_wraps:
  fixes k :: "16 word"
  assumes "65534 \<le> unat k"
  shows "unat (2 + k) < 2"
  using assms unat_bound16 [of k] by (subst unat_plus_if_size) (auto simp: word_size)

lemma unat_key_len_plus_2:
  fixes k :: "16 word"
  assumes "unat k < 65534"
  shows "unat (2 + k) = unat k + 2"
  using assms by (subst unat_plus_if_size) (auto simp: word_size)

lemma parse_attr_Panic_iff:
  assumes "fits32 (length payload)"
  shows "parse_attr payload = Panic
    \<longleftrightarrow> 65534 \<le> unat (get_key_len payload) \<and> unat (get_key_len payload) + 2 \<le> length payload"
proof (cases "65534 \<le> unat (get_key_len payload)")
  case True
  then show ?thesis
    using unat_key_len_wraps [OF True]
    by (auto simp: parse_attr_def Let_def outcome_iff not_less)
next
  case False
  then have k: "unat (2 + get_key_len payload) = unat (get_key_len payload) + 2"
    by (intro unat_key_len_plus_2) simp
  have "parse_value t d \<noteq> Panic" if "length d \<le> length payload" for t d
    using parse_value_not_Panic [of d t] that assms by simp
  then show ?thesis
    using False by (auto simp: parse_attr_def Let_def outcome_iff k not_less)
qed

text \<open>an attribute payload makes \<open>parseAttr\<close> panic exactly when its key length is 65534 or 65535
  and the payload is long enough to pass the length check: \<open>2+keyLen\<close> wraps at 16 bits and the
  slice bounds come out reversed.\<close>

theorem parse_attr_panics_iff:
  assumes "length payload < 2 ^ 32"
  shows "parse_attr payload = Panic
    \<longleftrightarrow> 65534 \<le> unat (get_key_len payload) \<and> unat (get_key_len payload) + 2 \<le> length payload"
  using assms by (rule parse_attr_Panic_iff)

text \<open>The shortest attribute frame that panics: a key length of 65534 and that many bytes.\<close>

definition long_key_payload :: bytes where
  "long_key_payload = put_key_len 65534 @ replicate 65534 0"

lemma long_key_payload_facts:
  "length long_key_payload = 65536" "get_key_len long_key_payload = 65534"
  by (simp_all add: long_key_payload_def u16be.enc_width get_key_len_append)

theorem parse_attr_panics_iff_witness: "parse_attr long_key_payload = Panic"
  using parse_attr_panics_iff [of long_key_payload] by (simp add: long_key_payload_facts)

lemma read_loop_Panic: "read_loop cmd attrs data s = Panic \<Longrightarrow> 65541 \<le> length s"
proof (induction cmd attrs data s rule: read_loop.induct)
  case (1 cmd attrs data s)
  from "1.prems" obtain ft payload r where f: "read_frame s = Ok (ft, payload, r)"
    by (subst (asm) read_loop.simps) (auto split: outcome.splits)
  note len = read_frame_length [OF f] and fits = read_frame_payload_fits [OF f]
  have IH: "65541 \<le> length s" if "65541 \<le> length r"
    using that len by simp
  have attr: "65541 \<le> length s" if "parse_attr payload = Panic"
    using that len parse_attr_Panic_iff [OF fits] by simp
  show ?case
    using "1.prems" "1.IH" [OF f refl refl] IH attr
    by (subst (asm) read_loop.simps)
      (auto simp: f Let_def bin_consts split: if_splits list.splits option.splits outcome.splits prod.splits)
qed

text \<open>No stream shorter than 65541 bytes makes \<open>ReadCommand\<close> panic, and 65541 bytes are enough:
  one attribute frame with a key of 65534 bytes.\<close>

theorem read_command_panic_bound:
  "(length s < 65541 \<longrightarrow> read_command s \<noteq> Panic)
   \<and> length (write_frame FrameATTR long_key_payload) = 65541
   \<and> read_command (write_frame FrameATTR long_key_payload) = Panic"
proof (intro conjI impI)
  show "read_command s \<noteq> Panic" if "length s < 65541"
    using that read_loop_Panic [of None None "[]" s] by (auto simp: read_command_def)
  show "length (write_frame FrameATTR long_key_payload) = 65541"
    by (simp add: write_frame_def u32le.enc_width long_key_payload_facts)
  have "parse_attr long_key_payload = Panic"
    by (simp add: parse_attr_Panic_iff long_key_payload_facts)
  then show "read_command (write_frame FrameATTR long_key_payload) = Panic"
    using read_write_frame [of long_key_payload FrameATTR "[]"]
    by (simp add: read_command_def read_loop.simps [where s = "write_frame _ _"]
        long_key_payload_facts bin_consts Let_def)
qed

theorem read_command_panic_bound_witness: "read_command [4, 0, 0, 0, 0] \<noteq> Panic"
  using read_command_panic_bound [of "[4, 0, 0, 0, 0]"] by simp

end
