(* ===== verification/Server_Connection.thy ===== *)
theory Server_Connection
  imports Server_Commands Bin_Roundtrip
begin

text \<open>
  One connection of the management server: \<open>handleConnection\<close>, \<open>handleBinConnection\<close> and
  \<open>bytesReader\<close> of \<open>internal/server/server.go\<close>. The peer sends the bytes \<open>conn\<close> and closes its side;
  \<open>w i\<close> says whether the \<open>i\<close>-th write to it succeeds. A connection ends closed, or with a panic (which
  is one of the whole program), or it never ends and is still reading.
\<close>

section \<open>The loops\<close>

datatype event =
    BinAck
  | BinResponse bin_reply
  | BinParseFailed bin_err
  | TxtResponse txt_reply
  | TxtHeaderFailed txt_err
  | TxtFifthByteFailed io_err
  | TxtParseFailed txt_err

datatype conn_end = Closed | Crashed | StillReading | EndOfText

lemma read_loop_shorter: "read_loop cmd attrs data s = Ok (c, rest) \<Longrightarrow> length rest < length s"
proof (induction cmd attrs data s rule: read_loop.induct)
  case (1 cmd attrs data s)
  from "1.prems" obtain ft payload r where f: "read_frame s = Ok (ft, payload, r)"
    by (subst (asm) read_loop.simps) (auto split: outcome.splits)
  note len = read_frame_length [OF f]
  from "1.prems" "1.IH" [OF f refl refl] len show ?case
    by (subst (asm) read_loop.simps)
      (fastforce simp: f Let_def split: if_splits list.splits outcome.splits option.splits)
qed

text \<open>\<open>handleBinConnection\<close>; \<open>i\<close> counts the writes.\<close>

function bin_loop ::
  "server_env \<Rightarrow> (nat \<Rightarrow> bool) \<Rightarrow> nat \<Rightarrow> server \<Rightarrow> bytes \<Rightarrow> server \<times> event list \<times> conn_end" where
  "bin_loop env w i s conn =
     (case read_command conn of
        Panic \<Rightarrow> (s, [], Crashed)
      | Err e \<Rightarrow> (s, if e = ReadErr EOF \<or> \<not> w i then [] else [BinParseFailed e], Closed)
      | Ok (cmd, rest) \<Rightarrow>
          (case dispatch_bin env s cmd of
             Ok (s1, r) \<Rightarrow>
               if bc_code cmd = CmdShutdown then (s1, if w i then [BinResponse r] else [], Closed)
               else if \<not> w i then (s1, [], Closed)
               else let (s2, es, ending) = bin_loop env w (Suc i) s1 rest
                    in (s2, BinResponse r # es, ending)
           | _ \<Rightarrow> (s, [], Crashed)))"
  by pat_completeness auto
termination
  by (relation "measure (\<lambda>(env, w, i, s, conn). length conn)")
    (auto simp: read_command_def dest: read_loop_shorter)

declare bin_loop.simps [simp del]

text \<open>The loop of the text mode over what the parser's reader delivers, up to the end of that text.\<close>

function text_loop ::
  "server_env \<Rightarrow> (nat \<Rightarrow> bool) \<Rightarrow> nat \<Rightarrow> server \<Rightarrow> txt_parser \<Rightarrow> server \<times> event list \<times> conn_end" where
  "text_loop env w i s p =
     (case parse_command p of
        Panic \<Rightarrow> (s, [], Crashed)
      | Err e \<Rightarrow> if e = TxtEOF then (s, [], EndOfText)
                 else (s, if w i then [TxtParseFailed e] else [], Closed)
      | Ok (cmd, p') \<Rightarrow>
          (case dispatch env s cmd of
             Ok (s1, r) \<Rightarrow>
               if \<not> w i then (s1, [], Closed)
               else if tc_name cmd = ''shutdown'' then (s1, [TxtResponse r], Closed)
               else let (s2, es, ending) = text_loop env w (Suc i) s1 p'
                    in (s2, TxtResponse r # es, ending)
           | _ \<Rightarrow> (s, [], Crashed)))"
  by pat_completeness auto
termination
  by (relation "measure (\<lambda>(env, w, i, s, p). length (tp_reader p))")
    (auto simp: parse_command_def outcome_iff dest: parse_loop_length)

declare text_loop.simps [simp del]

section \<open>The reader of the text mode\<close>

text \<open>\<open>bytesReader.Read\<close> into a buffer of \<open>n\<close> bytes: it returns a copy of its first bytes and leaves
  the receiver, which it has by value, as it is.\<close>

definition bytes_reader_read :: "string \<Rightarrow> nat \<Rightarrow> (io_err, string) outcome" where
  "bytes_reader_read b n = (if b = [] then Err EOF else Ok (take n b))"

text \<open>What \<open>io.MultiReader(bytesReader(header), conn)\<close> delivers to reads into buffers of the given
  sizes: it passes on what the first reader returns until that reader reports \<open>io.EOF\<close>.\<close>

fun multi_reader :: "string \<Rightarrow> string \<Rightarrow> nat list \<Rightarrow> string" where
  "multi_reader header conn [] = []"
| "multi_reader header conn (n # ns) =
     (case bytes_reader_read header n of
        Ok xs \<Rightarrow> xs @ multi_reader header conn ns
      | _ \<Rightarrow> take n conn @ multi_reader [] (drop n conn) ns)"

section \<open>The connection\<close>

text \<open>\<open>handleConnection\<close>, followed for as many reads of the text parser as \<open>sizes\<close> has elements; when
  they do not decide what happens it is still reading.\<close>

definition handle_connection ::
  "server_env \<Rightarrow> (nat \<Rightarrow> bool) \<Rightarrow> nat list \<Rightarrow> server \<Rightarrow> string \<Rightarrow> server \<times> event list \<times> conn_end" where
  "handle_connection env w sizes s conn =
     (case read_full 4 conn of
        Ok (magic, rest) \<Rightarrow>
          if magic = ''BIN1'' then
            (if \<not> w 0 then (s, [], Closed)
             else let (s1, es, ending) = bin_loop env w 1 s (bytes_of_string rest)
                  in (s1, BinAck # es, ending))
          else
            (case read_full 1 rest of
               Ok (fifthByte, rest') \<Rightarrow>
                 let delivered = multi_reader (magic @ fifthByte) rest' sizes
                 in if length delivered < 5 then (s, [], StillReading)
                    else (case new_parser delivered of
                            Ok p \<Rightarrow>
                              (case text_loop env w 0 s p of
                                 (s1, es, ending) \<Rightarrow>
                                   (s1, es, if ending = EndOfText then StillReading else ending))
                          | Err e \<Rightarrow> (s, if w 0 then [TxtHeaderFailed e] else [], Closed)
                          | Panic \<Rightarrow> (s, [], Crashed))
             | Err e \<Rightarrow> (s, if w 0 then [TxtFifthByteFailed e] else [], Closed)
             | Panic \<Rightarrow> (s, [], Crashed))
      | Err e \<Rightarrow> (s, [], Closed)
      | Panic \<Rightarrow> (s, [], Crashed))"

section \<open>The text mode\<close>

lemma multi_reader_header:
  "header \<noteq> [] \<Longrightarrow> multi_reader header conn ns = concat (map (\<lambda>n. take n header) ns)"
  by (induction ns) (simp_all add: bytes_reader_read_def)

lemma trim_with_all: "trim_with rs s = [] \<Longrightarrow> set s \<subseteq> \<Union> (set ` set rs)"
proof (induction rs s rule: trim_with.induct)
  case (1 rs s)
  show ?case
  proof (cases "List.find (\<lambda>r. r \<noteq> [] \<and> has_prefix s r) rs")
    case None
    then have "trim_with rs s = s" by (subst trim_with.simps) simp
    with 1(2) show ?thesis by simp
  next
    case (Some r)
    then have r: "r \<in> set rs" "has_prefix s r" by (auto simp: find_Some_iff)
    then obtain t where t: "s = r @ t" by (auto simp: has_prefix_append_iff)
    have "trim_with rs (drop (length r) s) = []"
      using 1(2) Some by (subst (asm) trim_with.simps) simp
    from 1(1) [OF Some this] t r show ?thesis by auto
  qed
qed

lemma T_not_space: "r \<in> set space_runes \<Longrightarrow> CHR ''T'' \<notin> set r"
proof -
  have "\<forall>r \<in> set space_runes. CHR ''T'' \<notin> set r" by code_simp
  then show "r \<in> set space_runes \<Longrightarrow> CHR ''T'' \<notin> set r" by blast
qed

lemma trim_space_T: "\<exists>u. trim_space (CHR ''T'' # s) = CHR ''T'' # u"
proof -
  have "\<not> has_prefix (CHR ''T'' # s) r" if "r \<in> set space_runes" for r
    using T_not_space [OF that] that space_runes_nonempty
    by (cases r) (auto simp: has_prefix_def)
  then have left: "trim_left (CHR ''T'' # s) = CHR ''T'' # s"
    unfolding trim_left_def by (intro trim_with_id)
  let ?t = "trim_with (map rev space_runes) (rev (CHR ''T'' # s))"
  obtain pre where pre: "rev (CHR ''T'' # s) = pre @ ?t"
    using trim_with_suffix by blast
  have "?t \<noteq> []"
    using trim_with_all [of "map rev space_runes" "rev (CHR ''T'' # s)"] T_not_space by auto
  then obtain ts x where t: "?t = ts @ [x]" by (cases ?t rule: rev_cases) auto
  with pre have "CHR ''T'' # s = x # rev ts @ rev pre"
    by (metis append.assoc rev_append rev_rev_ident rev_singleton_conv append_Cons append_Nil)
  then have "x = CHR ''T''" by simp
  with t show ?thesis by (simp add: trim_space_def left trim_right_def)
qed

text \<open>A line that begins with T is neither a verb nor a value.\<close>

lemma T_line:
  "resolve_command (CHR ''T'' # u) = []" "parse_text_value (CHR ''T'' # u) = Err (TxtParse (CHR ''T'' # u))"
proof -
  have "\<forall>v \<in> set command_verbs. hd v \<noteq> CHR ''T''" by code_simp
  then show "resolve_command (CHR ''T'' # u) = []" by (auto simp: resolve_command_def)
  have "digit_val CHR ''T'' = None" by code_simp
  then have "go_parse_int (CHR ''T'' # u) = None" by (simp add: go_parse_int_def has_prefix_def)
  then show "parse_text_value (CHR ''T'' # u) = Err (TxtParse (CHR ''T'' # u))"
    by (simp add: parse_text_value_def has_prefix_def)
qed

lemma parse_loop_T:
  assumes "s = [] \<or> hd s = CHR ''T''"
  shows "NL \<notin> set s \<and> parse_loop stack s = Err TxtEOF
    \<or> NL \<in> set s \<and> (\<exists>l. parse_loop stack s = Err (TxtParse l))"
proof (cases "read_string NL s")
  case None
  then have "NL \<notin> set s" by (simp add: read_string_None_iff)
  with None show ?thesis by (simp add: parse_loop.simps [of stack])
next
  case (Some lr)
  obtain raw rest where lr: "lr = (raw, rest)" by (cases lr)
  have nl: "NL \<in> set s" using Some read_string_None_iff [of NL s] by auto
  then have "s \<noteq> []" by auto
  obtain k where k: "s = k @ NL # rest" "raw = k @ [NL]" "NL \<notin> set k"
    using Some lr by (auto simp: read_string_eq_cut cut_Some_iff)
  have "k \<noteq> []" using assms \<open>s \<noteq> []\<close> k by auto
  then obtain k' where "raw = CHR ''T'' # k'" using k assms by (cases k) auto
  with trim_space_T [of k'] obtain u where u: "trim_space raw = CHR ''T'' # u" by auto
  then have "parse_loop stack s = Err (TxtParse (CHR ''T'' # u))"
    using Some lr T_line [of u] by (simp add: parse_loop.simps [of stack] has_prefix_def Let_def)
  with nl show ?thesis by blast
qed

lemma new_parser_eq:
  "5 \<le> length t \<Longrightarrow> new_parser t =
     (if take 3 t \<noteq> ''TXT'' then Err (TxtUnsupported (take 3 t))
      else Ok \<lparr>tp_reader = drop 5 t, tp_header = take 3 t, tp_version = drop 3 (take 5 t)\<rparr>)"
  by (simp add: new_parser_def read_full_def Let_def)

text \<open>What is delivered is the header, then beginnings of the header.\<close>

lemma delivered_header:
  assumes "length h = 5" and "5 \<le> n"
  shows "multi_reader h conn (n # ns) = h @ concat (map (\<lambda>n. take n h) ns)"
proof -
  have "h \<noteq> []" using assms(1) by auto
  with assms show ?thesis by (simp add: multi_reader_header bytes_reader_read_def)
qed

lemma prefixes_begin_T:
  assumes "take 3 h = ''TXT''"
  shows "concat (map (\<lambda>n. take n h) ns) = [] \<or> hd (concat (map (\<lambda>n. take n h) ns)) = CHR ''T''"
proof (induction ns)
  case (Cons n ns)
  obtain h' where "h = CHR ''T'' # h'" using assms by (cases h) auto
  with Cons show ?case by (cases n) auto
qed simp

lemma text_mode_stuck:
  assumes "5 \<le> length conn" and "take 4 conn \<noteq> ''BIN1''" and "5 \<le> n"
  shows "\<exists>es ending. handle_connection env w (n # ns) s conn = (s, es, ending)
    \<and> (\<forall>r. TxtResponse r \<notin> set es)
    \<and> (\<forall>extra. handle_connection env w (n # ns) s (take 5 conn @ extra) = (s, es, ending))
    \<and> (take 3 conn = ''TXT'' \<and> NL \<notin> set (take 5 conn) \<longrightarrow> es = [] \<and> ending = StillReading)"
proof -
  let ?h = "take 5 conn" and ?rest = "concat (map (\<lambda>n. take n (take 5 conn)) ns)"
  let ?p = "\<lparr>tp_reader = ?rest, tp_header = take 3 conn, tp_version = drop 3 ?h\<rparr>"
  let ?res = "if take 3 conn \<noteq> ''TXT'' then (s, if w 0 then [TxtHeaderFailed (TxtUnsupported (take 3 conn))] else [], Closed)
      else (case text_loop env w 0 s ?p of
              (s1, es, ending) \<Rightarrow> (s1, es, if ending = EndOfText then StillReading else ending))"
  have h: "length ?h = 5" using assms(1) by simp
  have five: "take 4 conn @ take 1 (drop 4 conn) = ?h"
    using take_add [of 4 1 conn] by simp
  have run: "handle_connection env w (n # ns) s c = ?res" if "take 5 c = ?h" "5 \<le> length c" for c
  proof -
    have c4: "take 4 c = take 4 conn"
      using arg_cong [OF that(1), of "take 4"] by simp
    have "take 1 (drop 4 c) = drop 4 (take 5 c)" "take 1 (drop 4 conn) = drop 4 ?h"
      by (simp_all add: drop_take)
    then have c1: "take 1 (drop 4 c) = take 1 (drop 4 conn)" using that(1) by simp
    have 1: "read_full 4 c = Ok (take 4 conn, drop 4 c)" using that(2) c4 by (simp add: read_full_def)
    have 2: "read_full 1 (drop 4 c) = Ok (take 1 (drop 4 conn), drop 5 c)"
      using that(2) c1 by (simp add: read_full_def add.commute)
    have d: "multi_reader ?h (drop 5 c) (n # ns) = ?h @ ?rest" by (rule delivered_header [OF h assms(3)])
    have len: "\<not> length (?h @ ?rest) < 5" using h by simp
    have np: "new_parser (?h @ ?rest) =
        (if take 3 conn \<noteq> ''TXT'' then Err (TxtUnsupported (take 3 conn)) else Ok ?p)"
      using h by (simp add: new_parser_eq)
    show ?thesis
      unfolding handle_connection_def 1 outcome.case prod.case if_not_P [OF assms(2)] 2 five Let_def d
        if_not_P [OF len] np
      by simp
  qed
  have here: "handle_connection env w (n # ns) s conn = ?res" by (rule run) (simp_all add: assms(1))
  have later: "handle_connection env w (n # ns) s (take 5 conn @ m) = ?res" for m
    using assms(1) by (intro run) simp_all
  have looped: "text_loop env w 0 s ?p = (s, [], EndOfText)
      \<or> NL \<in> set ?h \<and> (\<exists>l. text_loop env w 0 s ?p = (s, if w 0 then [TxtParseFailed (TxtParse l)] else [], Closed))"
    if "take 3 conn = ''TXT''"
  proof -
    have "take 3 ?h = ''TXT''" using that by simp
    from parse_loop_T [OF prefixes_begin_T [OF this, of ns], of "[]"] show ?thesis
    proof (elim disjE conjE exE)
      fix l assume nl: "NL \<in> set ?rest" and p: "parse_loop [] ?rest = Err (TxtParse l)"
      obtain x where "NL \<in> set (take x ?h)" using nl by fastforce
      then have "NL \<in> set ?h" by (rule in_set_takeD)
      with p show ?thesis by (auto simp: text_loop.simps [of env] parse_command_def)
    qed (simp add: text_loop.simps [of env] parse_command_def)
  qed
  show ?thesis
  proof (cases "take 3 conn = ''TXT''")
    case True
    with looped [OF True] here later show ?thesis by auto
  next
    case False
    with here later show ?thesis by auto
  qed
qed

text \<open>C2: The text mode never executes a command: whatever the peer sends after a first five bytes other
  than "BIN1", and however often the parser reads, the server's state stays as it is and no command is
  answered, since every read delivers the beginning of the five bytes again. Nothing after these bytes
  has an influence. A peer that sends "TXT01", as the client library does, makes the handler read for
  ever: it neither answers nor ends, and gathers an ever longer line.\<close>

theorem text_mode_never_executes:
  assumes "5 \<le> length conn" and "take 4 conn \<noteq> ''BIN1''" and "5 \<le> n"
  shows "\<exists>es ending. handle_connection env w (n # ns) s conn = (s, es, ending)
    \<and> (\<forall>r. TxtResponse r \<notin> set es)
    \<and> (\<forall>extra. handle_connection env w (n # ns) s (take 5 conn @ extra) = (s, es, ending))
    \<and> (take 3 conn = ''TXT'' \<and> NL \<notin> set (take 5 conn) \<longrightarrow> es = [] \<and> ending = StillReading)"
  using assms by (rule text_mode_stuck)

theorem text_mode_never_executes_witness:
  "handle_connection demo_senv (\<lambda>_. True) [4096, 4091, 4086] demo_server
     (''TXT01'' @ [NL] @ ''shutdown'' @ [NL]) = (demo_server, [], StillReading)"
  using text_mode_never_executes [of "''TXT01'' @ [NL] @ ''shutdown'' @ [NL]" 4096 demo_senv "\<lambda>_. True"
      "[4091, 4086]" demo_server] by auto

section \<open>The binary mode\<close>

type_synonym request = "byte \<times> go_value go_map \<times> bytes"

definition request_ok :: "request \<Rightarrow> bool" where
  "request_ok q = (case q of (code, attrs, data) \<Rightarrow>
     go_map_ok attrs \<and> (\<forall>kv \<in> set attrs. sendable kv) \<and> length data < 2 ^ 32)"

definition request_bytes :: "request \<Rightarrow> bytes" where
  "request_bytes q = (case q of (code, attrs, data) \<Rightarrow> write_command code attrs data)"

definition request_command :: "request \<Rightarrow> bin_command" where
  "request_command q = (case q of (code, attrs, data) \<Rightarrow> command_of code attrs data)"

lemma read_request: "request_ok q \<Longrightarrow> read_command (request_bytes q @ rest) = Ok (request_command q, rest)"
  by (auto simp: request_ok_def request_bytes_def request_command_def read_command_def
      read_loop_write_command)

lemma request_code: "bc_code (request_command q) = fst q"
  by (simp add: request_command_def command_of_def split: prod.split)

text \<open>Requests that are not the shutdown are answered one after the other.\<close>

lemma bin_loop_requests:
  assumes "\<forall>q \<in> set qs. request_ok q \<and> fst q \<noteq> CmdShutdown" and "\<And>i. w i" and "server_ok s"
    and "bin_front.run env s (map request_command qs) = Ok (s', rs)"
  shows "bin_loop env w i s (concat (map request_bytes qs) @ tail) =
    (case bin_loop env w (i + length qs) s' tail of
       (s'', es, ending) \<Rightarrow> (s'', map BinResponse rs @ es, ending))"
  using assms(1,3,4)
proof (induction qs arbitrary: i s rs)
  case (Cons q qs)
  obtain s1 r where d: "dispatch_bin env s (request_command q) = Ok (s1, r)" "server_ok s1"
    using bin_front.handle_total [OF Cons.prems(2)] by blast
  with Cons.prems(3) obtain rs' where
    rs': "bin_front.run env s1 (map request_command qs) = Ok (s', rs')" "rs = r # rs'"
    by (auto simp: outcome_iff)
  have c: "read_command (concat (map request_bytes (q # qs)) @ tail)
      = Ok (request_command q, concat (map request_bytes qs) @ tail)"
    using Cons.prems(1) by (simp add: read_request)
  have IH: "bin_loop env w (Suc i) s1 (concat (map request_bytes qs) @ tail) =
      (case bin_loop env w (Suc i + length qs) s' tail of
        (s'', es, ending) \<Rightarrow> (s'', map BinResponse rs' @ es, ending))"
    using Cons.IH [OF _ d(2) rs'(1), of "Suc i"] Cons.prems(1) by simp
  show ?case
    using c d Cons.prems(1) assms(2) rs'(2)
    by (subst bin_loop.simps) (simp add: request_code IH split: prod.split)
qed simp

lemma bin_magic:
  assumes "w 0"
  shows "handle_connection env w sizes s (''BIN1'' @ string_of_bytes bs) =
    (case bin_loop env w 1 s bs of (s1, es, ending) \<Rightarrow> (s1, BinAck # es, ending))"
proof -
  have "read_full 4 (''BIN1'' @ string_of_bytes bs) = Ok (''BIN1'', string_of_bytes bs)"
    by (rule read_full_append) simp
  with assms show ?thesis by (simp only: handle_connection_def) simp
qed

text \<open>C16: A binary connection answers its commands in order, each with what the handlers give for it, and the
  state is the one they leave; it ends when the peer closes its side, and at once after a shutdown
  command, whatever follows it.\<close>

theorem bin_connection_serves:
  assumes "\<forall>q \<in> set qs. request_ok q \<and> fst q \<noteq> CmdShutdown" and "\<And>i. w i" and "server_ok s"
  shows "\<exists>s' rs. bin_front.run env s (map request_command qs) = Ok (s', rs) \<and> length rs = length qs
    \<and> handle_connection env w sizes s (''BIN1'' @ string_of_bytes (concat (map request_bytes qs)))
        = (s', BinAck # map BinResponse rs, Closed)
    \<and> handle_connection env w sizes s
          (''BIN1'' @ string_of_bytes (concat (map request_bytes qs) @ request_bytes (CmdShutdown, [], []) @ extra))
        = (s'\<lparr>s_cancelled := True\<rparr>,
           BinAck # map BinResponse rs @ [BinResponse (BinText ''shutting down all daemons'')], Closed)"
proof -
  obtain s' rs where run: "bin_front.run env s (map request_command qs) = Ok (s', rs)" "length rs = length qs"
    using bin_front.run_total [OF assms(3), of env "map request_command qs"] by auto
  note loop = bin_loop_requests [where w = w and i = 1, OF assms(1) assms(2) assms(3) run(1)]
  note magic = bin_magic [of w, OF assms(2)]
  have closed: "bin_loop env w i s' [] = (s', [], Closed)" for i
    by (subst bin_loop.simps, subst read_command_def, subst read_loop.simps)
      (simp add: read_frame_def read_full_def)
  have ok: "request_ok (CmdShutdown, [], [])" by (simp add: request_ok_def)
  have "dispatch_bin env s' (request_command (CmdShutdown, [], []))
      = Ok (s'\<lparr>s_cancelled := True\<rparr>, BinText ''shutting down all daemons'')"
    by (simp add: dispatch_bin_def request_code handle_bin_shutdown_def bin_consts)
  then have "bin_loop env w i s' (request_bytes (CmdShutdown, [], []) @ extra)
      = (s'\<lparr>s_cancelled := True\<rparr>, [BinResponse (BinText ''shutting down all daemons'')], Closed)" for i
    using assms(2) by (subst bin_loop.simps) (simp add: read_request [OF ok] request_code)
  with run loop [where tail = "[]"] loop [where tail = "request_bytes (CmdShutdown, [], []) @ extra"] closed show ?thesis
    unfolding magic by simp
qed

theorem bin_connection_serves_witness:
  "\<exists>s' rs. handle_connection demo_senv (\<lambda>_. True) [] demo_server
     (''BIN1'' @ string_of_bytes (concat (map request_bytes [(CmdListDaemons, [], [])])))
     = (s', BinAck # map BinResponse rs, Closed) \<and> length rs = 1"
proof -
  have "\<forall>q \<in> set [(CmdListDaemons, [], [])]. request_ok q \<and> fst q \<noteq> CmdShutdown"
    by (simp add: request_ok_def bin_consts)
  from bin_connection_serves [OF this _ demo_server_ok, of "\<lambda>_. True" demo_senv "[]" "[]"]
  show ?thesis by auto
qed

text \<open>C35: One frame of 65541 bytes from any peer ends the whole program: after any commands, an attribute
  frame with a key length of 65534 makes the handler's goroutine panic, and nothing recovers from it.\<close>

theorem bin_connection_crashes_server:
  assumes "\<forall>q \<in> set qs. request_ok q \<and> fst q \<noteq> CmdShutdown" and "\<And>i. w i" and "server_ok s"
  shows "\<exists>s' es. handle_connection env w sizes s
      (''BIN1'' @ string_of_bytes (concat (map request_bytes qs) @ write_frame FrameATTR long_key_payload @ extra))
        = (s', BinAck # es, Crashed)"
proof -
  obtain s' rs where run: "bin_front.run env s (map request_command qs) = Ok (s', rs)"
    using bin_front.run_total [OF assms(3), of env "map request_command qs"] by auto
  note loop = bin_loop_requests [where w = w and i = 1, OF assms(1) assms(2) assms(3) run]
  have "parse_attr long_key_payload = Panic"
    using parse_attr_Panic_iff [of long_key_payload] by (simp add: long_key_payload_facts)
  then have "read_command (write_frame FrameATTR long_key_payload @ extra) = Panic"
    by (simp add: read_command_def read_loop.simps [of None] read_write_frame long_key_payload_facts
        bin_consts Let_def)
  then have "bin_loop env w i s' (write_frame FrameATTR long_key_payload @ extra) = (s', [], Crashed)" for i
    by (subst bin_loop.simps) simp
  with loop [where tail = "write_frame FrameATTR long_key_payload @ extra"] show ?thesis
    unfolding bin_magic [of w, OF assms(2)] by simp
qed

theorem bin_connection_crashes_server_witness:
  "\<exists>s' es. handle_connection demo_senv (\<lambda>_. True) [] demo_server
     (''BIN1'' @ string_of_bytes (write_frame FrameATTR long_key_payload)) = (s', BinAck # es, Crashed)"
  using bin_connection_crashes_server [OF _ _ demo_server_ok, of "[]" "\<lambda>_. True" demo_senv "[]" "[]"]
  by simp

section \<open>The text loop on its own\<close>

definition plain_command :: "txt_command \<Rightarrow> bool" where
  "plain_command c \<longleftrightarrow> (\<forall>v \<in> set (tc_args c). line_value v) \<and> tc_name c \<in> set command_verbs
     \<and> tc_name c \<noteq> ''shutdown''"

text \<open>The loop of the text mode is right where its reader delivers the commands: it answers them in
  order, each with what the handlers give for it, until the text ends.\<close>

theorem text_loop_serves:
  assumes "\<forall>c \<in> set cs. plain_command c" and "\<And>i. w i" and "server_ok s"
    and "tp_reader p = concat (map render_command cs)"
  shows "\<exists>s' rs. text_front.run env s cs = Ok (s', rs)
    \<and> text_loop env w i s p = (s', map TxtResponse rs, EndOfText)"
  using assms(1,3,4)
proof (induction cs arbitrary: i s p)
  case Nil
  then show ?case
    by (simp add: text_loop.simps [of env] parse_command_def parse_loop.simps [of "[]"])
next
  case (Cons c cs)
  let ?p = "p\<lparr>tp_reader := concat (map render_command cs)\<rparr>"
  obtain s1 r where d: "dispatch env s c = Ok (s1, r)" "server_ok s1"
    using text_front.handle_total [OF Cons.prems(2)] by blast
  have reader: "tp_reader p = concat (map (\<lambda>v. render_value v @ [NL]) (tc_args c)) @ tc_name c
      @ NL # concat (map render_command cs)"
    using Cons.prems(3) by (simp add: render_command_def [of c])
  have parse: "parse_command p = Ok (c, ?p)"
    unfolding parse_command_def reader
    using Cons.prems(1) by (simp add: parse_loop_command plain_command_def)
  obtain s' rs where IH: "text_front.run env s1 cs = Ok (s', rs)"
      "text_loop env w (Suc i) s1 ?p = (s', map TxtResponse rs, EndOfText)"
    using Cons.IH [OF _ d(2), of ?p "Suc i"] Cons.prems(1) by auto
  have "text_loop env w i s p = (s', map TxtResponse (r # rs), EndOfText)"
    using Cons.prems(1) assms(2) d IH(2) by (subst text_loop.simps) (simp add: parse plain_command_def)
  with d IH(1) show ?case by simp
qed

theorem text_loop_serves_witness:
  "\<exists>s' rs. text_loop demo_senv (\<lambda>_. True) 0 demo_server
     \<lparr>tp_reader = render_command (txt_request ''stop'' ''bus''), tp_header = ''TXT'', tp_version = ''01''\<rparr>
     = (s', map TxtResponse rs, EndOfText)"
proof -
  have "line_value (zero_value\<lparr>v_type := TypeString, v_str := ''bus''\<rparr>)" by code_simp
  then have "\<forall>c \<in> set [txt_request ''stop'' ''bus'']. plain_command c"
    by (simp add: plain_command_def txt_request_def command_verbs_def)
  from text_loop_serves [OF this _ demo_server_ok, of "\<lambda>_. True"
      "\<lparr>tp_reader = render_command (txt_request ''stop'' ''bus''), tp_header = ''TXT'', tp_version = ''01''\<rparr>"
      demo_senv 0]
  show ?thesis by auto
qed

end
