(* ===== verification/Session_WM.thy ===== *)
theory Session_WM
  imports Daemon_Manager
begin

text \<open>
  The session window manager: \<open>internal/sessionwm/manager.go\<close> and \<open>config.go\<close>. The state is the
  manager with the clock and the trace of effects. The monitor runs in a goroutine; \<open>meanwhile\<close> is
  what other goroutines do to the manager while it sleeps before a restart.
\<close>

section \<open>Configuration\<close>

record wm_config =
  wc_spec :: string
  wc_restart :: restart_policy

text \<open>\<open>parseRestartPolicy\<close>: an unknown policy is the empty string.\<close>

definition wm_parse_policy :: "string \<Rightarrow> restart_policy" where
  "wm_parse_policy raw =
     (if trim_space raw \<in> {RestartAlways, RestartOnFailure, RestartDisabled} then trim_space raw else [])"

text \<open>\<open>LoadConfig\<close>, given the environment and what \<open>kernocfg.Load\<close> returns from the file.\<close>

definition wm_load_config :: "(string \<Rightarrow> string) \<Rightarrow> string \<Rightarrow> string \<Rightarrow> wm_config" where
  "wm_load_config getenv file_run file_restart =
     (let spec0 = trim_space (getenv ''ADE_COMPOSITOR'');
          spec1 = (if spec0 = [] then trim_space (getenv ''ADE_WM'') else spec0);
          spec = (if spec1 = [] then file_run else spec1);
          restart0 = wm_parse_policy (getenv ''ADE_WM_RESTART'');
          restart1 = (if restart0 = [] then wm_parse_policy file_restart else restart0);
          restart = (if restart1 = [] then RestartAlways else restart1)
      in \<lparr>wc_spec = spec, wc_restart = restart\<rparr>)"

definition parse_spec :: "string \<Rightarrow> string list" where
  "parse_spec spec = (let fs = text_fields spec in if fs = [] then [] else fs)"

section \<open>The manager\<close>

datatype wm_state = StateIdle | StateStarting | StateRunning | StateStopping | StateStopped | StateFailed

datatype wm_effect = WmSpawned int | WmSignalled int signal | WmBackedOff duration

record wm =
  w_cfg :: wm_config
  w_state :: wm_state
  w_cmd :: "int option"
  w_pid :: int
  w_pgid :: int
  w_restart_count :: int
  w_stopping :: bool
  w_started_at :: time
  w_clock :: time
  w_trace :: "wm_effect list"

record wm_env =
  we_spawn :: "time \<Rightarrow> int option"
  we_alive :: "int \<Rightarrow> time \<Rightarrow> bool"
  we_cancelled :: "time \<Rightarrow> bool"
  we_lag :: "time \<Rightarrow> nat"
  we_ovf :: duration

datatype wm_error = EmptyCommand | WmSpawnFailed string | WmStopCancelled | WmNotConfigured

definition new_wm :: "wm_config \<Rightarrow> time \<Rightarrow> wm" where
  "new_wm cfg now =
     \<lparr>w_cfg = cfg, w_state = StateIdle, w_cmd = None, w_pid = 0, w_pgid = 0, w_restart_count = 0,
      w_stopping = False, w_started_at = 0, w_clock = now, w_trace = []\<rparr>"

definition wm_enabled :: "wm \<Rightarrow> bool" where
  "wm_enabled m \<longleftrightarrow> wc_spec (w_cfg m) \<noteq> []"

definition wm_set :: "wm_state \<Rightarrow> wm \<Rightarrow> wm" where
  "wm_set s m = m\<lparr>w_state := s\<rparr>"

definition wm_emit :: "wm_effect list \<Rightarrow> wm \<Rightarrow> wm" where
  "wm_emit es m = m\<lparr>w_trace := w_trace m @ es\<rparr>"

definition wm_record :: "int \<Rightarrow> wm \<Rightarrow> wm" where
  "wm_record pid m =
     m\<lparr>w_cmd := Some pid, w_pid := pid, w_pgid := pid, w_started_at := w_clock m, w_state := StateRunning\<rparr>"

text \<open>\<open>startProcess\<close>; \<open>fatalOnFail\<close> only changes the text of the error.\<close>

definition wm_start_process :: "wm_env \<Rightarrow> wm \<Rightarrow> wm \<times> wm_error option" where
  "wm_start_process env m =
     (case parse_spec (wc_spec (w_cfg m)) of
        [] \<Rightarrow> (m, Some EmptyCommand)
      | prog # args \<Rightarrow>
          let m1 = wm_set StateStarting m
          in (case we_spawn env (w_clock m) of
                None \<Rightarrow> (wm_set StateFailed m1, Some (WmSpawnFailed prog))
              | Some pid \<Rightarrow> (wm_emit [WmSpawned pid] (wm_record pid m1), None)))"

definition wm_start :: "wm_env \<Rightarrow> wm \<Rightarrow> wm \<times> wm_error option" where
  "wm_start env m =
     (if \<not> wm_enabled m then (m, None)
      else if w_state m = StateRunning \<or> w_state m = StateStarting then (m, None)
      else wm_start_process env (m\<lparr>w_stopping := False\<rparr>))"

text \<open>\<open>cleanupLocked\<close>.\<close>

definition wm_cleanup :: "wm_state \<Rightarrow> time \<Rightarrow> wm \<Rightarrow> wm" where
  "wm_cleanup s t m = m\<lparr>w_state := s, w_cmd := None, w_pid := 0, w_pgid := 0, w_clock := t\<rparr>"

definition wm_alive :: "wm_env \<Rightarrow> int \<Rightarrow> time \<Rightarrow> bool" where
  "wm_alive env pgid t \<longleftrightarrow> pgid \<noteq> 0 \<and> we_alive env pgid t"

definition wm_begin_stop :: "wm \<Rightarrow> wm" where
  "wm_begin_stop m =
     m\<lparr>w_stopping := True, w_cfg := (w_cfg m)\<lparr>wc_restart := RestartDisabled\<rparr>, w_state := StateStopping\<rparr>"

definition wm_stop :: "wm_env \<Rightarrow> wm \<Rightarrow> wm \<times> wm_error option" where
  "wm_stop env m =
     (if \<not> wm_enabled m then (m, None)
      else
        let pgid = w_pgid m;
            state = w_state m;
            m1 = wm_begin_stop m
        in if state \<noteq> StateRunning \<and> state \<noteq> StateStarting then (wm_set StateStopped m1, None)
           else
             let m2 = (if pgid \<noteq> 0 then wm_emit [WmSignalled pgid SIGTERM] m1 else m1)
             in (case stop_wait (wm_alive env pgid) (we_cancelled env) (we_lag env) (w_clock m) of
                   (Exited, t) \<Rightarrow> (wm_cleanup StateStopped t m2, None)
                 | (Cancelled, t) \<Rightarrow>
                     (wm_cleanup StateStopped t (wm_emit [WmSignalled pgid SIGKILL] m2), Some WmStopCancelled)
                 | (StillAlive, t) \<Rightarrow>
                     (wm_cleanup StateStopped (t + ms 100) (wm_emit [WmSignalled pgid SIGKILL] m2), None)))"

definition wm_restart :: "wm_env \<Rightarrow> wm \<Rightarrow> wm \<times> wm_error option" where
  "wm_restart env m =
     (if \<not> wm_enabled m then (m, Some WmNotConfigured)
      else
        let policy = wc_restart (w_cfg m);
            m1 = fst (wm_stop env m)
        in wm_start_process env
             (m1\<lparr>w_cfg := (w_cfg m1)\<lparr>wc_restart := policy\<rparr>, w_stopping := False, w_restart_count := 0\<rparr>))"

text \<open>The section in which the monitor, after the sleep, commits to the restart.\<close>

definition wm_count_restart :: "wm \<Rightarrow> wm" where
  "wm_count_restart m = m\<lparr>w_restart_count := w_restart_count m + 1\<rparr>"

definition wm_monitor :: "wm_env \<Rightarrow> wm \<Rightarrow> bool \<Rightarrow> (wm \<Rightarrow> wm) \<Rightarrow> wm \<Rightarrow> wm" where
  "wm_monitor env m0 failed meanwhile m =
     (if w_cmd m0 = None then m
      else
        let stopping = w_stopping m;
            policy = wc_restart (w_cfg m);
            restartCount = w_restart_count m;
            m1 = m\<lparr>w_cmd := None, w_pid := 0, w_pgid := 0\<rparr>
        in if stopping then wm_set StateStopped m1
           else if \<not> wm_should_restart policy failed
           then wm_set (if failed then StateFailed else StateStopped) m1
           else
             let delay = wm_next_restart_delay (we_ovf env) restartCount
             in if we_cancelled env (w_clock m) then wm_set StateStopped m1
                else
                  let m2 = meanwhile (wm_emit [WmBackedOff delay]
                             (m1\<lparr>w_clock := w_clock m + max 0 (sint delay)\<rparr>))
                  in if w_stopping m2 then wm_set StateStopped m2
                     else case wm_start_process env (wm_count_restart m2) of
                            (m3, None) \<Rightarrow> m3
                          | (m3, Some e) \<Rightarrow> wm_set StateFailed m3)"

section \<open>Invariant\<close>

definition wm_inv :: "wm \<Rightarrow> bool" where
  "wm_inv m \<longleftrightarrow> w_pgid m = w_pid m \<and> w_pid m = (case w_cmd m of None \<Rightarrow> 0 | Some p \<Rightarrow> p)
     \<and> w_state m \<noteq> StateStarting \<and> w_state m \<noteq> StateStopping"

lemmas wm_sections = wm_set_def wm_emit_def wm_record_def wm_cleanup_def wm_begin_stop_def wm_count_restart_def

lemma wm_inv_frame:
  "w_cmd m' = w_cmd m \<Longrightarrow> w_pid m' = w_pid m \<Longrightarrow> w_pgid m' = w_pgid m \<Longrightarrow> w_state m' = w_state m
     \<Longrightarrow> wm_inv m' = wm_inv m"
  by (simp add: wm_inv_def)

lemma start_process_inv: "wm_inv m \<Longrightarrow> wm_inv (fst (wm_start_process env m))"
  by (auto simp: wm_start_process_def Let_def wm_inv_def wm_sections split: list.split option.split)

lemma wm_start_inv: "wm_inv m \<Longrightarrow> wm_inv (fst (wm_start env m))"
  by (simp add: wm_start_def start_process_inv wm_inv_frame [of "m\<lparr>w_stopping := False\<rparr>" m])

lemma wm_stop_inv: "wm_inv m \<Longrightarrow> wm_inv (fst (wm_stop env m))"
  by (auto simp: wm_stop_def Let_def wm_inv_def wm_sections split: prod.split stop_result.split)

lemma wm_restart_inv: "wm_inv m \<Longrightarrow> wm_inv (fst (wm_restart env m))"
proof -
  assume "wm_inv m"
  then have "wm_inv (fst (wm_stop env m))" by (rule wm_stop_inv)
  then have "wm_inv ((fst (wm_stop env m))\<lparr>w_cfg := c, w_stopping := False, w_restart_count := 0\<rparr>)" for c
    by (simp add: wm_inv_def)
  with \<open>wm_inv m\<close> show ?thesis by (simp add: wm_restart_def Let_def start_process_inv)
qed

lemma wm_monitor_inv:
  assumes "wm_inv m" and "\<And>m. wm_inv m \<Longrightarrow> wm_inv (meanwhile m)"
  shows "wm_inv (wm_monitor env m0 failed meanwhile m)"
proof -
  let ?m1 = "m\<lparr>w_cmd := None, w_pid := 0, w_pgid := 0\<rparr>"
  have inv1: "wm_inv ?m1" using assms(1) by (simp add: wm_inv_def)
  have set: "wm_inv (wm_set s m')" if "wm_inv m'" "s = StateStopped \<or> s = StateFailed" for s m'
    using that by (auto simp: wm_inv_def wm_set_def)
  have "wm_inv (wm_emit es (?m1\<lparr>w_clock := t\<rparr>))" for es t
    using inv1 by (simp add: wm_inv_def wm_emit_def)
  note sleep = assms(2) [OF this]
  have again: "wm_inv (case wm_start_process env (wm_count_restart m2) of
      (m3, None) \<Rightarrow> m3 | (m3, Some e) \<Rightarrow> wm_set StateFailed m3)" if "wm_inv m2" for m2
  proof -
    have "wm_inv (wm_count_restart m2)" using that by (simp add: wm_inv_def wm_count_restart_def)
    from start_process_inv [OF this, of env] show ?thesis
      by (auto simp: set split: prod.split option.split)
  qed
  show ?thesis
    using assms(1) set [OF inv1] set [OF sleep] again [OF sleep]
    by (simp add: wm_monitor_def Let_def)
qed

lemma wm_stop_result:
  assumes "wm_enabled m" and "wm_stop env m = (m', r)"
  shows "w_state m' = StateStopped \<and> w_stopping m' \<and> wc_restart (w_cfg m') = RestartDisabled
    \<and> wc_spec (w_cfg m') = wc_spec (w_cfg m) \<and> w_restart_count m' = w_restart_count m"
  using assms
  by (auto simp: wm_stop_def Let_def wm_sections split: prod.splits stop_result.splits if_splits)

lemma start_process_result:
  assumes "text_fields (wc_spec (w_cfg m)) = prog # args" and "we_spawn env (w_clock m) = Some pid"
  shows "wm_start_process env m
    = (wm_emit [WmSpawned pid] (wm_record pid (wm_set StateStarting m)), None)"
  using assms by (simp add: wm_start_process_def parse_spec_def Let_def)

section \<open>Properties\<close>

text \<open>After \<open>Stop\<close> of a configured WM the manager is stopped and restarting is disabled, within 10.2
  seconds and two scheduling lags; if the WM was running its process is forgotten and, if it had a
  group, signalled.\<close>

theorem wm_stop_outcome:
  assumes "wm_enabled m" and "wm_stop env m = (m', r)" and "\<forall>t. int (we_lag env t) \<le> L"
  shows "w_state m' = StateStopped \<and> w_stopping m' \<and> wc_restart (w_cfg m') = RestartDisabled
    \<and> w_clock m' \<le> w_clock m + sec 10 + ms 200 + L
    \<and> (w_state m = StateRunning \<longrightarrow> w_cmd m' = None \<and> w_pgid m' = 0
        \<and> (w_pgid m \<noteq> 0 \<longrightarrow> (\<exists>es. w_trace m' = w_trace m @ WmSignalled (w_pgid m) SIGTERM # es)))"
proof -
  obtain w t where w: "stop_wait (wm_alive env (w_pgid m)) (we_cancelled env) (we_lag env) (w_clock m) = (w, t)"
    by fastforce
  have t: "t \<le> w_clock m + sec 10 + ms 100 + L" using stop_wait_by [OF assms(3) w] by simp
  have "0 \<le> L" using assms(3) by (meson of_nat_0_le_iff order_trans)
  then have ms: "ms 200 = ms 100 + ms 100" "0 \<le> ms 100" "0 \<le> sec 10 + ms 200 + L"
    by (simp_all add: ms_def sec_def)
  have "w_clock m' \<le> w_clock m + sec 10 + ms 200 + L"
    using assms(1,2) w t ms
    by (auto simp: wm_stop_def Let_def wm_sections split: stop_result.splits if_splits)
  moreover have "w_state m = StateRunning \<longrightarrow> w_cmd m' = None \<and> w_pgid m' = 0
        \<and> (w_pgid m \<noteq> 0 \<longrightarrow> (\<exists>es. w_trace m' = w_trace m @ WmSignalled (w_pgid m) SIGTERM # es))"
    using assms(1,2) w
    by (auto simp: wm_stop_def Let_def wm_sections split: stop_result.splits if_splits)
  ultimately show ?thesis using wm_stop_result [OF assms(1,2)] by simp
qed

definition demo_wenv :: wm_env where
  "demo_wenv =
     \<lparr>we_spawn = (\<lambda>_. Some 9), we_alive = (\<lambda>_ _. False), we_cancelled = (\<lambda>_. False),
      we_lag = (\<lambda>_. 0), we_ovf = 0\<rparr>"

definition demo_wm :: wm where
  "demo_wm = new_wm \<lparr>wc_spec = ''i3 -a'', wc_restart = RestartOnFailure\<rparr> 1"

lemma demo_wm_fields: "text_fields ''i3 -a'' = [''i3'', ''-a'']"
  by code_simp

definition running_wm :: wm where
  "running_wm = fst (wm_start demo_wenv demo_wm)"

lemma running_wm_eq:
  "running_wm = wm_emit [WmSpawned 9] (wm_record 9 (wm_set StateStarting (demo_wm\<lparr>w_stopping := False\<rparr>)))"
  by (simp add: running_wm_def wm_start_def wm_enabled_def demo_wm_def new_wm_def start_process_result
      demo_wm_fields demo_wenv_def)

lemma running_wm_simps:
  "w_cfg running_wm = \<lparr>wc_spec = ''i3 -a'', wc_restart = RestartOnFailure\<rparr>" "w_state running_wm = StateRunning"
  "w_cmd running_wm = Some 9" "w_pgid running_wm = 9" "w_trace running_wm = [WmSpawned 9]"
  "\<not> w_stopping running_wm" "w_restart_count running_wm = 0" "w_clock running_wm = 1" "wm_enabled running_wm"
  by (simp_all add: running_wm_eq demo_wm_def new_wm_def wm_sections wm_enabled_def)

theorem wm_stop_outcome_witness:
  "\<exists>m' r. wm_stop demo_wenv running_wm = (m', r) \<and> w_state m' = StateStopped
     \<and> (\<exists>es. w_trace m' = [WmSpawned 9, WmSignalled 9 SIGTERM] @ es)"
proof -
  obtain m' r where st: "wm_stop demo_wenv running_wm = (m', r)" by fastforce
  have "\<forall>t. int (we_lag demo_wenv t) \<le> 0" by (simp add: demo_wenv_def)
  from wm_stop_outcome [OF running_wm_simps(9) st this] st show ?thesis
    by (auto simp: running_wm_simps)
qed

lemma wm_stop_spawns:
  "WmSpawned p \<in> set (w_trace (fst (wm_stop env m))) \<longleftrightarrow> WmSpawned p \<in> set (w_trace m)"
  by (auto simp: wm_stop_def Let_def wm_sections split: prod.splits stop_result.splits)

text \<open>C39: when the WM ends by itself the monitor follows its policy: a WM that is to be restarted is,
  after the delay, with the counter raised by one; otherwise the state says whether it failed. A
  \<open>Stop\<close> that comes during the delay is honoured: nothing is started again.\<close>

theorem wm_monitor_outcome:
  fixes failed :: bool
  assumes "w_cmd m0 \<noteq> None" and "\<not> w_stopping m" and "\<not> we_cancelled env (w_clock m)"
    and "text_fields (wc_spec (w_cfg m)) = prog # args" and "\<And>t. we_spawn env t = Some (pid t)"
  defines "restart \<equiv> wm_should_restart (wc_restart (w_cfg m)) failed"
  shows "(restart \<longrightarrow> (let m' = wm_monitor env m0 failed id m; d = wm_next_restart_delay (we_ovf env) (w_restart_count m)
            in w_state m' = StateRunning \<and> w_restart_count m' = w_restart_count m + 1
              \<and> w_clock m' = w_clock m + max 0 (sint d)
              \<and> w_cmd m' = Some (pid (w_clock m'))
              \<and> w_trace m' = w_trace m @ [WmBackedOff d, WmSpawned (pid (w_clock m'))]))
    \<and> (\<not> restart \<longrightarrow> (let m' = wm_monitor env m0 failed meanwhile m
            in w_state m' = (if failed then StateFailed else StateStopped) \<and> w_cmd m' = None
              \<and> w_trace m' = w_trace m))
    \<and> (restart \<longrightarrow> (let m' = wm_monitor env m0 failed (\<lambda>m. fst (wm_stop env' m)) m
            in w_state m' = StateStopped \<and> (\<forall>p. WmSpawned p \<in> set (w_trace m') \<longrightarrow> WmSpawned p \<in> set (w_trace m))))"
proof (intro conjI impI)
  assume r: restart
  then show "let m' = wm_monitor env m0 failed id m; d = wm_next_restart_delay (we_ovf env) (w_restart_count m)
            in w_state m' = StateRunning \<and> w_restart_count m' = w_restart_count m + 1
              \<and> w_clock m' = w_clock m + max 0 (sint d)
              \<and> w_cmd m' = Some (pid (w_clock m'))
              \<and> w_trace m' = w_trace m @ [WmBackedOff d, WmSpawned (pid (w_clock m'))]"
    using assms(1-5) by (auto simp: wm_monitor_def Let_def restart_def start_process_result wm_sections)
next
  assume "\<not> restart"
  then show "let m' = wm_monitor env m0 failed meanwhile m
            in w_state m' = (if failed then StateFailed else StateStopped) \<and> w_cmd m' = None
              \<and> w_trace m' = w_trace m"
    using assms(1-3) by (auto simp: wm_monitor_def Let_def restart_def wm_sections)
next
  assume r: restart
  let ?d = "wm_next_restart_delay (we_ovf env) (w_restart_count m)"
  let ?m1 = "wm_emit [WmBackedOff ?d] (m\<lparr>w_cmd := None, w_pid := 0, w_pgid := 0, w_clock := w_clock m + max 0 (sint ?d)\<rparr>)"
  let ?m2 = "fst (wm_stop env' ?m1)"
  have "wc_spec (w_cfg m) \<noteq> []" using assms(4) trim_left_length [of "[]"] by (auto simp: fields_Nil_iff [symmetric])
  then have "wm_enabled ?m1" by (simp add: wm_enabled_def wm_emit_def)
  then have "w_stopping ?m2" using wm_stop_result [of ?m1 env' ?m2] by (metis prod.collapse)
  then have "wm_monitor env m0 failed (\<lambda>m. fst (wm_stop env' m)) m = wm_set StateStopped ?m2"
    using assms(1-3) r by (auto simp: wm_monitor_def Let_def restart_def)
  then show "let m' = wm_monitor env m0 failed (\<lambda>m. fst (wm_stop env' m)) m
            in w_state m' = StateStopped \<and> (\<forall>p. WmSpawned p \<in> set (w_trace m') \<longrightarrow> WmSpawned p \<in> set (w_trace m))"
    using wm_stop_spawns [of _ env' ?m1] by (simp add: wm_set_def) (simp add: wm_emit_def)
qed

theorem wm_monitor_outcome_witness:
  "w_restart_count (wm_monitor demo_wenv running_wm True id running_wm) = 1
   \<and> w_cmd (wm_monitor demo_wenv running_wm True id running_wm) = Some 9
   \<and> w_state (wm_monitor demo_wenv running_wm False id running_wm) = StateStopped"
proof -
  have c: "w_cmd running_wm \<noteq> None" "\<not> we_cancelled demo_wenv (w_clock running_wm)"
    "text_fields (wc_spec (w_cfg running_wm)) = ''i3'' # [''-a'']" "we_spawn demo_wenv t = Some ((\<lambda>_. 9) t)" for t
    by (simp_all add: running_wm_simps demo_wm_fields demo_wenv_def)
  have "wm_should_restart RestartOnFailure True" "\<not> wm_should_restart RestartOnFailure False"
    by (simp_all add: wm_should_restart_def policy_names)
  with wm_monitor_outcome [OF c(1) running_wm_simps(6) c(2,3,4), of True]
    wm_monitor_outcome [OF c(1) running_wm_simps(6) c(2,3,4), of False id]
  show ?thesis by (simp add: running_wm_simps Let_def)
qed

text \<open>A \<open>Stop\<close> that comes right after the monitor has looked at the flag for the last time is not
  honoured: \<open>Stop\<close> finds no process, reports the WM stopped and restarting disabled, and the monitor
  then starts the new process all the same.\<close>

theorem wm_stop_after_last_check:
  fixes env' :: wm_env
  assumes "wm_enabled m" and "w_cmd m = None" and "w_pid m = 0" and "w_pgid m = 0"
    and "text_fields (wc_spec (w_cfg m)) = prog # args" and "\<And>t. we_spawn env t = Some (pid t)"
  defines "m1 \<equiv> fst (wm_stop env' (wm_count_restart m))"
  shows "w_state m1 = StateStopped \<and> w_stopping m1
    \<and> (\<exists>m2. wm_start_process env m1 = (m2, None) \<and> w_state m2 = StateRunning \<and> w_stopping m2
          \<and> w_cmd m2 \<noteq> None \<and> wc_restart (w_cfg m2) = RestartDisabled)"
proof -
  have "wm_enabled (wm_count_restart m)" using assms(1) by (simp add: wm_enabled_def wm_count_restart_def)
  then have res: "w_state m1 = StateStopped \<and> w_stopping m1 \<and> wc_restart (w_cfg m1) = RestartDisabled
      \<and> wc_spec (w_cfg m1) = wc_spec (w_cfg m)"
    using wm_stop_result [of "wm_count_restart m" env' m1 "snd (wm_stop env' (wm_count_restart m))"]
    by (simp add: m1_def) (simp add: wm_count_restart_def)
  then have "wm_start_process env m1
      = (wm_emit [WmSpawned (pid (w_clock m1))] (wm_record (pid (w_clock m1)) (wm_set StateStarting m1)), None)"
    using assms(5,6) by (intro start_process_result) auto
  with res show ?thesis by (simp add: wm_sections)
qed

theorem wm_stop_after_last_check_witness:
  "\<exists>m2. wm_start_process demo_wenv (fst (wm_stop demo_wenv (wm_count_restart demo_wm))) = (m2, None)
     \<and> w_state m2 = StateRunning \<and> w_stopping m2"
proof -
  have c: "wm_enabled demo_wm" "w_cmd demo_wm = None" "w_pid demo_wm = 0" "w_pgid demo_wm = 0"
    "text_fields (wc_spec (w_cfg demo_wm)) = ''i3'' # [''-a'']" "we_spawn demo_wenv t = Some ((\<lambda>_. 9) t)" for t
    by (simp_all add: demo_wm_def new_wm_def demo_wm_fields demo_wenv_def wm_enabled_def)
  from wm_stop_after_last_check [OF c, of demo_wenv] show ?thesis by auto
qed

text \<open>A manual restart keeps the policy, clears the counter and the stop flag, and runs a new process.\<close>

theorem wm_restart_outcome:
  assumes "text_fields (wc_spec (w_cfg m)) = prog # args" and "\<And>t. we_spawn env t = Some (pid t)"
    and "wm_enabled m"
  shows "\<exists>m'. wm_restart env m = (m', None) \<and> w_state m' = StateRunning \<and> w_restart_count m' = 0
    \<and> \<not> w_stopping m' \<and> w_cfg m' = w_cfg m \<and> w_cmd m' = Some (pid (w_clock m'))"
proof -
  let ?m1 = "fst (wm_stop env m)"
  let ?m2 = "?m1\<lparr>w_cfg := (w_cfg ?m1)\<lparr>wc_restart := wc_restart (w_cfg m)\<rparr>, w_stopping := False, w_restart_count := 0\<rparr>"
  have res: "wc_spec (w_cfg ?m1) = wc_spec (w_cfg m)"
    using wm_stop_result [OF assms(3), of env ?m1 "snd (wm_stop env m)"] by simp
  then have start: "wm_start_process env ?m2
      = (wm_emit [WmSpawned (pid (w_clock ?m2))] (wm_record (pid (w_clock ?m2)) (wm_set StateStarting ?m2)), None)"
    using assms(1,2) by (intro start_process_result) auto
  have "wm_restart env m = wm_start_process env ?m2"
    using assms(3) by (simp add: wm_restart_def Let_def)
  moreover have "(w_cfg ?m1)\<lparr>wc_restart := wc_restart (w_cfg m)\<rparr> = w_cfg m"
    using res by simp
  ultimately show ?thesis using start by (simp add: wm_sections)
qed

theorem wm_restart_outcome_witness:
  "\<exists>m'. wm_restart demo_wenv running_wm = (m', None) \<and> w_cfg m' = w_cfg running_wm"
proof -
  have c: "text_fields (wc_spec (w_cfg running_wm)) = ''i3'' # [''-a'']" "we_spawn demo_wenv t = Some ((\<lambda>_. 9) t)" for t
    by (simp_all add: running_wm_simps demo_wm_fields demo_wenv_def)
  from wm_restart_outcome [OF c running_wm_simps(9)] show ?thesis by blast
qed

end
