(* ===== verification/Orchestrator.thy ===== *)
theory Orchestrator
  imports Program_Phases Daemon_Groups Daemon_Shutdown Session_WM Feature_Registry
begin

text \<open>
  The orchestrator, \<open>internal/orchestrator/orchestrator.go\<close>, and the end of \<open>run\<close> in
  \<open>cmd/a-kerno/main.go\<close>: the startup and shutdown sequences over the program manager, the daemon
  manager, the session WM and the feature registry. One clock goes through all steps, and one log
  records the effects of the components in their order.
\<close>

section \<open>State\<close>

datatype log_entry = PE prog_effect | DE effect | WE wm_effect

record orch =
  o_dm :: dm
  o_pm :: pm
  o_wm :: wm
  o_features :: registry
  o_clock :: time
  o_log :: "log_entry list"

text \<open>The outside world of the components, the two error groups, the results of the sorts and the
  orders of the \<open>range\<close> loops of the dependency resolution.\<close>

record orch_env =
  oe_dm :: dm_env
  oe_pm :: pm_env
  oe_wm :: wm_env
  oe_dgroup :: "dm_error errgroup"
  oe_pgroup :: "pm_error errgroup"
  oe_up :: "(string \<times> int) list \<Rightarrow> (string \<times> int) list"
  oe_down :: "(string \<times> int) list \<Rightarrow> (string \<times> int) list"
  oe_range1 :: "program_config go_map \<Rightarrow> program_config go_map"
  oe_range2 :: "program_config go_map \<Rightarrow> program_config go_map"

datatype orch_error = DaemonsFailed dm_error | WmFailed wm_error

text \<open>A step of one component: it begins at the orchestrator's clock, its new effects are logged.\<close>

definition on_pm :: "(pm \<Rightarrow> pm \<times> pm_error option) \<Rightarrow> orch \<Rightarrow> orch \<times> pm_error option" where
  "on_pm f x =
     (let (m, e) = f (pm_at (o_clock x) (o_pm x))
      in (x\<lparr>o_pm := m, o_clock := pm_clock m,
            o_log := o_log x @ map PE (drop (length (pm_trace (o_pm x))) (pm_trace m))\<rparr>, e))"

definition on_dm :: "(dm \<Rightarrow> dm \<times> dm_error option) \<Rightarrow> orch \<Rightarrow> orch \<times> dm_error option" where
  "on_dm f x =
     (let (m, e) = f (dm_at (o_clock x) (o_dm x))
      in (x\<lparr>o_dm := m, o_clock := dm_clock m,
            o_log := o_log x @ map DE (drop (length (dm_trace (o_dm x))) (dm_trace m))\<rparr>, e))"

definition on_wm :: "(wm \<Rightarrow> wm \<times> wm_error option) \<Rightarrow> orch \<Rightarrow> orch \<times> wm_error option" where
  "on_wm f x =
     (let (m, e) = f ((o_wm x)\<lparr>w_clock := o_clock x\<rparr>)
      in (x\<lparr>o_wm := m, o_clock := w_clock m,
            o_log := o_log x @ map WE (drop (length (w_trace (o_wm x))) (w_trace m))\<rparr>, e))"

section \<open>Startup\<close>

definition run_phase :: "orch_env \<Rightarrow> string \<Rightarrow> orch \<Rightarrow> orch \<times> pm_error option" where
  "run_phase env phase x =
     on_pm (start_phase (oe_pm env) (oe_pgroup env) (oe_range1 env) (oe_range2 env) phase) x"

text \<open>The loop that registers the features of the enabled daemons.\<close>

fun register_features :: "daemon list \<Rightarrow> registry \<Rightarrow> registry" where
  "register_features [] r = r"
| "register_features (d # ds) r =
     register_features ds
       (if dc_enabled (d_config d)
        then let r1 = register (d_name d) ''0.0.0'' (dc_socket (d_config d)) r
             in if is_running d then set_ready (d_name d) True r1 else r1
        else r)"

text \<open>\<open>Run\<close>: an error of a program phase is logged only.\<close>

definition orch_run :: "orch_env \<Rightarrow> orch \<Rightarrow> orch \<times> orch_error option" where
  "orch_run env x =
     (let x1 = fst (run_phase env phase_early x)
      in case on_dm (dm_start_all (oe_dm env) (oe_dgroup env) (oe_up env)) x1 of
           (x2, Some e) \<Rightarrow> (x2, Some (DaemonsFailed e))
         | (x2, None) \<Rightarrow>
             let x3 = x2\<lparr>o_features := register_features (dm_list (o_dm x2)) (o_features x2)\<rparr>
             in (case on_wm (wm_start (oe_wm env)) x3 of
                   (x4, Some e) \<Rightarrow> (x4, Some (WmFailed e))
                 | (x4, None) \<Rightarrow> (fst (run_phase env phase_post x4), None)))"

section \<open>Shutdown\<close>

text \<open>\<open>Shutdown\<close>: every error is logged only, and the result is nil.\<close>

definition orch_shutdown :: "orch_env \<Rightarrow> orch \<Rightarrow> orch \<times> orch_error option" where
  "orch_shutdown env x =
     (let x1 = fst (on_pm (stop_phase (oe_pm env) phase_post) x);
          x2 = fst (on_wm (wm_stop (oe_wm env)) x1);
          x3 = fst (on_dm (dm_stop_all (oe_dm env) (oe_down env)) x2);
          x4 = fst (on_pm (stop_phase (oe_pm env) phase_early) x3)
      in (x4, None))"

text \<open>\<open>context.Background()\<close>, which the main program gives to \<open>Shutdown\<close>, is never done.\<close>

definition background :: "orch_env \<Rightarrow> orch_env" where
  "background env =
     env\<lparr>oe_dm := (oe_dm env)\<lparr>e_cancelled := \<lambda>_. False\<rparr>,
         oe_pm := (oe_pm env)\<lparr>pe_cancelled := \<lambda>_. False\<rparr>,
         oe_wm := (oe_wm env)\<lparr>we_cancelled := \<lambda>_. False\<rparr>\<rparr>"

text \<open>\<open>run\<close> of the main program from the start of the server on: \<open>listening\<close> says whether that
  succeeds; \<open>meanwhile\<close> is what happens until the shutdown is asked for, and \<open>stopped\<close> whether the
  server's \<open>Stop\<close> then returns. The result is the exit code, or None when the program hangs there.\<close>

definition kerno_main :: "orch_env \<Rightarrow> bool \<Rightarrow> (orch \<Rightarrow> orch) \<Rightarrow> bool \<Rightarrow> orch \<Rightarrow> orch \<times> int option" where
  "kerno_main env listening meanwhile stopped x =
     (if \<not> listening then (x, Some 1)
      else case orch_run env x of
             (x1, Some e) \<Rightarrow>
               let bg = background env;
                   x2 = fst (on_wm (wm_stop (oe_wm bg)) x1);
                   x3 = fst (on_dm (dm_stop_all (oe_dm bg) (oe_down bg)) x2)
               in (x3, Some 1)
           | (x1, None) \<Rightarrow>
               if \<not> stopped then (meanwhile x1, None)
               else (case orch_shutdown (background env) (meanwhile x1) of
                       (x2, Some e) \<Rightarrow> (x2, Some 1)
                     | (x2, None) \<Rightarrow> (x2, Some 0)))"

section \<open>What a step does\<close>

lemma on_pm_log:
  assumes "\<And>m m' e. f m = (m', e) \<Longrightarrow> \<exists>es. pm_trace m' = pm_trace m @ es \<and> P es" and "on_pm f x = (x', r)"
  shows "\<exists>es. o_log x' = o_log x @ map PE es \<and> P es \<and> o_dm x' = o_dm x \<and> o_wm x' = o_wm x
    \<and> o_features x' = o_features x"
proof -
  obtain m e where f: "f (pm_at (o_clock x) (o_pm x)) = (m, e)" by fastforce
  with assms(1) [OF f] assms(2) show ?thesis by (auto simp: on_pm_def)
qed

lemma on_dm_log:
  assumes "\<And>m m' e. f m = (m', e) \<Longrightarrow> \<exists>es. dm_trace m' = dm_trace m @ es \<and> P es" and "on_dm f x = (x', r)"
  shows "\<exists>es. o_log x' = o_log x @ map DE es \<and> P es \<and> o_pm x' = o_pm x \<and> o_wm x' = o_wm x
    \<and> o_features x' = o_features x"
proof -
  obtain m e where f: "f (dm_at (o_clock x) (o_dm x)) = (m, e)" by fastforce
  with assms(1) [OF f] assms(2) show ?thesis by (auto simp: on_dm_def)
qed

lemma on_wm_log:
  assumes "\<And>m m' e. f m = (m', e) \<Longrightarrow> \<exists>es. w_trace m' = w_trace m @ es" and "on_wm f x = (x', r)"
  shows "\<exists>es. o_log x' = o_log x @ map WE es \<and> o_pm x' = o_pm x \<and> o_dm x' = o_dm x
    \<and> o_features x' = o_features x"
proof -
  obtain m e where f: "f ((o_wm x)\<lparr>w_clock := o_clock x\<rparr>) = (m, e)" by fastforce
  with assms(1) [OF f] assms(2) show ?thesis by (auto simp: on_wm_def)
qed

lemma start_phase_log:
  "errgroup_doc eg \<Longrightarrow> start_phase env eg r1 r2 phase m = (m', e) \<Longrightarrow>
     \<exists>es. pm_trace m' = pm_trace m @ es \<and> prog_killed_after es"
  by (rule start_phase_kills)

lemma start_all_log:
  "errgroup_doc eg \<Longrightarrow> dm_start_all env eg srt m = (m', e) \<Longrightarrow>
     \<exists>es. dm_trace m' = dm_trace m @ es \<and> killed_after es"
  unfolding dm_start_all_def by (rule start_groups_kill)

lemma wm_start_log: "wm_start env m = (m', e) \<Longrightarrow> \<exists>es. w_trace m' = w_trace m @ es"
  by (auto simp: wm_start_def wm_start_process_def Let_def wm_sections split: if_splits list.splits option.splits)

lemma wm_stop_log: "wm_stop env m = (m', e) \<Longrightarrow> \<exists>es. w_trace m' = w_trace m @ es"
  by (auto simp: wm_stop_def Let_def wm_sections split: if_splits prod.splits stop_result.splits)

section \<open>Stopping with a context that is never done\<close>

lemma stop_wait_not_cancelled:
  assumes "\<And>t. \<not> cancelled t" and "stop_wait alive cancelled lag now = (w, t)"
  shows "w \<noteq> Cancelled"
proof
  assume "w = Cancelled"
  with poll_result [OF _ assms(2) [unfolded stop_wait_def]] assms(1) show False
    by (auto simp: stop_check_def split: if_splits)
qed

lemma dm_stop_background:
  assumes "\<And>t. \<not> e_cancelled env t" and "\<And>p. e_kill_ok env p" and "dm_get m n \<noteq> None"
  shows "snd (dm_stop env n m) = None"
proof -
  obtain d where d: "dm_get m n = Some d" using assms(3) by blast
  show ?thesis
  proof (cases "d_state d = DaemonRunning \<or> d_state d = DaemonStarting")
    case True
    obtain w t where w: "stop_wait (e_alive env (d_pgid d)) (e_cancelled env) (e_lag env) (dm_clock m) = (w, t)"
      by fastforce
    then have "w \<noteq> Cancelled" using stop_wait_not_cancelled [of "e_cancelled env"] assms(1) by blast
    with stop_active [OF d True w] assms(2) show ?thesis
      by (cases w) (simp_all add: Let_def)
  next
    case False
    then show ?thesis using stop_idle [OF d] by simp
  qed
qed

lemma stop_each_background:
  assumes "\<And>t. \<not> e_cancelled env t" and "\<And>p. e_kill_ok env p" and "\<forall>n \<in> fst ` set es. dm_get m n \<noteq> None"
  shows "snd (stop_each env es m) = None"
  using assms(3)
proof (induction es arbitrary: m)
  case (Cons e es)
  obtain k ord where e: "e = (k, ord)" by fastforce
  obtain m1 r where st: "dm_stop env k m = (m1, r)" by fastforce
  have "r = None" using dm_stop_background [OF assms(1,2), of m k] Cons.prems e st by simp
  moreover have "dm_get m1 n \<noteq> None" if "dm_get m n \<noteq> None" for n
    using stops.op_dom [of env k m] st that by (auto simp: dom_def)
  then have "snd (stop_each env es m1) = None" using Cons.prems e by (intro Cons.IH) auto
  ultimately show ?case using e st by (simp add: case_prod_beta Let_def)
qed simp

text \<open>The phase a program belongs to: "post" where its configuration names none.\<close>

definition phase_or_default :: "program \<Rightarrow> string" where
  "phase_or_default p = (if pc_phase (p_config p) = [] then phase_post else pc_phase (p_config p))"

lemma stop_phase_names_set:
  "pm_map_ok m \<Longrightarrow> k \<in> set (stop_phase_names phase m) \<longleftrightarrow>
     (\<exists>p. pm_get m k = Some p \<and> prog_is_running p \<and> phase_or_default p = phase)"
  by (force simp: stop_phase_names_def pm_get_def pm_map_ok_def go_map_Some_iff phase_or_default_def)

lemma stop_program_config:
  "map_option p_config (pm_get (fst (stop_program env n m)) k) = map_option p_config (pm_get m k)"
  by (auto simp: stop_program_def Let_def pm_get_modify stopped_program_def option.map_comp o_def
      split: option.split stop_result.split prod.split)

lemma stop_programs_config:
  "map_option p_config (pm_get (stop_programs env names m) k) = map_option p_config (pm_get m k)"
  by (induction names arbitrary: m) (simp_all add: stop_program_config)

text \<open>A program that is stopped, and the ones before it, do not run.\<close>

lemma stop_program_background:
  assumes "\<And>t. \<not> pe_cancelled env t" and "\<And>p. pe_kill_ok env p" and "pm_get (fst (stop_program env n m)) n = Some p"
  shows "\<not> prog_is_running p"
proof -
  obtain q where q: "pm_get m n = Some q"
    using assms(3) by (cases "pm_get m n") (auto simp: stop_program_def)
  show ?thesis
  proof (cases "prog_is_running q")
    case True
    obtain w t where w: "stop_wait (pe_alive env (p_pid q)) (pe_cancelled env) (pe_lag env) (pm_clock m) = (w, t)"
      by fastforce
    then have "w \<noteq> Cancelled" using stop_wait_not_cancelled [of "pe_cancelled env"] assms(1) by blast
    with stop_program_active [OF q True w] assms(2,3) q show ?thesis
      by (cases w) (auto simp: Let_def pm_get_modify stopped_program_def prog_is_running_def)
  next
    case False
    then show ?thesis using assms(3) q by (simp add: stop_program_def)
  qed
qed

lemma stop_program_keeps_stopped:
  assumes "\<And>t. \<not> pe_cancelled env t" and "\<And>p. pe_kill_ok env p"
    and "\<And>p. pm_get m k = Some p \<Longrightarrow> \<not> prog_is_running p"
    and "pm_get (fst (stop_program env n m)) k = Some p"
  shows "\<not> prog_is_running p"
proof (cases "k = n")
  case True
  with stop_program_background [OF assms(1,2)] assms(4) show ?thesis by blast
next
  case False
  with stop_program_touch [of n m env] assms(3,4) show ?thesis by (auto simp: ptouch_def)
qed

lemma stop_programs_background:
  assumes "\<And>t. \<not> pe_cancelled env t" and "\<And>p. pe_kill_ok env p"
    and "k \<in> set names \<or> (\<forall>p. pm_get m k = Some p \<longrightarrow> \<not> prog_is_running p)"
    and "pm_get (stop_programs env names m) k = Some p"
  shows "\<not> prog_is_running p"
  using assms(3,4)
proof (induction names arbitrary: m)
  case (Cons n names)
  let ?m1 = "fst (stop_program env n m)"
  show ?case
  proof (rule Cons.IH [of ?m1])
    show "k \<in> set names \<or> (\<forall>p. pm_get ?m1 k = Some p \<longrightarrow> \<not> prog_is_running p)"
      using Cons.prems(1) stop_program_background [OF assms(1,2)]
        stop_program_keeps_stopped [OF assms(1,2), of m k n] by auto
    show "pm_get (stop_programs env names ?m1) k = Some p" using Cons.prems(2) by simp
  qed
qed simp

section \<open>The sequences, component by component\<close>

lemma dm_inv_all_started: "dm_inv m \<Longrightarrow> dm_inv (fst (dm_start_all env eg srt m))"
  using start_groups_kept unfolding dm_start_all_def start_kept_def by blast

lemma register_features_other:
  "n \<notin> d_name ` set ds \<Longrightarrow> get_feature (register_features ds r) n = get_feature r n"
  by (induction ds arbitrary: r)
    (simp_all add: Let_def register_def set_ready_def features.lookup_put features.lookup_modify)

text \<open>Registration gives every enabled daemon its feature, which is ready when the daemon runs.\<close>

lemma register_features_ready:
  assumes "distinct (map d_name ds)" and "d \<in> set ds" and "dc_enabled (d_config d)"
  shows "get_feature (register_features ds r) (d_name d) =
    Some \<lparr>f_name = d_name d, f_version = ''0.0.0'', f_socket = dc_socket (d_config d), f_ready = is_running d\<rparr>"
  using assms
proof (induction ds arbitrary: r)
  case (Cons x ds)
  show ?case
  proof (cases "x = d")
    case True
    have "d_name d \<notin> d_name ` set ds" using Cons.prems(1) True by auto
    with True Cons.prems(3) show ?thesis
      by (simp add: register_features_other Let_def register_def set_ready_def features.lookup_put
          features.lookup_modify)
  next
    case False
    with Cons show ?thesis by simp
  qed
qed simp

text \<open>The two phases of programs the manager stops, and the daemons \<open>StopAll\<close> covers.\<close>

definition managed_phase :: "program \<Rightarrow> bool" where
  "managed_phase p \<longleftrightarrow> phase_or_default p \<in> {phase_early, phase_post}"

lemma stop_phase_background:
  assumes "\<And>t. \<not> pe_cancelled env t" and "\<And>p. pe_kill_ok env p" and "pm_inv m"
    and "pm_get (fst (stop_phase env phase m)) k = Some p" and "phase_or_default p = phase"
  shows "\<not> prog_is_running p"
proof -
  have "phase_or_default q = phase_or_default p" if "pm_get m k = Some q" for q
    using stop_programs_config [of env "stop_phase_names phase m" m k] assms(4) that
    by (simp add: stop_phase_def phase_or_default_def)
  then have "k \<in> set (stop_phase_names phase m) \<or> (\<forall>q. pm_get m k = Some q \<longrightarrow> \<not> prog_is_running q)"
    using assms(3,5) stop_phase_names_set [of m k phase] by (auto simp: pm_inv_def)
  from stop_programs_background [OF assms(1,2) this] assms(4) show ?thesis
    by (simp add: stop_phase_def)
qed

lemma stop_programs_keep_stopped:
  assumes "\<And>t. \<not> pe_cancelled env t" and "\<And>p. pe_kill_ok env p"
    and "\<forall>p. pm_get m k = Some p \<longrightarrow> \<not> prog_is_running p" and "pm_get (stop_programs env names m) k = Some p"
  shows "\<not> prog_is_running p"
  using stop_programs_background [OF assms(1,2) _ assms(4)] assms(3) by blast

lemma stop_phase_log: "stop_phase env phase m = (m', e) \<Longrightarrow> \<exists>es. pm_trace m' = pm_trace m @ es"
proof -
  have "\<exists>es. pm_trace (stop_programs env names m) = pm_trace m @ es" for names
  proof (induction names arbitrary: m)
    case (Cons n names)
    obtain es where "pm_trace (fst (stop_program env n m)) = pm_trace m @ es"
      using stop_program_touch [of n m env] by (auto simp: ptouch_def)
    with Cons [of "fst (stop_program env n m)"] show ?case by auto
  qed simp
  then show "stop_phase env phase m = (m', e) \<Longrightarrow> \<exists>es. pm_trace m' = pm_trace m @ es"
    by (auto simp: stop_phase_def)
qed

lemma stop_all_log: "dm_stop_all env srt m = (m', e) \<Longrightarrow> \<exists>es. dm_trace m' = dm_trace m @ es"
proof -
  have "\<exists>es'. dm_trace (fst (stop_each env es m)) = dm_trace m @ es'" for es
  proof (induction es arbitrary: m)
    case (Cons x es)
    obtain es1 where "dm_trace (fst (dm_stop env (fst x) m)) = dm_trace m @ es1"
      using stop_touches [of "fst x" m env] by (auto simp: touches_only_def)
    with Cons [of "fst (dm_stop env (fst x) m)"] show ?case
      by (cases x) (auto simp: case_prod_beta Let_def)
  qed simp
  then show "dm_stop_all env srt m = (m', e) \<Longrightarrow> \<exists>es. dm_trace m' = dm_trace m @ es"
    unfolding dm_stop_all_def by (metis fst_conv)
qed

text \<open>\<open>StopAll\<close> succeeds when its context is never done and SIGKILL can be sent.\<close>

lemma stop_all_background:
  assumes "\<And>t. \<not> e_cancelled env t" and "\<And>p. e_kill_ok env p" and "dm_inv m"
    and "go_sort (\<lambda>e. - snd e) srt" and "dm_stop_all env srt m = (m', r)"
  shows "r = None"
proof -
  have "\<forall>n \<in> fst ` set (srt (stop_entries m)). dm_get m n \<noteq> None"
  proof
    fix n assume "n \<in> fst ` set (srt (stop_entries m))"
    then have "n \<in> fst ` set (stop_entries m)" by (simp add: go_sort_set [OF assms(4)])
    then show "dm_get m n \<noteq> None" unfolding stop_entries_names(2) [OF assms(3)] by auto
  qed
  from stop_each_background [OF assms(1,2) this] assms(5) show ?thesis
    by (simp add: dm_stop_all_def)
qed

lemma stop_entries_at [simp]: "stop_entries (dm_at t m) = stop_entries m"
  by (simp add: stop_entries_def dm_list_def dm_at_def)

lemma background_simps [simp]:
  "\<not> e_cancelled (oe_dm (background env)) t" "\<not> pe_cancelled (oe_pm (background env)) t"
  "e_kill_ok (oe_dm (background env)) = e_kill_ok (oe_dm env)"
  "pe_kill_ok (oe_pm (background env)) = pe_kill_ok (oe_pm env)" "oe_down (background env) = oe_down env"
  by (simp_all add: background_def)

section \<open>The steps of the sequences\<close>

lemma run_phase_step:
  assumes "errgroup_doc (oe_pgroup env)" and "run_phase env phase x = (x', r)"
  shows "\<exists>es. o_log x' = o_log x @ map PE es \<and> prog_killed_after es \<and> o_dm x' = o_dm x \<and> o_wm x' = o_wm x
    \<and> o_features x' = o_features x"
  using assms(2) unfolding run_phase_def
  by (rule on_pm_log [rotated]) (rule start_phase_log [OF assms(1)])

lemma start_all_step:
  assumes "errgroup_doc (oe_dgroup env)"
    and "on_dm (dm_start_all (oe_dm env) (oe_dgroup env) (oe_up env)) x = (x', r)"
  shows "\<exists>es. o_log x' = o_log x @ map DE es \<and> killed_after es \<and> o_pm x' = o_pm x \<and> o_wm x' = o_wm x
    \<and> o_features x' = o_features x"
  using assms(2) by (rule on_dm_log [rotated]) (rule start_all_log [OF assms(1)])

lemma stop_phase_step:
  assumes "on_pm (stop_phase env phase) x = (x', r)"
  shows "\<exists>es. o_log x' = o_log x @ map PE es \<and> o_dm x' = o_dm x \<and> o_wm x' = o_wm x"
  using on_pm_log [where P = "\<lambda>_. True" and f = "stop_phase env phase", OF _ assms] stop_phase_log by blast

lemma stop_all_step:
  assumes "on_dm (dm_stop_all env srt) x = (x', r)"
  shows "\<exists>es. o_log x' = o_log x @ map DE es \<and> o_pm x' = o_pm x \<and> o_wm x' = o_wm x"
  using on_dm_log [where P = "\<lambda>_. True" and f = "dm_stop_all env srt", OF _ assms] stop_all_log by blast

lemma wm_start_step:
  assumes "on_wm (wm_start env) x = (x', r)"
  shows "\<exists>es. o_log x' = o_log x @ map WE es \<and> o_pm x' = o_pm x \<and> o_dm x' = o_dm x \<and> o_features x' = o_features x"
  using on_wm_log [where f = "wm_start env", OF _ assms] wm_start_log by blast

lemma wm_stop_step:
  assumes "on_wm (wm_stop env) x = (x', r)"
  shows "\<exists>es. o_log x' = o_log x @ map WE es \<and> o_pm x' = o_pm x \<and> o_dm x' = o_dm x \<and> o_features x' = o_features x"
  using on_wm_log [where f = "wm_stop env", OF _ assms] wm_stop_log by blast

lemma wm_start_running:
  "wm_inv m \<Longrightarrow> wm_enabled m \<Longrightarrow> wm_start env m = (m', None) \<Longrightarrow> w_state m' = StateRunning"
  by (auto simp: wm_start_def wm_start_process_def wm_inv_def Let_def wm_sections
      split: if_splits list.splits option.splits)

section \<open>Shutting a component down\<close>

text \<open>Stopping the phase "post" and then, at a later time, the phase "early" stops every program of the
  two.\<close>

lemma two_phases_background:
  assumes "\<And>t. \<not> pe_cancelled env t" and "\<And>p. pe_kill_ok env p" and "pm_inv m"
    and "pm_get (fst (stop_phase env phase_early (pm_at t (fst (stop_phase env phase_post m))))) n = Some p"
    and "managed_phase p"
  shows "\<not> prog_is_running p"
proof (cases "phase_or_default p = phase_early")
  case True
  let ?m1 = "pm_at t (fst (stop_phase env phase_post m))"
  have "pm_inv ?m1" using stop_phase_inv [OF assms(3)] by simp
  from stop_phase_background [OF assms(1,2) this assms(4) True] show ?thesis .
next
  case False
  let ?m1 = "fst (stop_phase env phase_post m)"
  have post: "phase_or_default p = phase_post" using False assms(5) by (auto simp: managed_phase_def)
  have "\<not> prog_is_running q" if q: "pm_get ?m1 n = Some q" for q
  proof -
    have "phase_or_default q = phase_or_default p"
      using stop_programs_config [of env "stop_phase_names phase_early (pm_at t ?m1)" "pm_at t ?m1" n] q assms(4)
      by (simp add: stop_phase_def phase_or_default_def)
    with post stop_phase_background [OF assms(1,2,3) q] show ?thesis by simp
  qed
  then have "\<forall>q. pm_get (pm_at t ?m1) n = Some q \<longrightarrow> \<not> prog_is_running q" by simp
  from stop_programs_keep_stopped [OF assms(1,2) this] assms(4) show ?thesis
    by (simp add: stop_phase_def)
qed

lemma wm_stop_step_stopped:
  assumes "on_wm (wm_stop env) x = (x', r)" and "wm_enabled (o_wm x)"
  shows "w_state (o_wm x') = StateStopped"
proof -
  obtain m e where m: "wm_stop env ((o_wm x)\<lparr>w_clock := o_clock x\<rparr>) = (m, e)" by fastforce
  have "wm_enabled ((o_wm x)\<lparr>w_clock := o_clock x\<rparr>)" using assms(2) by (simp add: wm_enabled_def)
  from wm_stop_result [OF this m] assms(1) m show ?thesis by (auto simp: on_wm_def)
qed

lemma stop_all_step_background:
  assumes "\<And>t. \<not> e_cancelled env t" and "\<And>p. e_kill_ok env p" and "dm_inv (o_dm x)"
    and "go_sort (\<lambda>e. - snd e) srt" and "on_dm (dm_stop_all env srt) x = (x', r)"
  shows "(\<forall>n d. dm_get (o_dm x') n = Some d \<and> dc_enabled (d_config d) \<longrightarrow> \<not> is_running d)
    \<and> (\<exists>es. o_log x' = o_log x @ map DE es
        \<and> sigterms es = map (\<lambda>e. pgid_of (o_dm x) (fst e)) (srt (stop_entries (o_dm x))))"
proof -
  let ?m = "dm_at (o_clock x) (o_dm x)"
  have all: "dm_stop_all env srt ?m = (o_dm x', r)"
    and log: "o_log x' = o_log x @ map DE (drop (length (dm_trace (o_dm x))) (dm_trace (o_dm x')))"
    using assms(5) by (auto simp: on_dm_def split: prod.splits)
  have inv: "dm_inv ?m" using assms(3) by simp
  have "r = None" by (rule stop_all_background [OF assms(1,2) inv assms(4) all])
  note stopped = stop_all_result [OF inv assms(4) all]
  obtain es where es: "dm_trace (o_dm x') = dm_trace (o_dm x) @ es" using stop_all_log [OF all] by auto
  then have "sigterms es = map (\<lambda>e. pgid_of (o_dm x) (fst e)) (srt (stop_entries (o_dm x)))"
    using stopped by (simp add: pgid_of_def)
  with log es stopped \<open>r = None\<close> show ?thesis by auto
qed

lemma orch_shutdown_result:
  assumes "dm_inv (o_dm x)" and "pm_inv (o_pm x)" and "go_sort (\<lambda>e. - snd e) (oe_down env)"
    and "\<And>p. e_kill_ok (oe_dm env) p" and "\<And>p. pe_kill_ok (oe_pm env) p"
    and "orch_shutdown (background env) x = (x', r)"
  shows "r = None
    \<and> (\<forall>n p. pm_get (o_pm x') n = Some p \<and> managed_phase p \<longrightarrow> \<not> prog_is_running p)
    \<and> (\<forall>n d. dm_get (o_dm x') n = Some d \<and> dc_enabled (d_config d) \<longrightarrow> \<not> is_running d)
    \<and> (wm_enabled (o_wm x) \<longrightarrow> w_state (o_wm x') = StateStopped)
    \<and> (\<exists>e1 e2 e3 e4. o_log x' = o_log x @ map PE e1 @ map WE e2 @ map DE e3 @ map PE e4
        \<and> sigterms e3 = map (\<lambda>e. pgid_of (o_dm x) (fst e)) (oe_down env (stop_entries (o_dm x))))"
proof -
  let ?b = "background env"
  obtain x1 u1 where 1: "on_pm (stop_phase (oe_pm ?b) phase_post) x = (x1, u1)" by fastforce
  obtain x2 u2 where 2: "on_wm (wm_stop (oe_wm ?b)) x1 = (x2, u2)" by fastforce
  obtain x3 u3 where 3: "on_dm (dm_stop_all (oe_dm ?b) (oe_down env)) x2 = (x3, u3)" by fastforce
  obtain x4 u4 where 4: "on_pm (stop_phase (oe_pm ?b) phase_early) x3 = (x4, u4)" by fastforce
  have x': "x' = x4" and r: "r = None"
    using assms(6) 1 2 3 4 by (auto simp: orch_shutdown_def Let_def)
  have kills: "e_kill_ok (oe_dm ?b) p" "pe_kill_ok (oe_pm ?b) p" for p
    using assms(4,5) by simp_all
  obtain e1 e2 e4 where logs: "o_log x1 = o_log x @ map PE e1" "o_log x2 = o_log x1 @ map WE e2"
      "o_log x4 = o_log x3 @ map PE e4"
    and dm: "o_dm x2 = o_dm x" "o_dm x4 = o_dm x3" and wm: "o_wm x1 = o_wm x" "o_wm x4 = o_wm x2"
    and pm: "o_pm x3 = o_pm x1"
    using stop_phase_step [OF 1] wm_stop_step [OF 2] stop_all_step [OF 3] stop_phase_step [OF 4] by auto
  have "dm_inv (o_dm x2)" using assms(1) dm by simp
  from stop_all_step_background [OF background_simps(1) kills(1) this assms(3) 3] dm obtain e3 where
    daemons: "\<forall>n d. dm_get (o_dm x') n = Some d \<and> dc_enabled (d_config d) \<longrightarrow> \<not> is_running d"
    and log3: "o_log x3 = o_log x2 @ map DE e3"
      "sigterms e3 = map (\<lambda>e. pgid_of (o_dm x) (fst e)) (oe_down env (stop_entries (o_dm x)))"
    by (auto simp: x')
  have pm4: "o_pm x' = fst (stop_phase (oe_pm ?b) phase_early (pm_at (o_clock x3)
      (fst (stop_phase (oe_pm ?b) phase_post (pm_at (o_clock x) (o_pm x))))))"
    using 1 4 pm by (auto simp: x' on_pm_def split: prod.splits)
  have inv: "pm_inv (pm_at (o_clock x) (o_pm x))" using assms(2) by simp
  have progs: "\<not> prog_is_running p" if "pm_get (o_pm x') n = Some p" "managed_phase p" for n p
    using two_phases_background [OF background_simps(2) kills(2) inv] that unfolding pm4 by blast
  have "w_state (o_wm x') = StateStopped" if "wm_enabled (o_wm x)"
    using wm_stop_step_stopped [OF 2] that wm by (simp add: x')
  moreover have "o_log x' = o_log x @ map PE e1 @ map WE e2 @ map DE e3 @ map PE e4"
    using logs log3 by (simp add: x')
  ultimately show ?thesis using r progs daemons log3(2) by blast
qed

section \<open>An example installation\<close>

definition demo_orch :: orch where
  "demo_orch =
     \<lparr>o_dm = demo, o_pm = demo_pm, o_wm = demo_wm, o_features = new_registry, o_clock = 1, o_log = []\<rparr>"

definition demo_oenv :: orch_env where
  "demo_oenv =
     \<lparr>oe_dm = demo_env, oe_pm = demo_penv, oe_wm = demo_wenv, oe_dgroup = first_error_group,
      oe_pgroup = first_error_group, oe_up = sort_key snd, oe_down = sort_key (\<lambda>e. - snd e),
      oe_range1 = id, oe_range2 = id\<rparr>"

end
