(* ===== verification/Daemon_Steps.thy ===== *)
theory Daemon_Steps
  imports Daemon_Lifecycle
begin

text \<open>
  Concurrent calls on one daemon. \<open>Start\<close>, \<open>Stop\<close> and \<open>monitorDaemon\<close> run in goroutines of their own and
  only hold the daemon's lock inside the sections of \<open>Daemon_Manager\<close>; a step of this theory is one
  such section or one answer of the operating system. A thread is a goroutine at the point between
  two of its sections.
\<close>

section \<open>Threads and steps\<close>

text \<open>The flag of the start threads says that the caller is the monitor, which marks the daemon failed
  once more when \<open>Start\<close> returns an error.\<close>

datatype thread =
    StartCalled bool
  | StartLaunching bool
  | StartRecording bool int
  | StartWaiting bool
  | StartErrored
  | StopCalled
  | StopTerminating int
  | StopKilling int
  | MonitorCalled
  | MonitorWaiting int
  | MonitorStopping
  | MonitorClearing
  | MonitorBackoff

record sys =
  y_daemon :: daemon
  y_threads :: "thread multiset"
  y_procs :: "int set"
  y_signals :: "(int \<times> signal) list"

definition after_error :: "bool \<Rightarrow> thread multiset" where
  "after_error monitor = (if monitor then {#StartErrored#} else {#})"

text \<open>The kinds of steps: a management request, a process that ends, or a thread that goes on.\<close>

datatype kind = CallStart | CallStop | ProcessEnds | Goes

inductive dstep :: "kind \<Rightarrow> sys \<Rightarrow> sys \<Rightarrow> bool" where
  call_start: "dstep CallStart s (s\<lparr>y_threads := add_mset (StartCalled False) (y_threads s)\<rparr>)"
| call_stop: "dstep CallStop s (s\<lparr>y_threads := add_mset StopCalled (y_threads s)\<rparr>)"
| proc_ends: "dstep ProcessEnds s (s\<lparr>y_procs := y_procs s - {p}\<rparr>)"
| start_skip:
    "y_threads s = add_mset (StartCalled b) T \<Longrightarrow> start_gate (y_daemon s) = Skip
     \<Longrightarrow> dstep Goes s (s\<lparr>y_threads := T\<rparr>)"
| start_pass:
    "y_threads s = add_mset (StartCalled b) T \<Longrightarrow> start_gate (y_daemon s) = Proceed
     \<Longrightarrow> dstep Goes s (s\<lparr>y_threads := add_mset (StartLaunching b) T,
                      y_daemon := set_state DaemonStarting (y_daemon s)\<rparr>)"
| launch_fails:
    "y_threads s = add_mset (StartLaunching b) T
     \<Longrightarrow> dstep Goes s (s\<lparr>y_threads := after_error b + T,
                      y_daemon := set_state DaemonFailed (y_daemon s)\<rparr>)"
| launch:
    "y_threads s = add_mset (StartLaunching b) T \<Longrightarrow> 0 < p \<Longrightarrow> p \<notin> y_procs s
     \<Longrightarrow> dstep Goes s (s\<lparr>y_threads := add_mset (StartRecording b p) T, y_procs := insert p (y_procs s)\<rparr>)"
| record_pid:
    "y_threads s = add_mset (StartRecording b p) T
     \<Longrightarrow> dstep Goes s (s\<lparr>y_threads := add_mset (StartWaiting b) T,
                      y_daemon := record_process p now (y_daemon s)\<rparr>)"
| socket_ready:
    "y_threads s = add_mset (StartWaiting b) T
     \<Longrightarrow> dstep Goes s (s\<lparr>y_threads := add_mset MonitorCalled T,
                      y_daemon := set_state DaemonRunning (y_daemon s)\<rparr>)"
| socket_timeout:
    "y_threads s = add_mset (StartWaiting b) T \<Longrightarrow> dc_socket (d_config (y_daemon s)) \<noteq> []
     \<Longrightarrow> dstep Goes s (s\<lparr>y_threads := after_error b + T,
                      y_daemon := set_state DaemonFailed (y_daemon s)\<rparr>)"
| mark_failed:
    "y_threads s = add_mset StartErrored T
     \<Longrightarrow> dstep Goes s (s\<lparr>y_threads := T, y_daemon := set_state DaemonFailed (y_daemon s)\<rparr>)"
| stop_skip:
    "y_threads s = add_mset StopCalled T
     \<Longrightarrow> d_state (y_daemon s) \<noteq> DaemonRunning \<Longrightarrow> d_state (y_daemon s) \<noteq> DaemonStarting
     \<Longrightarrow> dstep Goes s (s\<lparr>y_threads := T\<rparr>)"
| stop_term:
    "y_threads s = add_mset StopCalled T
     \<Longrightarrow> d_state (y_daemon s) = DaemonRunning \<or> d_state (y_daemon s) = DaemonStarting
     \<Longrightarrow> dstep Goes s (s\<lparr>y_threads := add_mset (StopTerminating (d_pgid (y_daemon s))) T,
                      y_signals := y_signals s @ [(d_pgid (y_daemon s), SIGTERM)]\<rparr>)"
| stop_cancelled:
    "y_threads s = add_mset (StopTerminating g) T \<Longrightarrow> dstep Goes s (s\<lparr>y_threads := T\<rparr>)"
| stop_kill_fails:
    "y_threads s = add_mset (StopTerminating g) T
     \<Longrightarrow> dstep Goes s (s\<lparr>y_threads := T, y_signals := y_signals s @ [(g, SIGKILL)]\<rparr>)"
| stop_gone:
    "y_threads s = add_mset (StopTerminating g) T \<Longrightarrow> g \<noteq> 0 \<Longrightarrow> g \<notin> y_procs s
     \<Longrightarrow> dstep Goes s (s\<lparr>y_threads := T, y_daemon := cleanup_daemon now (y_daemon s)\<rparr>)"
| stop_kill:
    "y_threads s = add_mset (StopTerminating g) T
     \<Longrightarrow> dstep Goes s (s\<lparr>y_threads := add_mset (StopKilling g) T, y_procs := y_procs s - {g},
                      y_signals := y_signals s @ [(g, SIGKILL)]\<rparr>)"
| stop_killed:
    "y_threads s = add_mset (StopKilling g) T
     \<Longrightarrow> dstep Goes s (s\<lparr>y_threads := T, y_daemon := cleanup_daemon now (y_daemon s)\<rparr>)"
| monitor_reads:
    "y_threads s = add_mset MonitorCalled T \<Longrightarrow> d_cmd (y_daemon s) = Some p
     \<Longrightarrow> dstep Goes s (s\<lparr>y_threads := add_mset (MonitorWaiting p) T\<rparr>)"
| monitor_nil:
    "y_threads s = add_mset MonitorCalled T \<Longrightarrow> d_cmd (y_daemon s) = None
     \<Longrightarrow> dstep Goes s (s\<lparr>y_threads := T\<rparr>)"
| monitor_gives_up:
    "y_threads s = add_mset (MonitorWaiting p) T \<Longrightarrow> p \<notin> y_procs s
     \<Longrightarrow> \<not> should_restart (d_restart_count (y_daemon s)) (dc_restart (d_config (y_daemon s))) failed
     \<Longrightarrow> dstep Goes s (s\<lparr>y_threads := add_mset MonitorStopping T\<rparr>)"
| monitor_restarts:
    "y_threads s = add_mset (MonitorWaiting p) T \<Longrightarrow> p \<notin> y_procs s
     \<Longrightarrow> should_restart (d_restart_count (y_daemon s)) (dc_restart (d_config (y_daemon s))) failed
     \<Longrightarrow> dstep Goes s (s\<lparr>y_threads := add_mset MonitorBackoff T\<rparr>)"
| monitor_stops:
    "y_threads s = add_mset MonitorStopping T
     \<Longrightarrow> dstep Goes s (s\<lparr>y_threads := add_mset MonitorClearing T,
                      y_daemon := set_state DaemonStopped (y_daemon s)\<rparr>)"
| monitor_clears:
    "y_threads s = add_mset MonitorClearing T
     \<Longrightarrow> dstep Goes s (s\<lparr>y_threads := T, y_daemon := monitor_clear now (y_daemon s)\<rparr>)"
| monitor_cancelled:
    "y_threads s = add_mset MonitorBackoff T \<Longrightarrow> dstep Goes s (s\<lparr>y_threads := T\<rparr>)"
| monitor_rearms:
    "y_threads s = add_mset MonitorBackoff T
     \<Longrightarrow> dstep Goes s (s\<lparr>y_threads := add_mset (StartCalled True) T,
                      y_daemon := monitor_rearm (y_daemon s)\<rparr>)"

inductive_cases dstep_elim: "dstep k s s'"

text \<open>Reachable by steps of the given kinds.\<close>

inductive reach :: "kind set \<Rightarrow> sys \<Rightarrow> sys \<Rightarrow> bool" for K s0 where
  reach_start: "reach K s0 s0"
| reach_step: "reach K s0 s \<Longrightarrow> dstep k s s' \<Longrightarrow> k \<in> K \<Longrightarrow> reach K s0 s'"

definition fresh_sys :: "daemon_config \<Rightarrow> sys" where
  "fresh_sys dc = \<lparr>y_daemon = new_daemon dc, y_threads = {#}, y_procs = {}, y_signals = []\<rparr>"

section \<open>Without \<open>Stop\<close>, starts exclude each other\<close>

fun launching :: "thread \<Rightarrow> bool" where
  "launching (StartLaunching b) = True"
| "launching (StartRecording b p) = True"
| "launching (StartWaiting b) = True"
| "launching _ = False"

fun watching :: "thread \<Rightarrow> bool" where
  "watching MonitorCalled = True"
| "watching (MonitorWaiting p) = True"
| "watching MonitorStopping = True"
| "watching MonitorBackoff = True"
| "watching (StartCalled b) = b"
| "watching _ = False"

text \<open>Threads that do not occur without \<open>Stop\<close>: those of \<open>Stop\<close>, and a restart by the monitor that
  gets through the guard.\<close>

fun foreign :: "thread \<Rightarrow> bool" where
  "foreign StopCalled = True"
| "foreign (StopTerminating g) = True"
| "foreign (StopKilling g) = True"
| "foreign StartErrored = True"
| "foreign (StartLaunching b) = b"
| "foreign (StartRecording b p) = b"
| "foreign (StartWaiting b) = b"
| "foreign _ = False"

definition threads_with :: "(thread \<Rightarrow> bool) \<Rightarrow> thread multiset \<Rightarrow> nat" where
  "threads_with P T = size (filter_mset P T)"

lemma threads_with_simps [simp]:
  "threads_with P {#} = 0"
  "threads_with P (add_mset t T) = (if P t then Suc (threads_with P T) else threads_with P T)"
  "threads_with P (T + T') = threads_with P T + threads_with P T'"
  by (simp_all add: threads_with_def)

definition launches :: "sys \<Rightarrow> nat" where
  "launches s = threads_with launching (y_threads s)"

definition watches :: "sys \<Rightarrow> nat" where
  "watches s = threads_with watching (y_threads s)"

definition exclusive :: "sys \<Rightarrow> bool" where
  "exclusive s \<longleftrightarrow> (\<forall>t \<in># y_threads s. \<not> foreign t) \<and> launches s + watches s \<le> 1
     \<and> (launches s = 1 \<longrightarrow> d_state (y_daemon s) = DaemonStarting)
     \<and> (watches s = 1 \<longrightarrow> d_state (y_daemon s) = DaemonRunning)"

lemmas exclusive_defs = exclusive_def launches_def watches_def

lemma gate_states:
  "start_gate d = Proceed \<Longrightarrow> d_state d \<noteq> DaemonRunning \<and> d_state d \<noteq> DaemonStarting"
  "start_gate d = Skip \<Longrightarrow> d_state d = DaemonRunning \<or> d_state d = DaemonStarting"
  by (auto simp: start_gate_def split: if_splits)

lemma exclusive_step:
  assumes "dstep k s s'" and "k \<noteq> CallStop" and "exclusive s"
  shows "exclusive s'"
  using assms
  by (induction rule: dstep.induct)
    (auto simp: exclusive_defs set_state_def record_process_def monitor_clear_def monitor_rearm_def
      after_error_def dest: gate_states split: if_splits)

lemma exclusive_reach:
  "reach K s0 s \<Longrightarrow> CallStop \<notin> K \<Longrightarrow> exclusive s0 \<Longrightarrow> exclusive s"
  by (induction rule: reach.induct) (auto intro: exclusive_step)

lemma exclusive_fresh: "exclusive (fresh_sys dc)"
  by (simp add: exclusive_defs fresh_sys_def)

text \<open>C30: as long as nobody calls \<open>Stop\<close>, however calls of \<open>Start\<close>, monitors and ends of processes
  interleave, at most one start is between the guard and its end, the daemon is then "starting",
  and no monitor waits on it; at most one monitor is at work.\<close>

theorem starts_exclude_each_other:
  assumes "reach {CallStart, ProcessEnds, Goes} (fresh_sys dc) s"
  shows "launches s \<le> 1 \<and> watches s \<le> 1
    \<and> (launches s = 1 \<longrightarrow> watches s = 0 \<and> d_state (y_daemon s) = DaemonStarting)"
  using exclusive_reach [OF assms _ exclusive_fresh] by (simp add: exclusive_def)

section \<open>Schedules\<close>

text \<open>Concrete schedules are sequences of reachable states, each a step from the one before.\<close>

lemma reach_then:
  "reach K s0 s \<Longrightarrow> dstep k s s' \<Longrightarrow> s' = s'' \<Longrightarrow> k \<in> K \<Longrightarrow> reach K s0 s''"
  by (auto intro: reach_step)

definition at :: "daemon \<Rightarrow> thread multiset \<Rightarrow> int set \<Rightarrow> (int \<times> signal) list \<Rightarrow> sys" where
  "at d T P S = \<lparr>y_daemon = d, y_threads = T, y_procs = P, y_signals = S\<rparr>"

lemma at_simps [simp]:
  "y_daemon (at d T P S) = d" "y_threads (at d T P S) = T" "y_procs (at d T P S) = P"
  "y_signals (at d T P S) = S"
  "at d T P S\<lparr>y_daemon := d'\<rparr> = at d' T P S" "at d T P S\<lparr>y_threads := T'\<rparr> = at d T' P S"
  "at d T P S\<lparr>y_procs := P'\<rparr> = at d T P' S" "at d T P S\<lparr>y_signals := S'\<rparr> = at d T P S'"
  by (simp_all add: at_def)

lemma fresh_at: "fresh_sys dc = at (new_daemon dc) {#} {} []"
  by (simp add: fresh_sys_def at_def)

lemma fresh_gate: "start_gate (new_daemon dc) = Proceed"
  by (simp add: start_gate_def new_daemon_def)

theorem starts_exclude_each_other_witness:
  "launches (at (set_state DaemonStarting (new_daemon bus_config))
     {#StartLaunching False, StartCalled False#} {} []) \<le> 1"
proof -
  let ?K = "{CallStart, ProcessEnds, Goes}"
  have "reach ?K (fresh_sys bus_config) (at (new_daemon bus_config) {#StartCalled False#} {} [])"
    by (rule reach_then [OF reach_start call_start]) (simp_all add: fresh_at)
  then have "reach ?K (fresh_sys bus_config)
      (at (set_state DaemonStarting (new_daemon bus_config)) {#StartLaunching False#} {} [])"
    by (rule reach_then [OF _ start_pass [where b = False and T = "{#}"]]) (simp_all add: fresh_gate)
  then have "reach ?K (fresh_sys bus_config)
      (at (set_state DaemonStarting (new_daemon bus_config)) {#StartLaunching False, StartCalled False#} {} [])"
    by (rule reach_then [OF _ call_start]) (simp_all add: add_mset_commute)
  from starts_exclude_each_other [OF this] show ?thesis by simp
qed

text \<open>The start of a daemon without a socket, up to its monitor waiting for the process.\<close>

definition up :: "daemon \<Rightarrow> int \<Rightarrow> daemon" where
  "up d p = set_state DaemonRunning (record_process p 0 (set_state DaemonStarting d))"

lemma start_runs:
  assumes "reach K s0 (at d (add_mset (StartCalled b) T) P S)" and "Goes \<in> K"
    and "start_gate d = Proceed" and "0 < p" and "p \<notin> P"
  shows "reach K s0 (at (up d p) (add_mset (MonitorWaiting p) T) (insert p P) S)"
proof -
  let ?d = "set_state DaemonStarting d"
  have "reach K s0 (at ?d (add_mset (StartLaunching b) T) P S)"
    by (rule reach_then [OF assms(1) start_pass [where b = b and T = T]]) (simp_all add: assms)
  then have "reach K s0 (at ?d (add_mset (StartRecording b p) T) (insert p P) S)"
    by (rule reach_then [OF _ launch [where b = b and T = T and p = p]]) (simp_all add: assms)
  then have "reach K s0 (at (record_process p 0 ?d) (add_mset (StartWaiting b) T) (insert p P) S)"
    by (rule reach_then [OF _ record_pid [where b = b and T = T and p = p and now = 0]]) (simp_all add: assms)
  then have "reach K s0 (at (up d p) (add_mset MonitorCalled T) (insert p P) S)"
    by (rule reach_then [OF _ socket_ready [where b = b and T = T]]) (simp_all add: assms up_def)
  then show ?thesis
    by (rule reach_then [OF _ monitor_reads [where T = T and p = p]])
      (simp_all add: assms up_def set_state_def record_process_def)
qed

lemma fresh_call: "CallStart \<in> K \<Longrightarrow> reach K (fresh_sys dc) (at (new_daemon dc) {#StartCalled False#} {} [])"
  by (rule reach_then [OF reach_start call_start]) (simp_all add: fresh_at)

text \<open>C31: with \<open>Stop\<close> the exclusion is gone. A \<open>Stop\<close> that arrives between the guard of a \<open>Start\<close> and the
  recording of its pid reads process group 0, signals the manager's own group, and marks the daemon
  stopped, so that a second \<open>Start\<close> passes the guard while the first is still launching.\<close>

theorem stop_during_start_breaks_exclusion:
  "\<exists>s. reach UNIV (fresh_sys dc) s \<and> launches s = 2 \<and> (0, SIGTERM) \<in> set (y_signals s)
     \<and> (0, SIGKILL) \<in> set (y_signals s)"
proof -
  let ?r = "reach UNIV (fresh_sys dc)"
  let ?d = "set_state DaemonStarting (new_daemon dc)"
  let ?c = "cleanup_daemon 0 ?d"
  let ?L = "StartLaunching False"
  have zero: "d_pgid ?d = 0" "d_state ?d = DaemonStarting"
    by (simp_all add: set_state_def new_daemon_def)
  have "?r (at ?d {#?L#} {} [])"
    by (rule reach_then [OF fresh_call start_pass [where b = False and T = "{#}"]])
      (simp_all add: fresh_gate)
  then have "?r (at ?d {#StopCalled, ?L#} {} [])"
    by (rule reach_then [OF _ call_stop]) simp_all
  then have "?r (at ?d {#StopTerminating 0, ?L#} {} [(0, SIGTERM)])"
    by (rule reach_then [OF _ stop_term [where T = "{#?L#}"]]) (simp_all add: zero)
  then have "?r (at ?d {#StopKilling 0, ?L#} {} [(0, SIGTERM), (0, SIGKILL)])"
    by (rule reach_then [OF _ stop_kill [where T = "{#?L#}" and g = 0]]) simp_all
  then have "?r (at ?c {#?L#} {} [(0, SIGTERM), (0, SIGKILL)])"
    by (rule reach_then [OF _ stop_killed [where T = "{#?L#}" and g = 0 and now = 0]]) simp_all
  then have "?r (at ?c {#StartCalled False, ?L#} {} [(0, SIGTERM), (0, SIGKILL)])"
    by (rule reach_then [OF _ call_start]) simp_all
  then have "?r (at (set_state DaemonStarting ?c) {#?L, ?L#} {} [(0, SIGTERM), (0, SIGKILL)])"
    by (rule reach_then [OF _ start_pass [where b = False and T = "{#?L#}"]])
      (simp_all add: start_gate_def cleanup_daemon_def)
  moreover have "launches (at (set_state DaemonStarting ?c) {#?L, ?L#} {} [(0, SIGTERM), (0, SIGKILL)]) = 2"
    by (simp add: launches_def)
  ultimately show ?thesis by fastforce
qed

text \<open>A \<open>Stop\<close> that completes while the monitor is in its backoff does not hold: the monitor has
  already decided, the state "stopped" lets its \<open>Start\<close> through, and the daemon runs again although
  no start was requested after the stop.\<close>

theorem stop_during_backoff_is_undone:
  assumes "dc_restart dc = RestartAlways"
  shows "\<exists>s1 s2. reach UNIV (fresh_sys dc) s1
    \<and> d_state (y_daemon s1) = DaemonStopped \<and> y_procs s1 = {} \<and> y_threads s1 = {#MonitorBackoff#}
    \<and> reach {Goes} s1 s2 \<and> d_state (y_daemon s2) = DaemonRunning \<and> y_procs s2 \<noteq> {}"
proof -
  let ?r = "reach UNIV (fresh_sys dc)"
  let ?d = "up (new_daemon dc) 1"
  let ?c = "cleanup_daemon 0 ?d"
  let ?s1 = "at ?c {#MonitorBackoff#} {} [(1, SIGTERM)]"
  have d: "d_state ?d = DaemonRunning" "d_pgid ?d = 1" "d_config ?d = dc"
    by (simp_all add: up_def set_state_def record_process_def new_daemon_def)
  have "?r (at ?d {#MonitorWaiting 1#} {1} [])"
    by (rule start_runs [OF fresh_call]) (simp_all add: fresh_gate)
  then have "?r (at ?d {#StopCalled, MonitorWaiting 1#} {1} [])"
    by (rule reach_then [OF _ call_stop]) simp_all
  then have "?r (at ?d {#StopTerminating 1, MonitorWaiting 1#} {1} [(1, SIGTERM)])"
    by (rule reach_then [OF _ stop_term [where T = "{#MonitorWaiting 1#}"]]) (simp_all add: d)
  then have "?r (at ?d {#StopTerminating 1, MonitorWaiting 1#} {} [(1, SIGTERM)])"
    by (rule reach_then [OF _ proc_ends [where p = 1]]) simp_all
  then have "?r (at ?d {#StopTerminating 1, MonitorBackoff#} {} [(1, SIGTERM)])"
    by (rule reach_then [OF _ monitor_restarts [where T = "{#StopTerminating 1#}" and p = 1 and failed = True]])
      (simp_all add: d assms should_restart_def add_mset_commute)
  then have s1: "?r ?s1"
    by (rule reach_then [OF _ stop_gone [where T = "{#MonitorBackoff#}" and g = 1 and now = 0]])
      (simp_all add: add_mset_commute)
  have "reach {Goes} ?s1 (at (monitor_rearm ?c) {#StartCalled True#} {} [(1, SIGTERM)])"
    by (rule reach_then [OF reach_start monitor_rearms [where T = "{#}"]]) simp_all
  then have "reach {Goes} ?s1 (at (up (monitor_rearm ?c) 2) {#MonitorWaiting 2#} {2} [(1, SIGTERM)])"
    by (rule start_runs) (simp_all add: start_gate_def monitor_rearm_def cleanup_daemon_def)
  moreover have "d_state (up (monitor_rearm ?c) 2) = DaemonRunning"
    by (simp add: up_def set_state_def)
  moreover have "d_state ?c = DaemonStopped" by (simp add: cleanup_daemon_def)
  ultimately show ?thesis using s1
    by (intro exI [of _ ?s1] exI [of _ "at (up (monitor_rearm ?c) 2) {#MonitorWaiting 2#} {2} [(1, SIGTERM)]"])
      simp
qed

theorem stop_during_backoff_is_undone_witness:
  "\<exists>s. reach UNIV (fresh_sys indexd_config) s \<and> d_state (y_daemon s) = DaemonStopped
     \<and> y_threads s = {#MonitorBackoff#}"
  using stop_during_backoff_is_undone [of indexd_config] by (auto simp: indexd_config_def)

text \<open>even without \<open>Stop\<close> a process can get lost. The monitor of a daemon that is not restarted marks
  it stopped in one section and clears its pid in the next; a \<open>Start\<close> in between runs to its end, and
  the late clearing then erases the pid and the command of the new process, which stays alive.\<close>

theorem late_clearing_loses_process:
  assumes "dc_restart dc = RestartDisabled"
  shows "\<exists>s. reach {CallStart, ProcessEnds, Goes} (fresh_sys dc) s
    \<and> d_state (y_daemon s) = DaemonRunning \<and> d_cmd (y_daemon s) = None \<and> d_pid (y_daemon s) = 0
    \<and> y_procs s \<noteq> {}"
proof -
  let ?r = "reach {CallStart, ProcessEnds, Goes} (fresh_sys dc)"
  let ?d = "up (new_daemon dc) 1"
  let ?e = "set_state DaemonStopped ?d"
  have d: "d_config ?d = dc"
    by (simp_all add: up_def set_state_def record_process_def new_daemon_def)
  have "?r (at ?d {#MonitorWaiting 1#} {1} [])"
    by (rule start_runs [OF fresh_call]) (simp_all add: fresh_gate)
  then have "?r (at ?d {#MonitorWaiting 1#} {} [])"
    by (rule reach_then [OF _ proc_ends [where p = 1]]) simp_all
  then have "?r (at ?d {#MonitorStopping#} {} [])"
    by (rule reach_then [OF _ monitor_gives_up [where T = "{#}" and p = 1 and failed = True]])
      (simp_all add: d assms should_restart_def policy_names)
  then have "?r (at ?e {#MonitorClearing#} {} [])"
    by (rule reach_then [OF _ monitor_stops [where T = "{#}"]]) simp_all
  then have "?r (at ?e {#StartCalled False, MonitorClearing#} {} [])"
    by (rule reach_then [OF _ call_start]) simp_all
  then have "?r (at (up ?e 2) {#MonitorWaiting 2, MonitorClearing#} {2} [])"
    by (rule start_runs) (simp_all add: start_gate_def set_state_def)
  then have "?r (at (monitor_clear 0 (up ?e 2)) {#MonitorWaiting 2#} {2} [])"
    by (rule reach_then [OF _ monitor_clears [where T = "{#MonitorWaiting 2#}" and now = 0]])
      (simp_all add: add_mset_commute)
  then show ?thesis
    by (intro exI [of _ "at (monitor_clear 0 (up ?e 2)) {#MonitorWaiting 2#} {2} []"])
      (simp add: monitor_clear_def up_def set_state_def)
qed

theorem late_clearing_loses_process_witness:
  "\<exists>s. reach {CallStart, ProcessEnds, Goes} (fresh_sys (bus_config\<lparr>dc_restart := RestartDisabled\<rparr>)) s
     \<and> d_pid (y_daemon s) = 0 \<and> y_procs s \<noteq> {}"
  using late_clearing_loses_process [of "bus_config\<lparr>dc_restart := RestartDisabled\<rparr>"] by auto

end
