(* ===== verification/Program_Steps.thy ===== *)
theory Program_Steps
  imports Program_Lifecycle "HOL-Library.Multiset"
begin

text \<open>
  Concurrent calls on one program. \<open>StartProgram\<close>, \<open>StopProgram\<close>, \<open>monitorProgram\<close> and
  \<open>RunHealthCheck\<close> run in goroutines of their own and hold the program's lock only inside the sections of
  \<open>Program_Manager\<close>; a step of this theory is one such section or one answer of the operating system. The
  sections are finer here where the code unlocks in between: a change of state and the fields that go with
  it are two.
\<close>

section \<open>Threads and steps\<close>

datatype pthread =
    PStartCalled
  | PStartDeps
  | PStartDelay
  | PStartReady
  | PStartLaunching
  | PStartRecording int
  | PStartRecorded
  | PStartHealthy
  | PStopCalled
  | PStopTerminating int
  | PStopKilling int
  | PStopGone
  | PStopClearing
  | PMonitorCalled
  | PMonitorWaiting int bool
  | PHealthCalled
  | PHealthChecking
  | PHealthPassed
  | PHealthFailed

record psys =
  q_prog :: program
  q_threads :: "pthread multiset"
  q_procs :: "int set"
  q_signals :: "(int \<times> signal) list"

text \<open>The kinds of steps: a call while no other call of \<open>StartProgram\<close> is under way, or at any time; a
  process that ends; a thread that goes on.\<close>

datatype pkind = StartAlone | StartAnytime | StopAnytime | ProgEnds | Runs

fun starting :: "pthread \<Rightarrow> bool" where
  "starting PStartCalled = True"
| "starting PStartDeps = True"
| "starting PStartDelay = True"
| "starting PStartReady = True"
| "starting PStartLaunching = True"
| "starting (PStartRecording p) = True"
| "starting PStartRecorded = True"
| "starting PStartHealthy = True"
| "starting _ = False"

definition clear_program :: "time \<Rightarrow> program \<Rightarrow> program" where
  "clear_program now p = p\<lparr>p_finished_at := now, p_cmd := None, p_pid := 0\<rparr>"

inductive pstep :: "pkind \<Rightarrow> psys \<Rightarrow> psys \<Rightarrow> bool" where
  p_call_alone:
    "\<forall>t \<in># q_threads s. \<not> starting t
     \<Longrightarrow> pstep StartAlone s (s\<lparr>q_threads := add_mset PStartCalled (q_threads s)\<rparr>)"
| p_call_start: "pstep StartAnytime s (s\<lparr>q_threads := add_mset PStartCalled (q_threads s)\<rparr>)"
| p_call_stop: "pstep StopAnytime s (s\<lparr>q_threads := add_mset PStopCalled (q_threads s)\<rparr>)"
| p_ends: "pstep ProgEnds s (s\<lparr>q_procs := q_procs s - {p}\<rparr>)"
| p_skip:
    "q_threads s = add_mset PStartCalled T \<Longrightarrow> \<not> prog_gate (q_prog s)
     \<Longrightarrow> pstep Runs s (s\<lparr>q_threads := T\<rparr>)"
| p_pass:
    "q_threads s = add_mset PStartCalled T \<Longrightarrow> prog_gate (q_prog s)
     \<Longrightarrow> pstep Runs s (s\<lparr>q_threads := add_mset PStartDeps T, q_prog := set_pstate ProgWaitingDeps (q_prog s)\<rparr>)"
| p_dep_missing:
    "q_threads s = add_mset PStartDeps T \<Longrightarrow> pc_depends_on (p_config (q_prog s)) \<noteq> []
     \<Longrightarrow> pstep Runs s (s\<lparr>q_threads := T\<rparr>)"
| p_dep_unhealthy:
    "q_threads s = add_mset PStartDeps T \<Longrightarrow> pc_depends_on (p_config (q_prog s)) \<noteq> []
     \<Longrightarrow> pstep Runs s (s\<lparr>q_threads := T, q_prog := set_pstate ProgFailed (q_prog s)\<rparr>)"
| p_deps_healthy:
    "q_threads s = add_mset PStartDeps T
     \<Longrightarrow> pstep Runs s (if pc_start_delay (p_config (q_prog s)) > 0
           then s\<lparr>q_threads := add_mset PStartDelay T, q_prog := set_pstate ProgWaitingDelay (q_prog s)\<rparr>
           else s\<lparr>q_threads := add_mset PStartReady T\<rparr>)"
| p_delay_cancelled:
    "q_threads s = add_mset PStartDelay T \<Longrightarrow> pstep Runs s (s\<lparr>q_threads := T\<rparr>)"
| p_delay_over:
    "q_threads s = add_mset PStartDelay T
     \<Longrightarrow> pstep Runs s (s\<lparr>q_threads := add_mset PStartReady T\<rparr>)"
| p_starting:
    "q_threads s = add_mset PStartReady T
     \<Longrightarrow> pstep Runs s (s\<lparr>q_threads := add_mset PStartLaunching T, q_prog := set_pstate ProgStarting (q_prog s)\<rparr>)"
| p_launch_fails:
    "q_threads s = add_mset PStartLaunching T
     \<Longrightarrow> pstep Runs s (s\<lparr>q_threads := T, q_prog := set_pstate ProgFailed (q_prog s)\<rparr>)"
| p_launch:
    "q_threads s = add_mset PStartLaunching T \<Longrightarrow> 0 < p \<Longrightarrow> p \<notin> q_procs s
     \<Longrightarrow> pstep Runs s (s\<lparr>q_threads := add_mset (PStartRecording p) T, q_procs := insert p (q_procs s)\<rparr>)"
| p_record:
    "q_threads s = add_mset (PStartRecording p) T
     \<Longrightarrow> pstep Runs s (s\<lparr>q_threads := add_mset PStartRecorded T, q_prog := record_program p now (q_prog s)\<rparr>)"
| p_checks:
    "q_threads s = add_mset PStartRecorded T \<Longrightarrow> pc_health_check (p_config (q_prog s)) \<noteq> []
     \<Longrightarrow> pstep Runs s (s\<lparr>q_threads := add_mset PHealthCalled (add_mset PMonitorCalled T)\<rparr>)"
| p_healthy:
    "q_threads s = add_mset PStartRecorded T \<Longrightarrow> pc_health_check (p_config (q_prog s)) = []
     \<Longrightarrow> pstep Runs s (s\<lparr>q_threads := add_mset PStartHealthy T, q_prog := set_pstate ProgHealthy (q_prog s)\<rparr>)"
| p_health_ok:
    "q_threads s = add_mset PStartHealthy T
     \<Longrightarrow> pstep Runs s (s\<lparr>q_threads := add_mset PMonitorCalled T, q_prog := (q_prog s)\<lparr>p_health := HealthOK\<rparr>\<rparr>)"
| p_stop_skip:
    "q_threads s = add_mset PStopCalled T \<Longrightarrow> \<not> prog_is_running (q_prog s)
     \<Longrightarrow> pstep Runs s (s\<lparr>q_threads := T\<rparr>)"
| p_stop_term:
    "q_threads s = add_mset PStopCalled T \<Longrightarrow> prog_is_running (q_prog s)
     \<Longrightarrow> pstep Runs s (s\<lparr>q_threads := add_mset (PStopTerminating (p_pid (q_prog s))) T,
                      q_signals := q_signals s @ [(p_pid (q_prog s), SIGTERM)]\<rparr>)"
| p_stop_gone:
    "q_threads s = add_mset (PStopTerminating g) T \<Longrightarrow> g \<noteq> 0 \<Longrightarrow> g \<notin> q_procs s
     \<Longrightarrow> pstep Runs s (s\<lparr>q_threads := add_mset PStopGone T\<rparr>)"
| p_stop_cancelled:
    "q_threads s = add_mset (PStopTerminating g) T \<Longrightarrow> pstep Runs s (s\<lparr>q_threads := T\<rparr>)"
| p_stop_kill_fails:
    "q_threads s = add_mset (PStopTerminating g) T
     \<Longrightarrow> pstep Runs s (s\<lparr>q_threads := T, q_signals := q_signals s @ [(g, SIGKILL)]\<rparr>)"
| p_stop_kill:
    "q_threads s = add_mset (PStopTerminating g) T
     \<Longrightarrow> pstep Runs s (s\<lparr>q_threads := add_mset (PStopKilling g) T, q_procs := q_procs s - {g},
                      q_signals := q_signals s @ [(g, SIGKILL)]\<rparr>)"
| p_stop_killed:
    "q_threads s = add_mset (PStopKilling g) T \<Longrightarrow> pstep Runs s (s\<lparr>q_threads := add_mset PStopGone T\<rparr>)"
| p_stop_marks:
    "q_threads s = add_mset PStopGone T
     \<Longrightarrow> pstep Runs s (s\<lparr>q_threads := add_mset PStopClearing T, q_prog := set_pstate ProgStopped (q_prog s)\<rparr>)"
| p_stop_clears:
    "q_threads s = add_mset PStopClearing T
     \<Longrightarrow> pstep Runs s (s\<lparr>q_threads := T, q_prog := clear_program now (q_prog s)\<rparr>)"
| p_monitor_nil:
    "q_threads s = add_mset PMonitorCalled T \<Longrightarrow> p_cmd (q_prog s) = None
     \<Longrightarrow> pstep Runs s (s\<lparr>q_threads := T\<rparr>)"
| p_monitor_reads:
    "q_threads s = add_mset PMonitorCalled T \<Longrightarrow> p_cmd (q_prog s) = Some p
     \<Longrightarrow> pstep Runs s (s\<lparr>q_threads := add_mset (PMonitorWaiting p (pc_restart (p_config (q_prog s)))) T\<rparr>)"
| p_monitor_ends:
    "q_threads s = add_mset (PMonitorWaiting p restart) T \<Longrightarrow> p \<notin> q_procs s
     \<Longrightarrow> pstep Runs s (s\<lparr>q_threads := T, q_prog := program_exited code restart now (q_prog s)\<rparr>)"
| p_health_begins:
    "q_threads s = add_mset PHealthCalled T
     \<Longrightarrow> pstep Runs s (s\<lparr>q_threads := add_mset PHealthChecking T, q_prog := (q_prog s)\<lparr>p_health := HealthChecking\<rparr>\<rparr>)"
| p_health_cancelled:
    "q_threads s = add_mset PHealthChecking T \<Longrightarrow> pstep Runs s (s\<lparr>q_threads := T\<rparr>)"
| p_health_passes:
    "q_threads s = add_mset PHealthChecking T
     \<Longrightarrow> pstep Runs s (s\<lparr>q_threads := add_mset PHealthPassed T, q_prog := (q_prog s)\<lparr>p_health := HealthOK\<rparr>\<rparr>)"
| p_health_fails:
    "q_threads s = add_mset PHealthChecking T
     \<Longrightarrow> pstep Runs s (s\<lparr>q_threads := add_mset PHealthFailed T, q_prog := (q_prog s)\<lparr>p_health := HealthFailed\<rparr>\<rparr>)"
| p_marks_healthy:
    "q_threads s = add_mset PHealthPassed T
     \<Longrightarrow> pstep Runs s (s\<lparr>q_threads := T, q_prog := set_pstate ProgHealthy (q_prog s)\<rparr>)"
| p_marks_failed:
    "q_threads s = add_mset PHealthFailed T
     \<Longrightarrow> pstep Runs s (s\<lparr>q_threads := T, q_prog := set_pstate ProgHealthFailed (q_prog s)\<rparr>)"

inductive_cases pstep_elim: "pstep k s s'"

inductive preach :: "pkind set \<Rightarrow> psys \<Rightarrow> psys \<Rightarrow> bool" for K s0 where
  preach_start: "preach K s0 s0"
| preach_step: "preach K s0 s \<Longrightarrow> pstep k s s' \<Longrightarrow> k \<in> K \<Longrightarrow> preach K s0 s'"

definition fresh_psys :: "program_config \<Rightarrow> psys" where
  "fresh_psys pc = \<lparr>q_prog = new_program pc, q_threads = {#}, q_procs = {}, q_signals = []\<rparr>"

section \<open>One start at a time runs one process\<close>

text \<open>A thread that stands for the current run of the program, and what it knows about the processes.\<close>

fun in_charge :: "pthread \<Rightarrow> bool" where
  "in_charge PStartDeps = True"
| "in_charge PStartDelay = True"
| "in_charge PStartReady = True"
| "in_charge PStartLaunching = True"
| "in_charge (PStartRecording p) = True"
| "in_charge PStartRecorded = True"
| "in_charge PStartHealthy = True"
| "in_charge PMonitorCalled = True"
| "in_charge (PMonitorWaiting p restart) = True"
| "in_charge _ = False"

fun knows :: "program \<Rightarrow> int set \<Rightarrow> pthread \<Rightarrow> bool" where
  "knows q P PStartCalled = True"
| "knows q P PStartDeps = (P = {} \<and> \<not> prog_is_running q)"
| "knows q P PStartDelay = (P = {} \<and> \<not> prog_is_running q)"
| "knows q P PStartReady = (P = {} \<and> \<not> prog_is_running q)"
| "knows q P PStartLaunching = (P = {} \<and> p_state q = ProgStarting)"
| "knows q P (PStartRecording p) = (P \<subseteq> {p} \<and> p_state q = ProgStarting)"
| "knows q P PStartRecorded = (P \<subseteq> {p_pid q} \<and> p_cmd q = Some (p_pid q) \<and> p_state q = ProgRunning)"
| "knows q P PStartHealthy = (P \<subseteq> {p_pid q} \<and> p_cmd q = Some (p_pid q) \<and> p_state q = ProgHealthy)"
| "knows q P PMonitorCalled = (P \<subseteq> {p_pid q} \<and> p_cmd q = Some (p_pid q) \<and> p_state q = ProgHealthy)"
| "knows q P (PMonitorWaiting p restart) = (P \<subseteq> {p} \<and> p = p_pid q \<and> p_state q = ProgHealthy)"
| "knows q P _ = False"

definition pcount :: "(pthread \<Rightarrow> bool) \<Rightarrow> pthread multiset \<Rightarrow> nat" where
  "pcount Q T = size (filter_mset Q T)"

lemma pcount_simps [simp]:
  "pcount Q {#} = 0"
  "pcount Q (add_mset t T) = (if Q t then Suc (pcount Q T) else pcount Q T)"
  by (simp_all add: pcount_def)

lemma pcount_none: "pcount Q T = 0 \<longleftrightarrow> (\<forall>t \<in># T. \<not> Q t)"
  by (auto simp: pcount_def)

definition single_run :: "psys \<Rightarrow> bool" where
  "single_run s \<longleftrightarrow> pc_health_check (p_config (q_prog s)) = []
     \<and> pcount starting (q_threads s) \<le> 1 \<and> pcount in_charge (q_threads s) \<le> 1
     \<and> (pcount in_charge (q_threads s) = 0 \<longrightarrow> q_procs s = {})
     \<and> (\<forall>t \<in># q_threads s. knows (q_prog s) (q_procs s) t)"

lemma no_one_in_charge: "knows q P t \<Longrightarrow> \<not> in_charge t \<Longrightarrow> knows q' P' t"
  by (cases t) auto

lemma knows_after:
  "\<forall>t \<in># T. knows q P t \<Longrightarrow> pcount in_charge T = 0 \<Longrightarrow> t \<in># T \<Longrightarrow> knows q' P' t"
  using no_one_in_charge by (auto simp: pcount_none)

lemma gate_finds_no_one:
  assumes "\<forall>t \<in># T. knows q P t" and "pcount starting T = 0" and "prog_gate q"
  shows "pcount in_charge T = 0"
proof -
  have "\<not> in_charge t" if "t \<in># T" for t
  proof -
    have "knows q P t" "\<not> starting t" using assms that by (auto simp: pcount_none)
    with \<open>prog_gate q\<close> show ?thesis by (cases t) (auto simp: prog_gate_def)
  qed
  then show ?thesis by (simp add: pcount_none)
qed

lemma knows_less: "knows q P t \<Longrightarrow> knows q (P - {p}) t"
  by (cases t) auto

lemma single_run_step:
  assumes "pstep k s s'" and "k \<in> {StartAlone, ProgEnds, Runs}" and "single_run s"
  shows "single_run s'"
  using assms
proof (induction rule: pstep.induct)
  case (p_call_alone s)
  then have "pcount starting (q_threads s) = 0" by (simp add: pcount_none)
  with p_call_alone show ?case by (simp add: single_run_def)
next
  case (p_ends s p)
  then show ?case using knows_less by (auto simp: single_run_def)
next
  case (p_pass s T)
  then have "pcount in_charge T = 0"
    by (intro gate_finds_no_one [of T "q_prog s" "q_procs s"]) (auto simp: single_run_def)
  with p_pass show ?case
    by (auto simp: single_run_def set_pstate_def prog_is_running_def intro: knows_after split: if_splits)
qed (auto simp: single_run_def set_pstate_def record_program_def program_exited_def prog_is_running_def
      intro: knows_after split: if_splits)

lemma single_run_reach:
  "preach K s0 s \<Longrightarrow> K \<subseteq> {StartAlone, ProgEnds, Runs} \<Longrightarrow> single_run s0 \<Longrightarrow> single_run s"
  by (induction rule: preach.induct) (blast intro: single_run_step)+

lemma single_run_fresh: "pc_health_check pc = [] \<Longrightarrow> single_run (fresh_psys pc)"
  by (simp add: single_run_def fresh_psys_def new_program_def)

lemma single_run_process:
  assumes "single_run s"
  shows "(\<exists>p. q_procs s \<subseteq> {p})
    \<and> (p_state (q_prog s) \<in> {ProgRunning, ProgHealthy} \<longrightarrow> q_procs s \<subseteq> {p_pid (q_prog s)})"
proof (cases "pcount in_charge (q_threads s) = 0")
  case True
  with assms show ?thesis by (simp add: single_run_def)
next
  case False
  then obtain t where "t \<in># q_threads s" "in_charge t" by (auto simp: pcount_none)
  moreover from this(1) assms have "knows (q_prog s) (q_procs s) t" by (simp add: single_run_def)
  ultimately show ?thesis by (cases t) (auto simp: prog_is_running_def)
qed

text \<open>C34: a program without a health check, whose starts do not overlap, has at most one process at any
  time, however its starts, its monitors and the ends of its processes interleave; while the program
  is reported running or healthy that process is the one whose pid the program holds; and at most one
  goroutine is in charge of it, with a process only while there is one.\<close>

theorem programs_start_once:
  assumes "pc_health_check pc = []" and "preach {StartAlone, ProgEnds, Runs} (fresh_psys pc) s"
  shows "(\<exists>p. q_procs s \<subseteq> {p})
    \<and> (p_state (q_prog s) \<in> {ProgRunning, ProgHealthy} \<longrightarrow> q_procs s \<subseteq> {p_pid (q_prog s)})
    \<and> pcount in_charge (q_threads s) \<le> 1
    \<and> (q_procs s \<noteq> {} \<longrightarrow> pcount in_charge (q_threads s) = 1)"
proof -
  have s: "single_run s" by (rule single_run_reach [OF assms(2) _ single_run_fresh [OF assms(1)]]) simp
  have "q_procs s \<noteq> {} \<Longrightarrow> pcount in_charge (q_threads s) = 1"
    using s by (auto simp: single_run_def le_Suc_eq)
  with single_run_process [OF s] s show ?thesis by (simp add: single_run_def)
qed

section \<open>Schedules\<close>

lemma preach_then:
  "preach K s0 s \<Longrightarrow> pstep k s s' \<Longrightarrow> s' = s'' \<Longrightarrow> k \<in> K \<Longrightarrow> preach K s0 s''"
  by (auto intro: preach_step)

definition psys_at :: "program \<Rightarrow> pthread multiset \<Rightarrow> int set \<Rightarrow> (int \<times> signal) list \<Rightarrow> psys" where
  "psys_at q T P S = \<lparr>q_prog = q, q_threads = T, q_procs = P, q_signals = S\<rparr>"

lemma psys_at_simps [simp]:
  "q_prog (psys_at q T P S) = q" "q_threads (psys_at q T P S) = T" "q_procs (psys_at q T P S) = P"
  "q_signals (psys_at q T P S) = S"
  "psys_at q T P S\<lparr>q_prog := q'\<rparr> = psys_at q' T P S" "psys_at q T P S\<lparr>q_threads := T'\<rparr> = psys_at q T' P S"
  "psys_at q T P S\<lparr>q_procs := P'\<rparr> = psys_at q T P' S" "psys_at q T P S\<lparr>q_signals := S'\<rparr> = psys_at q T P S'"
  by (simp_all add: psys_at_def)

lemma fresh_psys_at: "fresh_psys pc = psys_at (new_program pc) {#} {} []"
  by (simp add: fresh_psys_def psys_at_def)

text \<open>From the guard on, without dependencies to wait for and without a start delay.\<close>

definition launched :: "program \<Rightarrow> int \<Rightarrow> program" where
  "launched q p = record_program p 0 (set_pstate ProgStarting q)"

lemma passed_runs:
  assumes "preach K s0 (psys_at q (add_mset PStartDeps T) P S)" and "Runs \<in> K"
    and "pc_start_delay (p_config q) \<le> 0" and "0 < p" and "p \<notin> P"
  shows "preach K s0 (psys_at (launched q p) (add_mset PStartRecorded T) (insert p P) S)"
proof -
  let ?q = "set_pstate ProgStarting q"
  have "preach K s0 (psys_at q (add_mset PStartReady T) P S)"
    by (rule preach_then [OF assms(1) p_deps_healthy [where T = T]]) (use assms in simp_all)
  then have "preach K s0 (psys_at ?q (add_mset PStartLaunching T) P S)"
    by (rule preach_then [OF _ p_starting [where T = T]]) (simp_all add: assms)
  then have "preach K s0 (psys_at ?q (add_mset (PStartRecording p) T) (insert p P) S)"
    by (rule preach_then [OF _ p_launch [where T = T and p = p]]) (simp_all add: assms)
  then show ?thesis
    by (rule preach_then [OF _ p_record [where T = T and p = p and now = 0]])
      (simp_all add: assms launched_def)
qed

lemma fresh_passes:
  assumes "k \<in> K" and "Runs \<in> K" and "k = StartAlone \<or> k = StartAnytime" and "pc_enabled pc"
  shows "preach K (fresh_psys pc)
    (psys_at (set_pstate ProgWaitingDeps (new_program pc)) {#PStartDeps#} {} [])"
proof -
  have gate: "prog_gate (new_program pc)"
    by (simp add: prog_gate_def new_program_def assms)
  have "preach K (fresh_psys pc) (psys_at (new_program pc) {#PStartCalled#} {} [])"
    using assms(3)
  proof
    assume "k = StartAlone"
    with assms(1) show ?thesis
      by (intro preach_then [OF preach_start p_call_alone]) (simp_all add: fresh_psys_at)
  next
    assume "k = StartAnytime"
    with assms(1) show ?thesis
      by (intro preach_then [OF preach_start p_call_start]) (simp_all add: fresh_psys_at)
  qed
  then show ?thesis
    by (rule preach_then [OF _ p_pass [where T = "{#}"]]) (simp_all add: assms gate)
qed

lemma launched_simps [simp]:
  "p_config (launched q p) = p_config q" "p_pid (launched q p) = p"
  "p_state (launched q p) = ProgRunning" "p_cmd (launched q p) = Some p"
  by (simp_all add: launched_def record_program_def set_pstate_def)

lemma set_pstate_simps [simp]:
  "p_config (set_pstate st q) = p_config q" "p_pid (set_pstate st q) = p_pid q"
  "p_state (set_pstate st q) = st" "p_cmd (set_pstate st q) = p_cmd q"
  by (simp_all add: set_pstate_def)

text \<open>Two calls that overlap while the program waits.\<close>

lemma overlapping_starts:
  assumes "pc_enabled pc" and "pc_start_delay pc \<le> 0" and "{StartAnytime, Runs} \<subseteq> K"
  shows "\<exists>q. preach K (fresh_psys pc) (psys_at q {#PStartRecorded, PStartRecorded#} {1, 2} [])
    \<and> p_config q = pc \<and> p_pid q = 2 \<and> p_cmd q = Some 2 \<and> p_state q = ProgRunning"
proof -
  let ?r = "preach K (fresh_psys pc)"
  let ?w = "set_pstate ProgWaitingDeps (new_program pc)"
  let ?w2 = "set_pstate ProgWaitingDeps ?w"
  have K: "StartAnytime \<in> K" "Runs \<in> K" using assms(3) by auto
  have pc: "p_config (new_program pc) = pc" by (simp add: new_program_def)
  have "?r (psys_at ?w {#PStartDeps#} {} [])"
    by (rule fresh_passes [OF K]) (simp_all add: assms)
  then have "?r (psys_at ?w {#PStartCalled, PStartDeps#} {} [])"
    by (rule preach_then [OF _ p_call_start]) (simp_all add: K)
  then have "?r (psys_at ?w2 {#PStartDeps, PStartDeps#} {} [])"
    by (rule preach_then [OF _ p_pass [where T = "{#PStartDeps#}"]]) (simp_all add: K prog_gate_def)
  then have "?r (psys_at (launched ?w2 1) {#PStartRecorded, PStartDeps#} {1} [])"
    by (rule passed_runs) (simp_all add: K pc assms)
  then have "?r (psys_at (launched ?w2 1) {#PStartDeps, PStartRecorded#} {1} [])"
    by (simp add: add_mset_commute)
  then have "?r (psys_at (launched (launched ?w2 1) 2) {#PStartRecorded, PStartRecorded#} (insert 2 {1}) [])"
    by (rule passed_runs) (simp_all add: K pc assms)
  then show ?thesis by (intro exI [of _ "launched (launched ?w2 1) 2"]) (simp add: pc insert_commute)
qed

text \<open>One call after the health check of the running program has failed.\<close>

lemma start_after_failed_check:
  assumes "pc_enabled pc" and "pc_start_delay pc \<le> 0" and "pc_health_check pc \<noteq> []"
  shows "\<exists>q T. preach {StartAlone, Runs} (fresh_psys pc) (psys_at q T {1, 2} [])
    \<and> p_pid q = 2 \<and> p_cmd q = Some 2 \<and> p_state q = ProgRunning"
proof -
  let ?r = "preach {StartAlone, Runs} (fresh_psys pc)"
  let ?l = "launched (set_pstate ProgWaitingDeps (new_program pc)) 1"
  let ?M = "{#PMonitorWaiting 1 (pc_restart pc)#}"
  let ?c = "?l\<lparr>p_health := HealthChecking\<rparr>"
  let ?f = "set_pstate ProgHealthFailed (?c\<lparr>p_health := HealthFailed\<rparr>)"
  have pc: "p_config (new_program pc) = pc" by (simp add: new_program_def)
  have "?r (psys_at ?l {#PStartRecorded#} {1} [])"
    by (rule passed_runs [OF fresh_passes [where k = StartAlone]]) (simp_all add: pc assms)
  then have "?r (psys_at ?l {#PHealthCalled, PMonitorCalled#} {1} [])"
    by (rule preach_then [OF _ p_checks [where T = "{#}"]]) (simp_all add: pc assms)
  then have "?r (psys_at ?l (add_mset PHealthCalled ?M) {1} [])"
    by (rule preach_then [OF _ p_monitor_reads [where T = "{#PHealthCalled#}" and p = 1]])
      (simp_all add: pc add_mset_commute)
  then have "?r (psys_at ?c (add_mset PHealthChecking ?M) {1} [])"
    by (rule preach_then [OF _ p_health_begins [where T = ?M]]) simp_all
  then have "?r (psys_at (?c\<lparr>p_health := HealthFailed\<rparr>) (add_mset PHealthFailed ?M) {1} [])"
    by (rule preach_then [OF _ p_health_fails [where T = ?M]]) simp_all
  then have "?r (psys_at ?f ?M {1} [])"
    by (rule preach_then [OF _ p_marks_failed [where T = ?M]]) simp_all
  then have "?r (psys_at ?f (add_mset PStartCalled ?M) {1} [])"
    by (rule preach_then [OF _ p_call_alone]) simp_all
  then have "?r (psys_at (set_pstate ProgWaitingDeps ?f) (add_mset PStartDeps ?M) {1} [])"
    by (rule preach_then [OF _ p_pass [where T = ?M]]) (simp_all add: prog_gate_def)
  then have "?r (psys_at (launched (set_pstate ProgWaitingDeps ?f) 2) (add_mset PStartRecorded ?M) (insert 2 {1}) [])"
    by (rule passed_runs) (simp_all add: pc assms)
  then show ?thesis
    by (intro exI [of _ "launched (set_pstate ProgWaitingDeps ?f) 2"] exI [of _ "add_mset PStartRecorded ?M"])
      (simp add: insert_commute)
qed

text \<open>the guard of \<open>StartProgram\<close> does not reject a program that is already waiting for its
  dependencies or for its delay, nor one whose health check has failed while its process lives. Two
  overlapping calls both get through and run two processes, and so does one call after a failed
  check; each time the program only holds the second pid.\<close>

theorem program_guard_lets_second_start_through:
  assumes "pc_enabled pc" and "pc_start_delay pc \<le> 0"
  shows "(\<exists>s. preach {StartAnytime, Runs} (fresh_psys pc) s \<and> q_procs s = {1, 2} \<and> p_pid (q_prog s) = 2)
    \<and> (pc_health_check pc \<noteq> [] \<longrightarrow>
        (\<exists>s. preach {StartAlone, Runs} (fresh_psys pc) s \<and> q_procs s = {1, 2} \<and> p_pid (q_prog s) = 2))"
proof -
  obtain q where "preach {StartAnytime, Runs} (fresh_psys pc) (psys_at q {#PStartRecorded, PStartRecorded#} {1, 2} [])"
    "p_pid q = 2" using overlapping_starts [OF assms, of "{StartAnytime, Runs}"] by auto
  then have "\<exists>s. preach {StartAnytime, Runs} (fresh_psys pc) s \<and> q_procs s = {1, 2} \<and> p_pid (q_prog s) = 2"
    by (intro exI conjI) (assumption, simp_all)
  moreover have "\<exists>s. preach {StartAlone, Runs} (fresh_psys pc) s \<and> q_procs s = {1, 2} \<and> p_pid (q_prog s) = 2"
    if hc: "pc_health_check pc \<noteq> []"
  proof -
    obtain q T where "preach {StartAlone, Runs} (fresh_psys pc) (psys_at q T {1, 2} [])" "p_pid q = 2"
      using start_after_failed_check [OF assms hc] by auto
    then show ?thesis by (intro exI conjI) (assumption, simp_all)
  qed
  ultimately show ?thesis by blast
qed

theorem programs_start_once_witness:
  "\<exists>s :: psys. q_procs s = {1} \<and> p_pid (q_prog s) = 1 \<and> pcount in_charge (q_threads s) = 1"
proof -
  let ?pc = "prog ''bus'' phase_early 9 []"
  let ?s = "psys_at (launched (set_pstate ProgWaitingDeps (new_program ?pc)) 1) {#PStartRecorded#} {1} []"
  have "preach {StartAlone, ProgEnds, Runs} (fresh_psys ?pc) ?s"
    by (rule passed_runs [OF fresh_passes [where k = StartAlone]])
      (simp_all add: prog_def new_program_def)
  from programs_start_once [OF _ this] have "pcount in_charge (q_threads ?s) = 1"
    by (simp add: prog_def)
  then show ?thesis by (intro exI [of _ ?s] conjI) simp_all
qed

theorem program_guard_lets_second_start_through_witness:
  "\<exists>s. preach {StartAlone, Runs} (fresh_psys (prog ''bus'' phase_early 9 []\<lparr>pc_health_check := ''true''\<rparr>)) s
     \<and> q_procs s = {1, 2} \<and> p_pid (q_prog s) = 2"
  using program_guard_lets_second_start_through [of "prog ''bus'' phase_early 9 []\<lparr>pc_health_check := ''true''\<rparr>"]
  by (simp add: prog_def)

end
