(* ===== verification/Schedules.thy ===== *)
theory Schedules
  imports Daemon_Steps Program_Steps
begin

text \<open>
  The operations of \<open>Daemon_Manager\<close> and \<open>Program_Manager\<close>, which run from their first section to their
  last without anything in between, are schedules of the step relations of \<open>Daemon_Steps\<close> and
  \<open>Program_Steps\<close>: each of them is reached by steps of its own goroutine, and possibly the end of a
  process, with the same record, the same goroutines launched, the same processes spawned and the
  same signals sent. So the step relations allow everything the sequential model does, and what holds in
  all their reachable states holds in particular after sequences of operations.
\<close>

section \<open>What a trace says about goroutines, processes and signals\<close>

fun monitors_of :: "effect list \<Rightarrow> thread multiset" where
  "monitors_of [] = {#}"
| "monitors_of (MonitorLaunched name # es) = add_mset MonitorCalled (monitors_of es)"
| "monitors_of (_ # es) = monitors_of es"

fun signals_of :: "effect list \<Rightarrow> (int \<times> signal) list" where
  "signals_of [] = []"
| "signals_of (Signalled g sig # es) = (g, sig) # signals_of es"
| "signals_of (_ # es) = signals_of es"

lemma of_append [simp]:
  "monitors_of (es @ es') = monitors_of es + monitors_of es'"
  "signals_of (es @ es') = signals_of es @ signals_of es'"
  by (induction es rule: monitors_of.induct, simp_all)

lemma of_close_writers [simp]:
  "monitors_of (close_writers d) = {#}" "signals_of (close_writers d) = []" "spawned (close_writers d) = []"
  by (simp_all add: close_writers_def)

lemma reach_trans: "reach K s1 s2 \<Longrightarrow> reach K s0 s1 \<Longrightarrow> reach K s0 s2"
  by (induction rule: reach.induct) (auto intro: reach_step)

text \<open>The goroutine \<open>t\<close> of a call on the daemon, among any others, comes by steps of the relation to what the
  call makes of the manager: \<open>rest\<close> is what remains of it, \<open>gone\<close> the processes that end meanwhile.\<close>

definition runs_as ::
  "string \<Rightarrow> dm \<Rightarrow> dm \<Rightarrow> thread \<Rightarrow> thread multiset \<Rightarrow> int set \<Rightarrow> int set \<Rightarrow> bool" where
  "runs_as name m m' t rest P gone \<longleftrightarrow> (\<exists>d d' es. dm_get m name = Some d \<and> dm_get m' name = Some d'
     \<and> dm_trace m' = dm_trace m @ es
     \<and> (\<forall>U S. reach {ProcessEnds, Goes} (at d (add_mset t U) P S)
           (at d' (monitors_of es + rest + U) (P \<union> set (spawned es) - gone) (S @ signals_of es))))"

lemma runs_asI:
  assumes "dm_get m name = Some d" and "dm_get m' name = Some d'" and "dm_trace m' = dm_trace m @ es"
    and "\<And>U S. reach {ProcessEnds, Goes} (at d (add_mset t U) P S)
           (at d' (monitors_of es + rest + U) (P \<union> set (spawned es) - gone) (S @ signals_of es))"
  shows "runs_as name m m' t rest P gone"
  using assms by (auto simp: runs_as_def)

section \<open>Daemons\<close>

lemma start_cases_env:
  assumes "dm_get m name = Some d" and "dm_start env name m = (m', r)"
  obtains "start_gate d = Skip" "r = None" "m' = m"
    | es where "start_gate d = Proceed" "r \<noteq> None" "dm_get m' name = Some (set_state DaemonFailed d)"
      "dm_trace m' = dm_trace m @ es" "es = [] \<or> es = [WritersClosed name]"
    | pid where "start_gate d = Proceed" "r \<noteq> None" "dc_socket (d_config d) \<noteq> []"
      "e_spawn env name (dm_clock m) = Some pid"
      "dm_get m' name = Some (set_state DaemonFailed (record_process pid (dm_clock m) d))"
      "dm_trace m' = dm_trace m @ [Spawned name pid]"
    | pid where "start_gate d = Proceed" "r = None" "e_spawn env name (dm_clock m) = Some pid"
      "dm_get m' name = Some (set_state DaemonRunning (record_process pid (dm_clock m) d))"
      "dm_trace m' = dm_trace m @ [Spawned name pid, MonitorLaunched name]"
proof -
  have "start_gate d \<noteq> Refuse s" for s
    by (cases "d_state d") (auto simp: start_gate_def)
  with assms that show ?thesis
    by (auto simp: dm_start_def Let_def dm_get_modify set_state_def record_process_def
        split: gate.splits option.splits if_splits prod.splits)
qed


lemma start_recorded:
  assumes "start_gate d = Proceed" and "0 < p" and "p \<notin> P" and "Goes \<in> K"
  shows "reach K (at d (add_mset (StartCalled b) U) P S)
    (at (record_process p now (set_state DaemonStarting d)) (add_mset (StartWaiting b) U) (insert p P) S)"
proof -
  let ?d = "set_state DaemonStarting d"
  have "reach K (at d (add_mset (StartCalled b) U) P S) (at ?d (add_mset (StartLaunching b) U) P S)"
    by (rule reach_then [OF reach_start start_pass [where b = b and T = U]]) (simp_all add: assms)
  then have "reach K (at d (add_mset (StartCalled b) U) P S) (at ?d (add_mset (StartRecording b p) U) (insert p P) S)"
    by (rule reach_then [OF _ launch [where b = b and T = U and p = p]]) (simp_all add: assms)
  then show ?thesis
    by (rule reach_then [OF _ record_pid [where b = b and T = U and p = p and now = now]]) (simp_all add: assms)
qed

lemma start_runs_as:
  assumes d: "dm_get m name = Some d" and st: "dm_start env name m = (m', r)"
    and fresh: "\<And>t p. e_spawn env name t = Some p \<Longrightarrow> 0 < p \<and> p \<notin> P"
  shows "runs_as name m m' (StartCalled b) (if r = None then {#} else after_error b) P {}"
  using d st
proof (cases rule: start_cases_env)
  case 1
  then have "reach {ProcessEnds, Goes} (at d (add_mset (StartCalled b) U) P S) (at d U P S)" for U S
    by (intro reach_then [OF reach_start start_skip [where b = b and T = U]]) simp_all
  with d 1 show ?thesis by (intro runs_asI [where es = "[]"]) simp_all
next
  case (2 es)
  have "reach {ProcessEnds, Goes} (at d (add_mset (StartCalled b) U) P S)
      (at (set_state DaemonFailed d) (after_error b + U) P S)" for U S
    by (rule reach_then [OF reach_then [OF reach_start start_pass [where b = b and T = U] refl]
          launch_fails [where b = b and T = U]])
      (simp_all add: 2 set_state_def)
  with d 2 show ?thesis by (intro runs_asI [where es = es]) auto
next
  case (3 pid)
  let ?d = "set_state DaemonStarting d"
  have "reach {ProcessEnds, Goes} (at d (add_mset (StartCalled b) U) P S)
      (at (record_process pid (dm_clock m) ?d) (add_mset (StartWaiting b) U) (insert pid P) S)" for U S
    using start_recorded 3 fresh by simp
  then have "reach {ProcessEnds, Goes} (at d (add_mset (StartCalled b) U) P S)
      (at (set_state DaemonFailed (record_process pid (dm_clock m) d)) (after_error b + U) (insert pid P) S)" for U S
    by (rule reach_then [OF _ socket_timeout [where b = b and T = U]])
      (simp_all add: 3 set_state_def record_process_def)
  moreover have "(if r = None then {#} else after_error b) = after_error b" using 3 by auto
  ultimately show ?thesis using d 3
    by (intro runs_asI [where es = "[Spawned name pid]"]) (simp_all only: monitors_of.simps signals_of.simps
      spawned.simps append_Nil2 add_0 list.set Diff_empty Un_insert_right Un_empty_right)
next
  case (4 pid)
  let ?d = "set_state DaemonStarting d"
  have "reach {ProcessEnds, Goes} (at d (add_mset (StartCalled b) U) P S)
      (at (record_process pid (dm_clock m) ?d) (add_mset (StartWaiting b) U) (insert pid P) S)" for U S
    using start_recorded 4 fresh by simp
  then have "reach {ProcessEnds, Goes} (at d (add_mset (StartCalled b) U) P S)
      (at (set_state DaemonRunning (record_process pid (dm_clock m) d)) (add_mset MonitorCalled U) (insert pid P) S)" for U S
    by (rule reach_then [OF _ socket_ready [where b = b and T = U]])
      (simp_all add: set_state_def record_process_def)
  with d 4 show ?thesis by (intro runs_asI [where es = "[Spawned name pid, MonitorLaunched name]"]) simp_all
qed

text \<open>\<open>Stop\<close>; signal 0 to group 0 reaches the caller's own group, which exists.\<close>

lemma stop_runs_as:
  assumes d: "dm_get m name = Some d" and st: "dm_stop env name m = (m', r)"
    and own: "\<And>t. e_alive env 0 t"
  shows "\<exists>gone. gone \<subseteq> {d_pgid d} \<and> runs_as name m m' StopCalled {#} P gone
    \<and> (d_state d = DaemonRunning \<and> r = None \<longrightarrow> d_pgid d \<in> gone)"
proof (cases "d_state d = DaemonRunning \<or> d_state d = DaemonStarting")
  case False
  then have "reach {ProcessEnds, Goes} (at d (add_mset StopCalled U) P S) (at d U P S)" for U S
    by (intro reach_then [OF reach_start stop_skip [where T = U]]) simp_all
  moreover have "m' = m" "r = None" using stop_idle [OF d] False st by auto
  ultimately show ?thesis using d False
    by (intro exI [of _ "{}"] conjI runs_asI [where es = "[]"]) simp_all
next
  case active: True
  let ?g = "d_pgid d"
  let ?r = "\<lambda>U S. reach {ProcessEnds, Goes} (at d (add_mset StopCalled U) P S)"
  obtain w t where w: "stop_wait (e_alive env ?g) (e_cancelled env) (e_lag env) (dm_clock m) = (w, t)"
    by fastforce
  note st = stop_active [OF d active w, unfolded st Let_def]
  have sigterm: "?r U S (at d (add_mset (StopTerminating ?g) U) P (S @ [(?g, SIGTERM)]))" for U S
    by (rule reach_then [OF reach_start stop_term [where T = U]]) (simp_all add: active)
  have sigkill: "?r U S (at d (add_mset (StopKilling ?g) U) (P - {?g}) (S @ [(?g, SIGTERM), (?g, SIGKILL)]))" for U S
    by (rule reach_then [OF sigterm stop_kill [where T = U and g = ?g]]) simp_all
  show ?thesis
  proof (cases w)
    case Exited
    then have "?g \<noteq> 0" using stop_wait_Exited w own by fastforce
    have "?r U S (at (cleanup_daemon t d) U (P - {?g}) (S @ [(?g, SIGTERM)]))" for U S
      by (rule reach_then [OF reach_then [OF sigterm proc_ends [where p = ?g] refl]
            stop_gone [where T = U and g = ?g and now = t]])
        (simp_all add: \<open>?g \<noteq> 0\<close>)
    moreover have "m' = dm_cleanup name t (dm_emit [Signalled ?g SIGTERM] m)" using st Exited by simp
    ultimately show ?thesis using d
      by (intro exI [of _ "{?g}"] conjI runs_asI [where es = "Signalled ?g SIGTERM # close_writers d"])
        (simp_all add: cleanup_get cleanup_trace)
  next
    case Cancelled
    have "?r U S (at d U P (S @ [(?g, SIGTERM)]))" for U S
      by (rule reach_then [OF sigterm stop_cancelled [where T = U and g = ?g]]) simp_all
    moreover have "m' = dm_at t (dm_emit [Signalled ?g SIGTERM] m)" "r = Some CtxDone"
      using st Cancelled by simp_all
    ultimately show ?thesis using d
      by (intro exI [of _ "{}"] conjI runs_asI [where es = "[Signalled ?g SIGTERM]"]) simp_all
  next
    case StillAlive
    show ?thesis
    proof (cases "e_kill_ok env ?g")
      case True
      have "?r U S (at (cleanup_daemon (t + ms 100) d) U (P - {?g}) (S @ [(?g, SIGTERM), (?g, SIGKILL)]))" for U S
        by (rule reach_then [OF sigkill stop_killed [where T = U and g = ?g and now = "t + ms 100"]]) simp_all
      moreover have "m' = dm_cleanup name (t + ms 100)
          (dm_emit [Signalled ?g SIGKILL] (dm_at t (dm_emit [Signalled ?g SIGTERM] m)))"
        using st StillAlive True by simp
      ultimately show ?thesis using d
        by (intro exI [of _ "{?g}"] conjI
              runs_asI [where es = "Signalled ?g SIGTERM # Signalled ?g SIGKILL # close_writers d"])
          (simp_all add: cleanup_get cleanup_trace)
    next
      case False
      have "?r U S (at d U P (S @ [(?g, SIGTERM), (?g, SIGKILL)]))" for U S
        by (rule reach_then [OF sigterm stop_kill_fails [where T = U and g = ?g]]) simp_all
      moreover have "m' = dm_emit [Signalled ?g SIGKILL] (dm_at t (dm_emit [Signalled ?g SIGTERM] m))"
        "r = Some (KillFailed name ?g)" using st StillAlive False by simp_all
      ultimately show ?thesis using d
        by (intro exI [of _ "{}"] conjI runs_asI [where es = "[Signalled ?g SIGTERM, Signalled ?g SIGKILL]"]) simp_all
    qed
  qed
qed


text \<open>The monitor, once its process has ended.\<close>

lemma monitor_runs_as:
  assumes d0: "dm_get m0 name = Some d0" "d_cmd d0 = Some p" and ended: "p \<notin> P"
    and d: "dm_get m name = Some d"
    and fresh: "\<And>t p. e_spawn env name t = Some p \<Longrightarrow> 0 < p \<and> p \<notin> P"
  shows "runs_as name m (monitor_daemon env m0 failed name m) (MonitorWaiting p) {#} P {}"
proof (cases "should_restart (d_restart_count d) (dc_restart (d_config d)) failed")
  case False
  let ?r = "\<lambda>U S. reach {ProcessEnds, Goes} (at d (add_mset (MonitorWaiting p) U) P S)"
  have "?r U S (at d (add_mset MonitorStopping U) P S)" for U S
    by (rule reach_then [OF reach_start monitor_gives_up [where T = U and p = p and failed = failed]])
      (simp_all add: False ended)
  then have "?r U S (at (set_state DaemonStopped d) (add_mset MonitorClearing U) P S)" for U S
    by (rule reach_then [OF _ monitor_stops [where T = U]]) simp_all
  then have "?r U S (at (monitor_clear (dm_clock m) (set_state DaemonStopped d)) U P S)" for U S
    by (rule reach_then [OF _ monitor_clears [where T = U and now = "dm_clock m"]]) simp_all
  with d d0 False show ?thesis
    by (intro runs_asI [where es = "close_writers d"]) (simp_all add: monitor_daemon_def dm_get_modify)
next
  case restart: True
  let ?r = "\<lambda>U S. reach {ProcessEnds, Goes} (at d (add_mset (MonitorWaiting p) U) P S)"
  have backoff: "?r U S (at d (add_mset MonitorBackoff U) P S)" for U S
    by (rule reach_then [OF reach_start monitor_restarts [where T = U and p = p and failed = failed]])
      (simp_all add: restart ended)
  show ?thesis
  proof (cases "e_cancelled env (dm_clock m)")
    case True
    have "?r U S (at d U P S)" for U S
      by (rule reach_then [OF backoff monitor_cancelled [where T = U]]) simp_all
    with d d0 restart True show ?thesis
      by (intro runs_asI [where es = "[]"]) (simp_all add: monitor_daemon_def)
  next
    case False
    let ?delay = "next_restart_delay (e_ovf env) (d_restart_count d)"
    let ?m1 = "dm_modify name monitor_rearm (dm_emit (BackedOff name ?delay # close_writers d)
      (dm_at (dm_clock m + max 0 (sint ?delay)) m))"
    obtain m2 e where st: "dm_start env name ?m1 = (m2, e)" by fastforce
    have m1: "dm_get ?m1 name = Some (monitor_rearm d)" using d by (simp add: dm_get_modify)
    have "runs_as name ?m1 m2 (StartCalled True) (if e = None then {#} else after_error True) P {}"
      by (rule start_runs_as [OF m1 st]) (rule fresh)
    with m1 obtain d2 es where d2: "dm_get m2 name = Some d2" "dm_trace m2 = dm_trace ?m1 @ es"
      and start: "\<And>U S. reach {ProcessEnds, Goes} (at (monitor_rearm d) (add_mset (StartCalled True) U) P S)
        (at d2 (monitors_of es + (if e = None then {#} else after_error True) + U) (P \<union> set (spawned es)) (S @ signals_of es))"
      unfolding runs_as_def by (metis Diff_empty option.inject)
    have "?r U S (at (monitor_rearm d) (add_mset (StartCalled True) U) P S)" for U S
      by (rule reach_then [OF backoff monitor_rearms [where T = U]]) simp_all
    note started = reach_trans [OF start this]
    have result: "monitor_daemon env m0 failed name m =
        (if e = None then m2 else dm_modify name (set_state DaemonFailed) m2)"
      using d d0 restart False st by (simp add: monitor_daemon_def Let_def split: option.split)
    have trace: "dm_trace m2 = dm_trace m @ BackedOff name ?delay # close_writers d @ es"
      using d2 by simp
    show ?thesis
    proof (cases "e = None")
      case True
      with started d d2 result trace show ?thesis
        by (intro runs_asI [where es = "BackedOff name ?delay # close_writers d @ es"]) simp_all
    next
      case error: False
      have "?r U S (at (set_state DaemonFailed d2) (monitors_of es + U) (P \<union> set (spawned es)) (S @ signals_of es))" for U S
        by (rule reach_then [OF started mark_failed [where T = "monitors_of es + U"]])
          (simp_all add: error after_error_def)
      with d d2 result trace error show ?thesis
        by (intro runs_asI [where es = "BackedOff name ?delay # close_writers d @ es"])
          (simp_all add: dm_get_modify)
    qed
  qed
qed


text \<open>C28: \<open>Start\<close>, \<open>Stop\<close> and \<open>monitorDaemon\<close> as the sequential model has them are runs of the interleaved one:
  from any state of the other goroutines, steps of the call's own goroutine (and the end of its process)
  lead to the daemon record the call leaves, with the monitors it launches, the processes it spawns and the
  signals it sends; \<open>Stop\<close> ends no process but that of the recorded group.\<close>

theorem daemon_calls_are_schedules:
  assumes "dm_get m name = Some d" and "\<forall>t p. e_spawn env name t = Some p \<longrightarrow> 0 < p \<and> p \<notin> P"
    and "\<forall>t. e_alive env 0 t"
  shows "runs_as name m (fst (dm_start env name m)) (StartCalled b)
      (if snd (dm_start env name m) = None then {#} else after_error b) P {}
    \<and> (\<exists>gone. gone \<subseteq> {d_pgid d} \<and> runs_as name m (fst (dm_stop env name m)) StopCalled {#} P gone)
    \<and> (\<forall>m0 d0 p failed. dm_get m0 name = Some d0 \<and> d_cmd d0 = Some p \<and> p \<notin> P \<longrightarrow>
         runs_as name m (monitor_daemon env m0 failed name m) (MonitorWaiting p) {#} P {})"
proof (intro conjI allI impI)
  note fresh = assms(2) [rule_format]
  show "runs_as name m (fst (dm_start env name m)) (StartCalled b)
      (if snd (dm_start env name m) = None then {#} else after_error b) P {}"
    by (rule start_runs_as [OF assms(1) prod.collapse [symmetric]]) (rule fresh)
  show "\<exists>gone. gone \<subseteq> {d_pgid d} \<and> runs_as name m (fst (dm_stop env name m)) StopCalled {#} P gone"
    using stop_runs_as [OF assms(1) prod.collapse [symmetric], where env = env and P = P] assms(3) by blast
  show "runs_as name m (monitor_daemon env m0 failed name m) (MonitorWaiting p) {#} P {}"
    if "dm_get m0 name = Some d0 \<and> d_cmd d0 = Some p \<and> p \<notin> P" for m0 d0 p failed
    by (rule monitor_runs_as [OF _ _ _ assms(1)]) (use that fresh in blast)+
qed

theorem daemon_calls_are_schedules_witness:
  "runs_as ''bus'' demo (fst (dm_start (demo_env\<lparr>e_alive := \<lambda>p _. p = 0\<rparr>) ''bus'' demo)) (StartCalled False)
     {#} {} {}"
  using daemon_calls_are_schedules [OF demo_get(2), of "demo_env\<lparr>e_alive := \<lambda>p _. p = 0\<rparr>" "{}" False]
  by (simp add: demo_env_simps after_error_def split: if_splits)

section \<open>Programs\<close>

fun launched_of :: "prog_effect list \<Rightarrow> pthread multiset" where
  "launched_of [] = {#}"
| "launched_of (ProgMonitorLaunched name # es) = add_mset PMonitorCalled (launched_of es)"
| "launched_of (HealthCheckLaunched name # es) = add_mset PHealthCalled (launched_of es)"
| "launched_of (_ # es) = launched_of es"

fun prog_signals_of :: "prog_effect list \<Rightarrow> (int \<times> signal) list" where
  "prog_signals_of [] = []"
| "prog_signals_of (ProgSignalled g sig # es) = (g, sig) # prog_signals_of es"
| "prog_signals_of (_ # es) = prog_signals_of es"

lemma preach_trans: "preach K s1 s2 \<Longrightarrow> preach K s0 s1 \<Longrightarrow> preach K s0 s2"
  by (induction rule: preach.induct) (auto intro: preach_step)

definition prog_runs_as :: "string \<Rightarrow> pm \<Rightarrow> pm \<Rightarrow> pthread \<Rightarrow> int set \<Rightarrow> int set \<Rightarrow> bool" where
  "prog_runs_as name m m' t P gone \<longleftrightarrow> (\<exists>p p' es. pm_get m name = Some p \<and> pm_get m' name = Some p'
     \<and> pm_trace m' = pm_trace m @ es
     \<and> (\<forall>U S. preach {ProgEnds, Runs} (psys_at p (add_mset t U) P S)
           (psys_at p' (launched_of es + U) (P \<union> set (prog_spawned es) - gone) (S @ prog_signals_of es))))"

lemma prog_runs_asI:
  assumes "pm_get m name = Some p" and "pm_get m' name = Some p'" and "pm_trace m' = pm_trace m @ es"
    and "\<And>U S. preach {ProgEnds, Runs} (psys_at p (add_mset t U) P S)
           (psys_at p' (launched_of es + U) (P \<union> set (prog_spawned es) - gone) (S @ prog_signals_of es))"
  shows "prog_runs_as name m m' t P gone"
  using assms by (auto simp: prog_runs_as_def)

lemma prog_runs_as_after:
  assumes "prog_runs_as name m1 m' t1 P gone" and "pm_get m name = Some p" and "pm_get m1 name = Some p1"
    and "pm_trace m1 = pm_trace m"
    and "\<And>U S. preach {ProgEnds, Runs} (psys_at p (add_mset t U) P S) (psys_at p1 (add_mset t1 U) P S)"
  shows "prog_runs_as name m m' t P gone"
proof -
  obtain p' es where "pm_get m' name = Some p'" "pm_trace m' = pm_trace m @ es"
    and run: "\<And>U S. preach {ProgEnds, Runs} (psys_at p1 (add_mset t1 U) P S)
      (psys_at p' (launched_of es + U) (P \<union> set (prog_spawned es) - gone) (S @ prog_signals_of es))"
    using assms(1,3,4) unfolding prog_runs_as_def by auto
  with preach_trans [OF run assms(5)] assms(2) show ?thesis by (intro prog_runs_asI)
qed

lemma launch_runs_as:
  assumes p: "pm_get m name = Some p" and launch: "launch_program env name (p_config p) m = (m', r)"
    and fresh: "\<And>t pid. pe_spawn env name t = Some pid \<Longrightarrow> 0 < pid \<and> pid \<notin> P"
  shows "prog_runs_as name m m' PStartReady P {}"
proof -
  let ?r = "\<lambda>U S. preach {ProgEnds, Runs} (psys_at p (add_mset PStartReady U) P S)"
  let ?q = "set_pstate ProgStarting p"
  have begun: "?r U S (psys_at ?q (add_mset PStartLaunching U) P S)" for U S
    by (rule preach_then [OF preach_start p_starting [where T = U]]) simp_all
  show ?thesis
  proof (cases "pe_spawn env name (pm_clock m)")
    case None
    have "?r U S (psys_at (set_pstate ProgFailed p) U P S)" for U S
      by (rule preach_then [OF begun p_launch_fails [where T = U]]) simp_all
    with p launch None show ?thesis
      by (intro prog_runs_asI [where es = "[]"]) (auto simp: launch_program_def pm_get_modify)
  next
    case (Some pid)
    let ?l = "record_program pid (pm_clock m) p"
    have "?r U S (psys_at ?q (add_mset (PStartRecording pid) U) (insert pid P) S)" for U S
      by (rule preach_then [OF begun p_launch [where T = U and p = pid]]) (use fresh Some in simp_all)
    then have recorded: "?r U S (psys_at ?l (add_mset PStartRecorded U) (insert pid P) S)" for U S
      by (rule preach_then [OF _ p_record [where T = U and p = pid and now = "pm_clock m"]]) simp_all
    have config: "p_config ?l = p_config p" by (simp add: record_program_def)
    show ?thesis
    proof (cases "pc_health_check (p_config p) = []")
      case True
      have "?r U S (psys_at (set_pstate ProgHealthy ?l) (add_mset PStartHealthy U) (insert pid P) S)" for U S
        by (rule preach_then [OF recorded p_healthy [where T = U]]) (simp_all add: True config)
      then have "?r U S (psys_at (mark_healthy ?l) (add_mset PMonitorCalled U) (insert pid P) S)" for U S
        by (rule preach_then [OF _ p_health_ok [where T = U]]) (simp_all add: set_pstate_def mark_healthy_def)
      with p launch Some True show ?thesis
        by (intro prog_runs_asI [where es = "[ProgSpawned name pid, ProgMonitorLaunched name]"])
          (auto simp: launch_program_def Let_def pm_get_modify)
    next
      case False
      have "?r U S (psys_at ?l (add_mset PHealthCalled (add_mset PMonitorCalled U)) (insert pid P) S)" for U S
        by (rule preach_then [OF recorded p_checks [where T = U]]) (simp_all add: False config)
      with p launch Some False show ?thesis
        by (intro prog_runs_asI [where es = "[ProgSpawned name pid, HealthCheckLaunched name, ProgMonitorLaunched name]"])
          (auto simp: launch_program_def Let_def pm_get_modify)
    qed
  qed
qed


lemma start_program_runs_as:
  assumes p: "pm_get m name = Some p" and st: "start_program env name m = (m', r)"
    and fresh: "\<And>t pid. pe_spawn env name t = Some pid \<Longrightarrow> 0 < pid \<and> pid \<notin> P"
  shows "prog_runs_as name m m' PStartCalled P {}"
proof -
  let ?r = "\<lambda>U S. preach {ProgEnds, Runs} (psys_at p (add_mset PStartCalled U) P S)"
  let ?q = "set_pstate ProgWaitingDeps p" and ?w = "set_pstate ProgWaitingDelay p"
  have passed: "?r U S (psys_at ?q (add_mset PStartDeps U) P S)" if "prog_gate p" for U S
    by (rule preach_then [OF preach_start p_pass [where T = U]]) (simp_all add: that)
  have delay: "?r U S (psys_at ?w (add_mset PStartDelay U) P S)"
    if "prog_gate p" "pc_start_delay (p_config p) > 0" for U S
    by (rule preach_then [OF passed [OF that(1)] p_deps_healthy [where T = U]]) (simp_all add: that)
  from p st show ?thesis
  proof (cases rule: start_program_cases)
    case skipped
    then have "?r U S (psys_at p U P S)" for U S
      by (intro preach_then [OF preach_start p_skip [where T = U]]) simp_all
    with p skipped show ?thesis by (intro prog_runs_asI [where es = "[]"]) simp_all
  next
    case (missing d)
    have "?r U S (psys_at ?q U P S)" for U S
      by (rule preach_then [OF passed p_dep_missing [where T = U]]) (simp_all add: missing)
    with p missing show ?thesis by (intro prog_runs_asI [where es = "[]"]) simp_all
  next
    case (unhealthy d w)
    have "?r U S (psys_at (set_pstate ProgFailed p) U P S)" for U S
      by (rule preach_then [OF passed p_dep_unhealthy [where T = U]]) (simp_all add: unhealthy)
    with p unhealthy show ?thesis by (intro prog_runs_asI [where es = "[]"]) simp_all
  next
    case cancelled
    have "?r U S (psys_at ?w U P S)" for U S
      by (rule preach_then [OF delay p_delay_cancelled [where T = U]]) (simp_all add: cancelled)
    with p cancelled show ?thesis by (intro prog_runs_asI [where es = "[]"]) simp_all
  next
    case (launched m1 s)
    have "?r U S (psys_at (set_pstate s p) (add_mset PStartReady U) P S)" for U S
    proof (cases "pc_start_delay (p_config p) > 0")
      case True
      show ?thesis
        by (rule preach_then [OF delay p_delay_over [where T = U]]) (simp_all add: launched True)
    next
      case False
      show ?thesis
        by (rule preach_then [OF passed p_deps_healthy [where T = U]]) (simp_all add: launched False)
    qed
    moreover have "prog_runs_as name m1 m' PStartReady P {}"
      by (rule launch_runs_as [OF launched(4) _ fresh]) (use launched(6) in simp_all)
    ultimately show ?thesis using prog_runs_as_after p launched(4,5) by blast
  qed
qed

lemma stop_program_runs_as:
  assumes p: "pm_get m name = Some p" and st: "stop_program env name m = (m', r)"
    and own: "\<And>t. pe_alive env 0 t"
  shows "\<exists>gone. gone \<subseteq> {p_pid p} \<and> prog_runs_as name m m' PStopCalled P gone
    \<and> (prog_is_running p \<and> r = None \<longrightarrow> p_pid p \<in> gone)"
proof (cases "prog_is_running p")
  case False
  then have "preach {ProgEnds, Runs} (psys_at p (add_mset PStopCalled U) P S) (psys_at p U P S)" for U S
    by (intro preach_then [OF preach_start p_stop_skip [where T = U]]) simp_all
  with p st False show ?thesis
    by (intro exI [of _ "{}"] conjI prog_runs_asI [where es = "[]"]) (auto simp: stop_program_def)
next
  case running: True
  let ?g = "p_pid p"
  let ?r = "\<lambda>U S. preach {ProgEnds, Runs} (psys_at p (add_mset PStopCalled U) P S)"
  obtain w t where w: "stop_wait (pe_alive env ?g) (pe_cancelled env) (pe_lag env) (pm_clock m) = (w, t)"
    by fastforce
  note st = stop_program_active [OF p running w, unfolded st Let_def]
  have sigterm: "?r U S (psys_at p (add_mset (PStopTerminating ?g) U) P (S @ [(?g, SIGTERM)]))" for U S
    by (rule preach_then [OF preach_start p_stop_term [where T = U]]) (simp_all add: running)
  have sigkill: "?r U S (psys_at p (add_mset (PStopKilling ?g) U) (P - {?g}) (S @ [(?g, SIGTERM), (?g, SIGKILL)]))" for U S
    by (rule preach_then [OF sigterm p_stop_kill [where T = U and g = ?g]]) simp_all
  have clear: "?r U S (psys_at (stopped_program now p) U (P - {?g}) S')"
    if "?r U S (psys_at p (add_mset PStopGone U) (P - {?g}) S')" for U S S' now
  proof -
    have "?r U S (psys_at (set_pstate ProgStopped p) (add_mset PStopClearing U) (P - {?g}) S')"
      by (rule preach_then [OF that p_stop_marks [where T = U]]) simp_all
    then show ?thesis
      by (rule preach_then [OF _ p_stop_clears [where T = U and now = now]])
        (simp_all add: clear_program_def set_pstate_def stopped_program_def)
  qed
  show ?thesis
  proof (cases w)
    case Exited
    then have "?g \<noteq> 0" using stop_wait_Exited w own by fastforce
    have "?r U S (psys_at p (add_mset PStopGone U) (P - {?g}) (S @ [(?g, SIGTERM)]))" for U S
      by (rule preach_then [OF preach_then [OF sigterm p_ends [where p = ?g] refl]
            p_stop_gone [where T = U and g = ?g]])
        (simp_all add: \<open>?g \<noteq> 0\<close>)
    note clear [OF this, where now = t]
    moreover have "m' = pm_modify name (stopped_program t) (pm_at t (pm_emit [ProgSignalled ?g SIGTERM] m))"
      using st Exited by simp
    ultimately show ?thesis using p
      by (intro exI [of _ "{?g}"] conjI prog_runs_asI [where es = "[ProgSignalled ?g SIGTERM]"])
        (simp_all add: pm_get_modify)
  next
    case Cancelled
    have "?r U S (psys_at p U P (S @ [(?g, SIGTERM)]))" for U S
      by (rule preach_then [OF sigterm p_stop_cancelled [where T = U and g = ?g]]) simp_all
    moreover have "m' = pm_at t (pm_emit [ProgSignalled ?g SIGTERM] m)" "r = Some DelayCancelled"
      using st Cancelled by simp_all
    ultimately show ?thesis using p
      by (intro exI [of _ "{}"] conjI prog_runs_asI [where es = "[ProgSignalled ?g SIGTERM]"]) simp_all
  next
    case StillAlive
    let ?m2 = "pm_emit [ProgSignalled ?g SIGKILL] (pm_at t (pm_emit [ProgSignalled ?g SIGTERM] m))"
    let ?es = "[ProgSignalled ?g SIGTERM, ProgSignalled ?g SIGKILL]"
    show ?thesis
    proof (cases "pe_kill_ok env ?g")
      case True
      have "?r U S (psys_at p (add_mset PStopGone U) (P - {?g}) (S @ [(?g, SIGTERM), (?g, SIGKILL)]))" for U S
        by (rule preach_then [OF sigkill p_stop_killed [where T = U and g = ?g]]) simp_all
      note clear [OF this, where now = "t + ms 100"]
      moreover have "m' = pm_modify name (stopped_program (t + ms 100)) (pm_at (t + ms 100) ?m2)"
        using st StillAlive True by simp
      ultimately show ?thesis using p
        by (intro exI [of _ "{?g}"] conjI prog_runs_asI [where es = ?es]) (simp_all add: pm_get_modify)
    next
      case False
      have "?r U S (psys_at p U P (S @ [(?g, SIGTERM), (?g, SIGKILL)]))" for U S
        by (rule preach_then [OF sigterm p_stop_kill_fails [where T = U and g = ?g]]) simp_all
      moreover have "m' = ?m2" "r = Some (ProgKillFailed name ?g)" using st StillAlive False by simp_all
      ultimately show ?thesis using p
        by (intro exI [of _ "{}"] conjI prog_runs_asI [where es = ?es]) simp_all
    qed
  qed
qed

lemma monitor_program_runs_as:
  assumes p0: "pm_get m0 name = Some p0" "p_cmd p0 = Some pid" and ended: "pid \<notin> P"
    and p: "pm_get m name = Some p"
  shows "prog_runs_as name m (monitor_program m0 code name m)
    (PMonitorWaiting pid (pc_restart (p_config p0))) P {}"
proof -
  let ?t = "PMonitorWaiting pid (pc_restart (p_config p0))"
  have "preach {ProgEnds, Runs} (psys_at p (add_mset ?t U) P S)
      (psys_at (program_exited code (pc_restart (p_config p0)) (pm_clock m) p) U P S)" for U S
    by (rule preach_then [OF preach_start p_monitor_ends [where T = U and p = pid
          and restart = "pc_restart (p_config p0)" and code = code and now = "pm_clock m"]])
      (simp_all add: ended)
  with p p0 show ?thesis
    by (intro prog_runs_asI [where es = "[]"]) (simp_all add: monitor_program_def pm_get_modify)
qed

text \<open>the same for programs.\<close>

theorem program_calls_are_schedules:
  assumes "pm_get m name = Some p" and "\<forall>t pid. pe_spawn env name t = Some pid \<longrightarrow> 0 < pid \<and> pid \<notin> P"
    and "\<forall>t. pe_alive env 0 t"
  shows "prog_runs_as name m (fst (start_program env name m)) PStartCalled P {}
    \<and> (\<exists>gone. gone \<subseteq> {p_pid p} \<and> prog_runs_as name m (fst (stop_program env name m)) PStopCalled P gone)
    \<and> (\<forall>m0 p0 pid code. pm_get m0 name = Some p0 \<and> p_cmd p0 = Some pid \<and> pid \<notin> P \<longrightarrow>
         prog_runs_as name m (monitor_program m0 code name m) (PMonitorWaiting pid (pc_restart (p_config p0))) P {})"
proof (intro conjI allI impI)
  show "prog_runs_as name m (fst (start_program env name m)) PStartCalled P {}"
    by (rule start_program_runs_as [OF assms(1) prod.collapse [symmetric]]) (rule assms(2) [rule_format])
  show "\<exists>gone. gone \<subseteq> {p_pid p} \<and> prog_runs_as name m (fst (stop_program env name m)) PStopCalled P gone"
    using stop_program_runs_as [OF assms(1) prod.collapse [symmetric], where env = env and P = P] assms(3) by blast
  show "prog_runs_as name m (monitor_program m0 code name m) (PMonitorWaiting pid (pc_restart (p_config p0))) P {}"
    if "pm_get m0 name = Some p0 \<and> p_cmd p0 = Some pid \<and> pid \<notin> P" for m0 p0 pid code
    by (rule monitor_program_runs_as [OF _ _ _ assms(1)]) (use that in blast)+
qed

theorem program_calls_are_schedules_witness:
  "prog_runs_as ''bus'' demo_pm (fst (start_program (demo_penv\<lparr>pe_alive := \<lambda>p _. p = 0\<rparr>) ''bus'' demo_pm))
     PStartCalled {} {}"
  using program_calls_are_schedules [OF demo_pm_get, of "demo_penv\<lparr>pe_alive := \<lambda>p _. p = 0\<rparr>" "{}"]
  by (simp add: demo_penv_def)

end
