(* ===== verification/Lock_Steps.thy ===== *)
theory Lock_Steps
  imports Main
begin

text \<open>
  The locks of one daemon and of one program. \<open>Daemon\<close> and \<open>Program\<close> each hold a \<open>sync.RWMutex\<close> that
  every operation takes for a section and gives back. Here an operation is the sequence of the lock
  calls it makes, and the goroutines that run on one daemon or program interleave call by call. A
  waiting writer keeps new readers out, as the documentation of \<open>RWMutex\<close> says; so a goroutine that
  takes the read lock twice can wait for a writer that waits for it.
\<close>

section \<open>Systems that come to an end\<close>

locale ending_system =
  fixes step :: "'s \<Rightarrow> 's \<Rightarrow> bool"
    and inv :: "'s \<Rightarrow> bool"
    and finished :: "'s \<Rightarrow> bool"
    and left :: "'s \<Rightarrow> nat"
  assumes inv_step: "inv s \<Longrightarrow> step s s' \<Longrightarrow> inv s'"
    and progress: "inv s \<Longrightarrow> \<not> finished s \<Longrightarrow> \<exists>s'. step s s'"
    and decreases: "inv s \<Longrightarrow> step s s' \<Longrightarrow> left s' < left s"
begin

lemma inv_steps: "step\<^sup>*\<^sup>* s s' \<Longrightarrow> inv s \<Longrightarrow> inv s'"
  by (induction rule: rtranclp_induct) (auto intro: inv_step)

text \<open>However the system goes on, it has not more than \<open>left s\<close> steps before it, and where it can do no
  more step it is finished.\<close>

lemma steps_bound: "(step ^^ n) s s' \<Longrightarrow> inv s \<Longrightarrow> n + left s' \<le> left s"
proof (induction n arbitrary: s')
  case (Suc n)
  then obtain t where t: "(step ^^ n) s t" "step t s'" by auto
  then have "step\<^sup>*\<^sup>* s t" by (meson relpowp_imp_rtranclp)
  then have "inv t" using Suc.prems(2) by (rule inv_steps)
  with decreases [OF this t(2)] Suc.IH [OF t(1) Suc.prems(2)] show ?case by simp
qed simp

lemma finishes: "inv s \<Longrightarrow> \<exists>s'. step\<^sup>*\<^sup>* s s' \<and> finished s'"
proof (induction "left s" arbitrary: s rule: less_induct)
  case less
  show ?case
  proof (cases "finished s")
    case False
    then obtain t where t: "step s t" using progress less.prems by blast
    then obtain s' where "step\<^sup>*\<^sup>* t s'" "finished s'"
      using less.hyps [of t] decreases inv_step less.prems by blast
    with t show ?thesis by (meson converse_rtranclp_into_rtranclp)
  qed blast
qed

end

section \<open>A read-write lock\<close>

datatype lock_op = RLock | RUnlock | WLock | WUnlock

text \<open>The readers inside, the writer inside, the writer that waits for the readers to leave, and what
  the goroutines still have to do.\<close>

record rw =
  readers :: nat
  writer :: "nat option"
  waiting :: "nat option"
  todo :: "lock_op list list"

inductive rw_step :: "rw \<Rightarrow> rw \<Rightarrow> bool" where
  read_lock:
    "i < length (todo s) \<Longrightarrow> todo s ! i = RLock # ops \<Longrightarrow> writer s = None \<Longrightarrow> waiting s = None
     \<Longrightarrow> rw_step s (s\<lparr>readers := readers s + 1, todo := (todo s)[i := ops]\<rparr>)"
| read_unlock:
    "i < length (todo s) \<Longrightarrow> todo s ! i = RUnlock # ops
     \<Longrightarrow> rw_step s (s\<lparr>readers := readers s - 1, todo := (todo s)[i := ops]\<rparr>)"
| announce:
    "i < length (todo s) \<Longrightarrow> todo s ! i = WLock # ops \<Longrightarrow> writer s = None \<Longrightarrow> waiting s = None
     \<Longrightarrow> rw_step s (s\<lparr>waiting := Some i\<rparr>)"
| acquire:
    "i < length (todo s) \<Longrightarrow> todo s ! i = WLock # ops \<Longrightarrow> waiting s = Some i \<Longrightarrow> readers s = 0
     \<Longrightarrow> rw_step s (s\<lparr>waiting := None, writer := Some i, todo := (todo s)[i := ops]\<rparr>)"
| write_unlock:
    "i < length (todo s) \<Longrightarrow> todo s ! i = WUnlock # ops \<Longrightarrow> writer s = Some i
     \<Longrightarrow> rw_step s (s\<lparr>writer := None, todo := (todo s)[i := ops]\<rparr>)"

inductive_cases rw_step_elim: "rw_step s s'"

definition unlocked :: "lock_op list list \<Rightarrow> rw" where
  "unlocked threads = \<lparr>readers = 0, writer = None, waiting = None, todo = threads\<rparr>"

definition all_done :: "rw \<Rightarrow> bool" where
  "all_done s \<longleftrightarrow> (\<forall>ops \<in> set (todo s). ops = [])"

definition deadlocked :: "rw \<Rightarrow> bool" where
  "deadlocked s \<longleftrightarrow> \<not> all_done s \<and> (\<forall>s'. \<not> rw_step s s')"

section \<open>The lock calls of the operations\<close>

definition read_section :: "lock_op list" where "read_section = [RLock, RUnlock]"
definition write_section :: "lock_op list" where "write_section = [WLock, WUnlock]"

text \<open>\<open>Start\<close>: the guard, and behind it the record of the process and the final state, or only the state
  after a failure to launch.\<close>

definition start_locks :: "bool \<Rightarrow> bool \<Rightarrow> lock_op list" where
  "start_locks passes launched =
     write_section @
     (if \<not> passes then [] else if \<not> launched then write_section else write_section @ write_section)"

text \<open>\<open>Stop\<close>: the guard, and \<open>cleanupDaemon\<close> if it gets so far.\<close>

definition stop_locks :: "bool \<Rightarrow> lock_op list" where
  "stop_locks cleans = read_section @ (if cleans then write_section else [])"

text \<open>\<open>monitorDaemon\<close> holds the read lock when it calls \<open>ShouldRestart\<close>, which takes it itself.\<close>

definition should_restart_locks :: "lock_op list" where
  "should_restart_locks = read_section"

definition monitor_locks :: "bool \<Rightarrow> bool \<Rightarrow> bool \<Rightarrow> lock_op list \<Rightarrow> lock_op list" where
  "monitor_locks has_cmd restart cancelled start =
     read_section @
     (if \<not> has_cmd then []
      else [RLock] @ should_restart_locks @ [RUnlock] @
        (if \<not> restart then write_section @ write_section
         else read_section @ (if cancelled then [] else write_section @ start)))"

text \<open>The calls on one daemon; the flags are the branches. A setter is \<open>SetState\<close>, \<open>SetRestartPolicy\<close> or
  \<open>ResetRestartBackoff\<close>, a getter \<open>GetState\<close>, \<open>IsRunning\<close>, \<open>Uptime\<close> or \<open>String\<close>.\<close>

datatype daemon_op = OpStart bool bool | OpStop bool | OpSet | OpGet | OpMonitor bool bool bool bool bool bool

fun daemon_locks :: "daemon_op \<Rightarrow> lock_op list" where
  "daemon_locks (OpStart passes launched) = start_locks passes launched"
| "daemon_locks (OpStop cleans) = stop_locks cleans"
| "daemon_locks OpSet = write_section"
| "daemon_locks OpGet = read_section"
| "daemon_locks (OpMonitor has_cmd restart cancelled passes launched failed) =
     monitor_locks has_cmd restart cancelled (start_locks passes launched @ (if failed then write_section else []))"

text \<open>The calls on one program. \<open>StopProgram\<close> holds the read lock when it calls \<open>IsRunning\<close>.\<close>

definition stop_program_locks :: "bool \<Rightarrow> lock_op list" where
  "stop_program_locks stops =
     [RLock] @ read_section @ [RUnlock] @ (if stops then write_section @ write_section else [])"

text \<open>\<open>StartProgram\<close> takes the write lock for its guard and for every change of state, \<open>monitorProgram\<close> the
  read lock for the process and the write lock for its end, \<open>RunHealthCheck\<close> the write lock to begin and,
  unless the context ends it, twice for the result.\<close>

datatype program_op = POpStart nat | POpStop bool | POpSet | POpGet | POpExit | POpHealth bool

fun program_locks :: "program_op \<Rightarrow> lock_op list" where
  "program_locks (POpStart changes) = write_section @ concat (replicate changes write_section)"
| "program_locks (POpStop stops) = stop_program_locks stops"
| "program_locks POpSet = write_section"
| "program_locks POpGet = read_section"
| "program_locks POpExit = read_section @ write_section"
| "program_locks (POpHealth decided) =
     write_section @ (if decided then write_section @ write_section else [])"

section \<open>Flat sections never deadlock\<close>

fun flat :: "lock_op list \<Rightarrow> bool" where
  "flat [] = True"
| "flat (RLock # RUnlock # ops) = flat ops"
| "flat (WLock # WUnlock # ops) = flat ops"
| "flat _ = False"

definition reading :: "lock_op list \<Rightarrow> bool" where
  "reading ops \<longleftrightarrow> ops \<noteq> [] \<and> hd ops = RUnlock"

definition inside :: "lock_op list list \<Rightarrow> nat" where
  "inside threads = (\<Sum>ops \<leftarrow> threads. if reading ops then 1 else 0)"

text \<open>What a goroutine still has to do: from outside of a section, or from inside of one.\<close>

definition thread_ok :: "rw \<Rightarrow> nat \<Rightarrow> bool" where
  "thread_ok s i \<longleftrightarrow>
     (if writer s = Some i then \<exists>r. todo s ! i = WUnlock # r \<and> flat r
      else flat (todo s ! i) \<or> (\<exists>r. todo s ! i = RUnlock # r \<and> flat r))"

definition flat_inv :: "rw \<Rightarrow> bool" where
  "flat_inv s \<longleftrightarrow>
     (\<forall>i < length (todo s). thread_ok s i)
     \<and> readers s = inside (todo s)
     \<and> (\<forall>i. writer s = Some i \<longrightarrow> i < length (todo s) \<and> readers s = 0 \<and> waiting s = None)
     \<and> (\<forall>i. waiting s = Some i \<longrightarrow> i < length (todo s) \<and> writer s = None \<and> (\<exists>r. todo s ! i = WLock # r))"

definition lock_left :: "rw \<Rightarrow> nat" where
  "lock_left s = 2 * (\<Sum>ops \<leftarrow> todo s. length ops) + (if waiting s = None then 1 else 0)"

lemma flat_append [simp]: "flat xs \<Longrightarrow> flat (xs @ ys) = flat ys"
  by (induction xs rule: flat.induct) simp_all

lemma flat_sections [simp]: "flat read_section" "flat write_section"
  by (simp_all add: read_section_def write_section_def)

lemma flat_cases:
  assumes "flat ops"
  obtains "ops = []" | r where "ops = RLock # RUnlock # r" "flat r" | r where "ops = WLock # WUnlock # r" "flat r"
  using assms by (cases ops rule: flat.cases) auto

lemma reading_simps [simp]:
  "\<not> reading []" "reading (RUnlock # ops)" "\<not> reading (RLock # ops)" "\<not> reading (WLock # ops)"
  "\<not> reading (WUnlock # ops)"
  by (simp_all add: reading_def)

lemma not_reading: "flat ops \<Longrightarrow> \<not> reading ops"
  by (erule flat_cases) simp_all

lemma sum_list_replace:
  fixes f :: "'a \<Rightarrow> nat"
  assumes "i < length xs"
  shows "(\<Sum>x \<leftarrow> xs[i := y]. f x) + f (xs ! i) = (\<Sum>x \<leftarrow> xs. f x) + f y"
  using assms
proof (induction xs arbitrary: i)
  case (Cons x xs)
  then show ?case by (cases i) auto
qed simp

lemma inside_0 [simp]: "\<forall>ops \<in> set threads. \<not> reading ops \<Longrightarrow> inside threads = 0"
  unfolding inside_def by (induction threads) simp_all

lemma flat_inv_unlocked: "\<forall>ops \<in> set threads. flat ops \<Longrightarrow> flat_inv (unlocked threads)"
  by (simp add: flat_inv_def unlocked_def thread_ok_def not_reading)

lemma flat_inv_parts:
  assumes "flat_inv s"
  shows "i < length (todo s) \<Longrightarrow> thread_ok s i"
    and "readers s = inside (todo s)"
    and "writer s = Some i \<Longrightarrow> i < length (todo s) \<and> readers s = 0 \<and> waiting s = None"
    and "waiting s = Some i \<Longrightarrow> i < length (todo s) \<and> writer s = None \<and> (\<exists>r. todo s ! i = WLock # r)"
  using assms unfolding flat_inv_def by blast+

lemma flat_invI:
  assumes "\<And>i. i < length (todo s) \<Longrightarrow> thread_ok s i"
    and "readers s = inside (todo s)"
    and "\<And>i. writer s = Some i \<Longrightarrow> i < length (todo s) \<and> readers s = 0 \<and> waiting s = None"
    and "\<And>i. waiting s = Some i \<Longrightarrow> i < length (todo s) \<and> writer s = None \<and> (\<exists>r. todo s ! i = WLock # r)"
  shows "flat_inv s"
  using assms unfolding flat_inv_def by blast

lemma inside_replace:
  assumes "i < length threads"
  shows "inside (threads[i := ops]) + (if reading (threads ! i) then 1 else 0)
    = inside threads + (if reading ops then 1 else 0)"
  unfolding inside_def by (rule sum_list_replace [OF assms])

lemma flat_inv_step:
  assumes inv: "flat_inv s" and "rw_step s s'"
  shows "flat_inv s'"
  using assms(2)
proof cases
  case (read_lock i ops)
  obtain r where r: "ops = RUnlock # r" "flat r"
    using flat_inv_parts(1) [OF inv read_lock(2)] read_lock(3,4) by (auto simp: thread_ok_def elim: flat_cases)
  show ?thesis
  proof (rule flat_invI)
    show "thread_ok s' j" if "j < length (todo s')" for j
      using that flat_inv_parts(1) [OF inv, of j] read_lock r by (cases "j = i") (simp_all add: thread_ok_def)
    show "readers s' = inside (todo s')"
      using inside_replace [OF read_lock(2), of ops] flat_inv_parts(2) [OF inv] read_lock r by simp
  qed (use read_lock in simp_all)
next
  case (read_unlock i ops)
  have ok: "flat ops" "writer s \<noteq> Some i"
    using flat_inv_parts(1) [OF inv read_unlock(2)] read_unlock(3)
    by (auto simp: thread_ok_def split: if_splits elim: flat_cases)
  show ?thesis
  proof (rule flat_invI)
    show "thread_ok s' j" if "j < length (todo s')" for j
      using that flat_inv_parts(1) [OF inv, of j] read_unlock ok by (cases "j = i") (simp_all add: thread_ok_def)
    show "readers s' = inside (todo s')"
      using inside_replace [OF read_unlock(2), of ops] flat_inv_parts(2) [OF inv] read_unlock not_reading [OF ok(1)]
      by simp
    show "k < length (todo s') \<and> readers s' = 0 \<and> waiting s' = None" if "writer s' = Some k" for k
      using flat_inv_parts(3) [OF inv, of k] that read_unlock by simp
    show "k < length (todo s') \<and> writer s' = None \<and> (\<exists>r. todo s' ! k = WLock # r)" if "waiting s' = Some k" for k
      using flat_inv_parts(4) [OF inv, of k] that read_unlock by (cases "k = i") auto
  qed
next
  case (announce i ops)
  show ?thesis
  proof (rule flat_invI)
    show "thread_ok s' j" if "j < length (todo s')" for j
      using that flat_inv_parts(1) [OF inv, of j] announce(1) by (simp add: thread_ok_def)
    show "readers s' = inside (todo s')" using flat_inv_parts(2) [OF inv] announce(1) by simp
  qed (use announce in simp_all)
next
  case (acquire i ops)
  have none: "writer s = None" using flat_inv_parts(4) [OF inv, of i] acquire(4) by simp
  obtain r where r: "ops = WUnlock # r" "flat r"
    using flat_inv_parts(1) [OF inv acquire(2)] acquire(3) none by (auto simp: thread_ok_def elim: flat_cases)
  show ?thesis
  proof (rule flat_invI)
    show "thread_ok s' j" if "j < length (todo s')" for j
      using that flat_inv_parts(1) [OF inv, of j] acquire none r by (cases "j = i") (simp_all add: thread_ok_def)
    show "readers s' = inside (todo s')"
      using inside_replace [OF acquire(2), of ops] flat_inv_parts(2) [OF inv] acquire r by simp
  qed (use acquire in simp_all)
next
  case (write_unlock i ops)
  have ok: "flat ops" using flat_inv_parts(1) [OF inv write_unlock(2)] write_unlock(3,4) by (auto simp: thread_ok_def)
  have none: "waiting s = None" using flat_inv_parts(3) [OF inv write_unlock(4)] by simp
  show ?thesis
  proof (rule flat_invI)
    show "thread_ok s' j" if "j < length (todo s')" for j
      using that flat_inv_parts(1) [OF inv, of j] write_unlock ok by (cases "j = i") (simp_all add: thread_ok_def)
    show "readers s' = inside (todo s')"
      using inside_replace [OF write_unlock(2), of ops] flat_inv_parts(2) [OF inv] write_unlock not_reading [OF ok]
      by simp
  qed (use write_unlock none in simp_all)
qed

lemma flat_progress:
  assumes "flat_inv s" and "\<not> all_done s"
  shows "\<exists>s'. rw_step s s'"
proof -
  have ok: "thread_ok s i" if "i < length (todo s)" for i
    using assms(1) that by (simp add: flat_inv_def)
  show ?thesis
  proof (cases "writer s")
    case (Some i)
    then have i: "i < length (todo s)" using assms(1) by (simp add: flat_inv_def)
    with ok [OF i] Some obtain r where "todo s ! i = WUnlock # r" by (auto simp: thread_ok_def)
    with i Some write_unlock show ?thesis by blast
  next
    case None
    show ?thesis
    proof (cases "\<exists>i r. i < length (todo s) \<and> todo s ! i = RUnlock # r")
      case True
      then show ?thesis using read_unlock by blast
    next
      case False
      have flat: "flat (todo s ! i)" if "i < length (todo s)" for i
        using ok [OF that] None False that by (auto simp: thread_ok_def)
      then have "\<forall>ops \<in> set (todo s). \<not> reading ops" by (metis in_set_conv_nth not_reading)
      then have none: "readers s = 0" using flat_inv_parts(2) [OF assms(1)] by simp
      show ?thesis
      proof (cases "waiting s")
        case (Some i)
        then obtain r where "i < length (todo s)" "todo s ! i = WLock # r"
          using assms(1) by (auto simp: flat_inv_def)
        with Some none acquire show ?thesis by blast
      next
        case wait: None
        obtain i where i: "i < length (todo s)" "todo s ! i \<noteq> []"
          using assms(2) by (metis all_done_def in_set_conv_nth)
        from flat [OF i(1)] i(2) obtain r where
          "todo s ! i = RLock # r \<or> todo s ! i = WLock # r" by (auto elim: flat_cases)
        with i(1) None wait read_lock announce show ?thesis by blast
      qed
    qed
  qed
qed

lemma lock_left_decreases:
  assumes "rw_step s s'"
  shows "lock_left s' < lock_left s"
  using assms
proof cases
  case (read_lock i ops)
  then show ?thesis using sum_list_replace [OF read_lock(2), of length ops] by (simp add: lock_left_def)
next
  case (read_unlock i ops)
  then show ?thesis using sum_list_replace [OF read_unlock(2), of length ops] by (simp add: lock_left_def)
next
  case (announce i ops)
  then show ?thesis by (simp add: lock_left_def)
next
  case (acquire i ops)
  then show ?thesis using sum_list_replace [OF acquire(2), of length ops] by (simp add: lock_left_def)
next
  case (write_unlock i ops)
  then show ?thesis using sum_list_replace [OF write_unlock(2), of length ops] by (simp add: lock_left_def)
qed

interpretation flat_locks: ending_system rw_step flat_inv all_done lock_left
  by unfold_locales (auto intro: flat_inv_step flat_progress lock_left_decreases)

section \<open>The nested read lock\<close>

lemma run_flat:
  "flat pre \<Longrightarrow> i < length threads \<Longrightarrow> threads ! i = pre @ rest
   \<Longrightarrow> rw_step\<^sup>*\<^sup>* (unlocked threads) (unlocked (threads[i := rest]))"
proof (induction pre arbitrary: threads rule: flat.induct)
  case 1
  then have "threads[i := rest] = threads" by (metis append_Nil list_update_id)
  then show ?case by simp
next
  case (2 ops)
  let ?s = "unlocked threads" and ?s2 = "unlocked (threads[i := ops @ rest])"
  let ?s1 = "?s\<lparr>readers := 1, todo := threads[i := RUnlock # ops @ rest]\<rparr>"
  have "rw_step ?s ?s1" using 2 read_lock [of i ?s "RUnlock # ops @ rest"] by (simp add: unlocked_def)
  moreover have "rw_step ?s1 ?s2" using 2 read_unlock [of i ?s1 "ops @ rest"] by (simp add: unlocked_def)
  moreover have "rw_step\<^sup>*\<^sup>* ?s2 (unlocked (threads[i := rest]))"
    using 2(1) [of "threads[i := ops @ rest]"] 2 by simp
  ultimately show ?case by (meson converse_rtranclp_into_rtranclp)
next
  case (3 ops)
  let ?s = "unlocked threads" and ?s3 = "unlocked (threads[i := ops @ rest])"
  let ?s1 = "?s\<lparr>waiting := Some i\<rparr>"
  let ?s2 = "?s\<lparr>writer := Some i, todo := threads[i := WUnlock # ops @ rest]\<rparr>"
  have "rw_step ?s ?s1" using 3 announce [of i ?s "WUnlock # ops @ rest"] by (simp add: unlocked_def)
  moreover have "rw_step ?s1 ?s2" using 3 acquire [of i ?s1 "WUnlock # ops @ rest"] by (simp add: unlocked_def)
  moreover have "rw_step ?s2 ?s3" using 3 write_unlock [of i ?s2 "ops @ rest"] by (simp add: unlocked_def)
  moreover have "rw_step\<^sup>*\<^sup>* ?s3 (unlocked (threads[i := rest]))"
    using 3(1) [of "threads[i := ops @ rest]"] 3 by simp
  ultimately show ?case by (meson converse_rtranclp_into_rtranclp)
qed simp_all

text \<open>A goroutine inside of a read section that asks for the read lock again, after another one asked for the
  write lock: nobody can go on, whatever the other goroutines, which have not begun, want.\<close>

definition entering :: "lock_op list \<Rightarrow> bool" where
  "entering ops \<longleftrightarrow> ops = [] \<or> hd ops = RLock \<or> hd ops = WLock"

lemma entering_sections [simp]:
  "entering (read_section @ ops)" "entering (write_section @ ops)" "entering (RLock # ops)"
  "entering read_section" "entering write_section"
  by (simp_all add: entering_def read_section_def write_section_def)

lemma nested_deadlock:
  assumes "flat pre" and "flat pre'" and "\<forall>ops \<in> set others. entering ops"
  shows "\<exists>s. rw_step\<^sup>*\<^sup>* (unlocked ((pre @ RLock # RLock # r) # (pre' @ WLock # r') # others)) s \<and> deadlocked s"
proof -
  let ?s0 = "unlocked ((pre @ RLock # RLock # r) # (pre' @ WLock # r') # others)"
  let ?s1 = "unlocked ((RLock # RLock # r) # (pre' @ WLock # r') # others)"
  let ?s2 = "unlocked ((RLock # RLock # r) # (WLock # r') # others)"
  let ?s3 = "?s2\<lparr>readers := 1, todo := (RLock # r) # (WLock # r') # others\<rparr>"
  let ?s4 = "?s3\<lparr>waiting := Some 1\<rparr>"
  have "rw_step\<^sup>*\<^sup>* ?s0 ?s1"
    using run_flat [OF assms(1), of 0 "(pre @ RLock # RLock # r) # (pre' @ WLock # r') # others" "RLock # RLock # r"] by simp
  moreover have "rw_step\<^sup>*\<^sup>* ?s1 ?s2"
    using run_flat [OF assms(2), of 1 "(RLock # RLock # r) # (pre' @ WLock # r') # others" "WLock # r'"] by simp
  moreover have "rw_step ?s2 ?s3" using read_lock [of 0 ?s2 "RLock # r"] by (simp add: unlocked_def)
  moreover have "rw_step ?s3 ?s4" using announce [of 1 ?s3 r'] by (simp add: unlocked_def)
  ultimately have "rw_step\<^sup>*\<^sup>* ?s0 ?s4" by (meson rtranclp.rtrancl_into_rtrancl rtranclp_trans)
  moreover have "deadlocked ?s4"
  proof -
    have first: "todo ?s4 ! i = RLock # ops \<or> todo ?s4 ! i = WLock # ops" if "todo ?s4 ! i = x # ops" "i < length (todo ?s4)" for i x ops
    proof -
      have "\<forall>ops \<in> set (todo ?s4). entering ops" using assms(3) by (simp add: entering_def)
      with that show ?thesis by (metis entering_def list.distinct(1) list.sel(1) nth_mem)
    qed
    have "\<not> rw_step ?s4 s" for s
    proof
      assume "rw_step ?s4 s"
      then show False
      proof cases
        case (read_unlock i ops)
        with first [OF read_unlock(3,2)] show False by simp
      next
        case (write_unlock i ops)
        with first [OF write_unlock(3,2)] show False by simp
      qed (simp_all add: unlocked_def)
    qed
    then show ?thesis by (simp add: deadlocked_def all_done_def)
  qed
  ultimately show ?thesis by blast
qed

lemma entering_daemon_locks [simp]: "entering (daemon_locks op)"
  by (cases op) (simp_all add: start_locks_def stop_locks_def monitor_locks_def)

lemma entering_program_locks [simp]: "entering (program_locks op)"
  by (cases op) (simp_all add: stop_program_locks_def)

section \<open>What the calls on one daemon or program can do to each other\<close>

text \<open>The calls that take the read lock inside of their read section.\<close>

fun nested_daemon_op :: "daemon_op \<Rightarrow> bool" where
  "nested_daemon_op (OpMonitor has_cmd _ _ _ _ _) = has_cmd"
| "nested_daemon_op _ = False"

fun nested_program_op :: "program_op \<Rightarrow> bool" where
  "nested_program_op (POpStop _) = True"
| "nested_program_op _ = False"

lemma flat_concat: "\<forall>ops \<in> set opss. flat ops \<Longrightarrow> flat (concat opss)"
  by (induction opss) simp_all

lemma flat_daemon_locks: "\<not> nested_daemon_op op \<Longrightarrow> flat (daemon_locks op)"
  by (cases op) (auto simp: start_locks_def stop_locks_def monitor_locks_def)

lemma flat_program_locks: "\<not> nested_program_op op \<Longrightarrow> flat (program_locks op)"
  by (cases op) (auto intro: flat_concat)

lemma flat_threads_finish:
  assumes "\<forall>ops \<in> set threads. flat ops" and run: "(rw_step ^^ n) (unlocked threads) s"
  shows "\<not> deadlocked s" and "n \<le> lock_left (unlocked threads)"
    and "\<exists>s'. rw_step\<^sup>*\<^sup>* s s' \<and> all_done s'" and "writer s \<noteq> None \<longrightarrow> readers s = 0"
proof -
  have start: "flat_inv (unlocked threads)" using assms(1) by (rule flat_inv_unlocked)
  then have inv: "flat_inv s" using flat_locks.inv_steps relpowp_imp_rtranclp [OF run] by blast
  show "\<not> deadlocked s" using flat_progress [OF inv] unfolding deadlocked_def by blast
  show "n \<le> lock_left (unlocked threads)" using flat_locks.steps_bound [OF run start] by simp
  show "\<exists>s'. rw_step\<^sup>*\<^sup>* s s' \<and> all_done s'" using inv by (rule flat_locks.finishes)
  show "writer s \<noteq> None \<longrightarrow> readers s = 0" using flat_inv_parts(3) [OF inv] by blast
qed

definition daemon_goroutines :: "daemon_op list list \<Rightarrow> rw" where
  "daemon_goroutines calls = unlocked (map (\<lambda>ops. concat (map daemon_locks ops)) calls)"

definition program_goroutines :: "program_op list list \<Rightarrow> rw" where
  "program_goroutines calls = unlocked (map (\<lambda>ops. concat (map program_locks ops)) calls)"

text \<open>Goroutines that call only operations without a nested read lock on one daemon (everything but the
  monitor of a daemon with a process) or on one program (everything but \<open>StopProgram\<close>): however they
  interleave, no state is a deadlock, a writer is never inside together with readers, the run has a fixed
  bound and can be brought to its end from everywhere.\<close>

theorem flat_calls_finish:
  assumes "(\<exists>calls. s0 = daemon_goroutines calls \<and> (\<forall>ops \<in> set calls. \<forall>op \<in> set ops. \<not> nested_daemon_op op))
      \<or> (\<exists>calls. s0 = program_goroutines calls \<and> (\<forall>ops \<in> set calls. \<forall>op \<in> set ops. \<not> nested_program_op op))"
    and run: "(rw_step ^^ n) s0 s"
  shows "\<not> deadlocked s \<and> n \<le> lock_left s0 \<and> (writer s \<noteq> None \<longrightarrow> readers s = 0)
    \<and> (\<exists>s'. rw_step\<^sup>*\<^sup>* s s' \<and> all_done s')"
proof -
  have "\<exists>threads. s0 = unlocked threads \<and> (\<forall>ops \<in> set threads. flat ops)"
    using assms(1)
  proof (elim disjE exE conjE)
    fix calls assume "s0 = daemon_goroutines calls" "\<forall>ops \<in> set calls. \<forall>op \<in> set ops. \<not> nested_daemon_op op"
    then show ?thesis unfolding daemon_goroutines_def
      by (intro exI conjI) (auto intro!: flat_concat flat_daemon_locks)
  next
    fix calls assume "s0 = program_goroutines calls" "\<forall>ops \<in> set calls. \<forall>op \<in> set ops. \<not> nested_program_op op"
    then show ?thesis unfolding program_goroutines_def
      by (intro exI conjI) (auto intro!: flat_concat flat_program_locks)
  qed
  with run flat_threads_finish [of _ n s] show ?thesis by metis
qed

theorem flat_calls_finish_witness:
  "\<not> deadlocked (daemon_goroutines [[OpStart True True, OpStop True], [OpSet]])"
  using flat_calls_finish [of "daemon_goroutines [[OpStart True True, OpStop True], [OpSet]]"
      0 "daemon_goroutines [[OpStart True True, OpStop True], [OpSet]]"]
  by fastforce

text \<open>The monitor of a daemon whose process has ended and a \<open>Stop\<close> of the same daemon, and \<open>StopProgram\<close> and
  the end of the same program, can both come to a state in which none of them ever goes on: whatever
  other calls wait on that daemon or program wait for ever too.\<close>

theorem nested_read_locks_deadlock:
  "(\<exists>s. rw_step\<^sup>*\<^sup>* (unlocked (daemon_locks (OpMonitor True restart cancelled passes launched failed)
        # daemon_locks (OpStop True) # map daemon_locks dothers)) s \<and> deadlocked s)
   \<and> (\<exists>s. rw_step\<^sup>*\<^sup>* (unlocked (program_locks (POpStop stops)
        # program_locks POpExit # map program_locks pothers)) s \<and> deadlocked s)"
proof
  obtain r where monitor: "daemon_locks (OpMonitor True restart cancelled passes launched failed)
      = read_section @ RLock # RLock # r"
    by (simp add: monitor_locks_def should_restart_locks_def read_section_def)
  show "\<exists>s. rw_step\<^sup>*\<^sup>* (unlocked (daemon_locks (OpMonitor True restart cancelled passes launched failed)
       # daemon_locks (OpStop True) # map daemon_locks dothers)) s \<and> deadlocked s"
    using nested_deadlock [of read_section read_section "map daemon_locks dothers" r "[WUnlock]"]
    unfolding monitor by (simp add: stop_locks_def write_section_def)
  obtain r' where stop: "program_locks (POpStop stops) = [] @ RLock # RLock # r'"
    by (simp add: stop_program_locks_def read_section_def)
  show "\<exists>s. rw_step\<^sup>*\<^sup>* (unlocked (program_locks (POpStop stops)
       # program_locks POpExit # map program_locks pothers)) s \<and> deadlocked s"
    using nested_deadlock [of "[]" read_section "map program_locks pothers" r' "[WUnlock]"]
    unfolding stop by (simp add: write_section_def)
qed

end
