(* ===== verification/Lock_Order.thy ===== *)
theory Lock_Order
  imports Lock_Steps
begin

text \<open>
  All locks together: those of the two managers, which guard the map of their daemons or programs, one
  for each of these, and those of the feature registry and of the session WM. \<open>StopAll\<close> and \<open>StopPhase\<close>
  take the lock of an item while they hold that of the manager, nothing takes them the other way round.
  Each lock behaves like the one of \<open>Lock_Steps\<close>; the state here says which goroutine holds which locks.
\<close>

section \<open>Goroutines and locks\<close>

datatype manager = Daemons | Programs

datatype lock_id = ManagerLock manager | ItemLock manager string | FeatureLock | WmLock

fun rank :: "lock_id \<Rightarrow> nat" where
  "rank (ItemLock m name) = 1"
| "rank _ = 0"

type_synonym lock_call = "lock_id \<times> lock_op"

text \<open>What a goroutine holds, innermost first, True for the write lock, and the lock calls it still makes.\<close>

record goroutine =
  g_held :: "(lock_id \<times> bool) list"
  g_calls :: "lock_call list"

text \<open>The goroutines, and for each lock the writer that waits for the readers to leave.\<close>

record lsys =
  l_threads :: "goroutine list"
  l_queue :: "lock_id \<Rightarrow> nat option"

definition writer_in :: "lsys \<Rightarrow> lock_id \<Rightarrow> bool" where
  "writer_in s l \<longleftrightarrow> (\<exists>g \<in> set (l_threads s). (l, True) \<in> set (g_held g))"

definition someone_in :: "lsys \<Rightarrow> lock_id \<Rightarrow> bool" where
  "someone_in s l \<longleftrightarrow> (\<exists>g \<in> set (l_threads s). \<exists>w. (l, w) \<in> set (g_held g))"

definition unlock_op :: "bool \<Rightarrow> lock_op" where
  "unlock_op w = (if w then WUnlock else RUnlock)"

inductive lstep :: "lsys \<Rightarrow> lsys \<Rightarrow> bool" where
  l_read:
    "i < length (l_threads s) \<Longrightarrow> l_threads s ! i = \<lparr>g_held = hs, g_calls = (l, RLock) # cs\<rparr>
     \<Longrightarrow> \<not> writer_in s l \<Longrightarrow> l_queue s l = None
     \<Longrightarrow> lstep s (s\<lparr>l_threads := (l_threads s)[i := \<lparr>g_held = (l, False) # hs, g_calls = cs\<rparr>]\<rparr>)"
| l_announce:
    "i < length (l_threads s) \<Longrightarrow> l_threads s ! i = \<lparr>g_held = hs, g_calls = (l, WLock) # cs\<rparr>
     \<Longrightarrow> \<not> writer_in s l \<Longrightarrow> l_queue s l = None
     \<Longrightarrow> lstep s (s\<lparr>l_queue := (l_queue s)(l := Some i)\<rparr>)"
| l_acquire:
    "i < length (l_threads s) \<Longrightarrow> l_threads s ! i = \<lparr>g_held = hs, g_calls = (l, WLock) # cs\<rparr>
     \<Longrightarrow> l_queue s l = Some i \<Longrightarrow> \<not> someone_in s l
     \<Longrightarrow> lstep s (s\<lparr>l_threads := (l_threads s)[i := \<lparr>g_held = (l, True) # hs, g_calls = cs\<rparr>],
                     l_queue := (l_queue s)(l := None)\<rparr>)"
| l_unlock:
    "i < length (l_threads s) \<Longrightarrow> l_threads s ! i = \<lparr>g_held = (l, w) # hs, g_calls = (l, unlock_op w) # cs\<rparr>
     \<Longrightarrow> lstep s (s\<lparr>l_threads := (l_threads s)[i := \<lparr>g_held = hs, g_calls = cs\<rparr>]\<rparr>)"

definition all_calls_done :: "lsys \<Rightarrow> bool" where
  "all_calls_done s \<longleftrightarrow> (\<forall>g \<in> set (l_threads s). g_calls g = [])"

definition stuck :: "lsys \<Rightarrow> bool" where
  "stuck s \<longleftrightarrow> \<not> all_calls_done s \<and> (\<forall>s'. \<not> lstep s s')"

definition goroutines :: "lock_call list list \<Rightarrow> lsys" where
  "goroutines css = \<lparr>l_threads = map (\<lambda>cs. \<lparr>g_held = [], g_calls = cs\<rparr>) css, l_queue = (\<lambda>l. None)\<rparr>"

section \<open>Locks taken in order\<close>

text \<open>Every lock is taken while only locks before it are held, and given back in the reverse order.\<close>

fun in_order :: "(lock_id \<times> bool) list \<Rightarrow> lock_call list \<Rightarrow> bool" where
  "in_order hs [] = (hs = [])"
| "in_order hs ((l, RLock) # cs) = ((\<forall>h \<in> set hs. rank (fst h) < rank l) \<and> in_order ((l, False) # hs) cs)"
| "in_order hs ((l, WLock) # cs) = ((\<forall>h \<in> set hs. rank (fst h) < rank l) \<and> in_order ((l, True) # hs) cs)"
| "in_order hs ((l, RUnlock) # cs) = (hs \<noteq> [] \<and> hd hs = (l, False) \<and> in_order (tl hs) cs)"
| "in_order hs ((l, WUnlock) # cs) = (hs \<noteq> [] \<and> hd hs = (l, True) \<and> in_order (tl hs) cs)"

definition order_inv :: "lsys \<Rightarrow> bool" where
  "order_inv s \<longleftrightarrow>
     (\<forall>g \<in> set (l_threads s). in_order (g_held g) (g_calls g))
     \<and> (\<forall>l i. l_queue s l = Some i \<longrightarrow> i < length (l_threads s) \<and> (\<exists>cs. g_calls (l_threads s ! i) = (l, WLock) # cs))
     \<and> (\<forall>i j l w. i < length (l_threads s) \<longrightarrow> j < length (l_threads s) \<longrightarrow> (l, True) \<in> set (g_held (l_threads s ! i))
          \<longrightarrow> (l, w) \<in> set (g_held (l_threads s ! j)) \<longrightarrow> i = j)"

definition calls_left :: "lsys \<Rightarrow> nat" where
  "calls_left s = (\<Sum>i < length (l_threads s).
     2 * length (g_calls (l_threads s ! i)) + (if \<exists>l. l_queue s l = Some i then 0 else 1))"

lemma order_inv_start: "\<forall>cs \<in> set css. in_order [] cs \<Longrightarrow> order_inv (goroutines css)"
  by (auto simp: order_inv_def goroutines_def)

lemma order_invD:
  assumes "order_inv s"
  shows "i < length (l_threads s) \<Longrightarrow> l_threads s ! i = \<lparr>g_held = hs, g_calls = cs\<rparr> \<Longrightarrow> in_order hs cs"
    and "l_queue s l = Some i \<Longrightarrow> i < length (l_threads s) \<and> (\<exists>cs. g_calls (l_threads s ! i) = (l, WLock) # cs)"
    and "i < length (l_threads s) \<Longrightarrow> j < length (l_threads s) \<Longrightarrow> (l, True) \<in> set (g_held (l_threads s ! i))
      \<Longrightarrow> (l, w) \<in> set (g_held (l_threads s ! j)) \<Longrightarrow> i = j"
  using assms nth_mem [of i "l_threads s"] unfolding order_inv_def by force+


lemma order_inv_update:
  assumes inv: "order_inv s" and i: "i < length (l_threads s)" "l_threads s ! i = \<lparr>g_held = hs, g_calls = c # cs\<rparr>"
    and order: "in_order hs' cs" and queue: "\<And>l k. q l = Some k \<Longrightarrow> k \<noteq> i \<and> l_queue s l = Some k"
    and wr: "\<And>l. (l, True) \<in> set hs' \<Longrightarrow> (l, True) \<in> set hs \<or> \<not> someone_in s l"
    and held: "\<And>l w. (l, w) \<in> set hs' \<Longrightarrow> (l, w) \<in> set hs \<or> \<not> writer_in s l"
  shows "order_inv (s\<lparr>l_threads := (l_threads s)[i := \<lparr>g_held = hs', g_calls = cs\<rparr>], l_queue := q\<rparr>)"
proof -
  let ?T = "(l_threads s)[i := \<lparr>g_held = hs', g_calls = cs\<rparr>]"
  have "in_order (g_held g) (g_calls g)" if "g \<in> set ?T" for g
    using that set_update_subset_insert [of "l_threads s" i] order inv by (force simp: order_inv_def)
  moreover have "k < length ?T \<and> (\<exists>cs. g_calls (?T ! k) = (l, WLock) # cs)" if "q l = Some k" for l k
    using queue [OF that] order_invD(2) [OF inv] by fastforce
  moreover have "j = k" if "j < length ?T" "k < length ?T" "(l, True) \<in> set (g_held (?T ! j))"
      "(l, w) \<in> set (g_held (?T ! k))" for j k l w
  proof (rule ccontr)
    assume neq: "j \<noteq> k"
    have len: "j < length (l_threads s)" "k < length (l_threads s)" using that by simp_all
    consider "j = i" | "k = i" | "j \<noteq> i" "k \<noteq> i" by blast
    then show False
    proof cases
      case 1
      with neq that(4) have old: "(l, w) \<in> set (g_held (l_threads s ! k))" by simp
      then have "someone_in s l" using len(2) nth_mem by (fastforce simp: someone_in_def)
      moreover have "(l, True) \<in> set hs'" using that(3) 1 i(1) by simp
      ultimately have "(l, True) \<in> set (g_held (l_threads s ! i))" using wr i(2) by fastforce
      with order_invD(3) [OF inv i(1) len(2) _ old] 1 neq show False by blast
    next
      case 2
      with neq that(3) have old: "(l, True) \<in> set (g_held (l_threads s ! j))" by simp
      then have "writer_in s l" using len(1) nth_mem by (fastforce simp: writer_in_def)
      moreover have "(l, w) \<in> set hs'" using that(4) 2 i(1) by simp
      ultimately have "(l, w) \<in> set (g_held (l_threads s ! i))" using held i(2) by fastforce
      with order_invD(3) [OF inv len(1) i(1) old] 2 neq show False by blast
    next
      case 3
      with that have "(l, True) \<in> set (g_held (l_threads s ! j))" "(l, w) \<in> set (g_held (l_threads s ! k))" by simp_all
      with order_invD(3) [OF inv len] neq show False by blast
    qed
  qed
  ultimately show ?thesis unfolding order_inv_def by simp
qed

lemma queued_writes:
  assumes "order_inv s" and "l_threads s ! i = \<lparr>g_held = hs, g_calls = (l, op) # cs\<rparr>" and "l_queue s k = Some i"
  shows "k = l \<and> op = WLock"
  using order_invD(2) [OF assms(1,3)] assms(2) by simp

lemma order_inv_step:
  assumes inv: "order_inv s" and "lstep s s'"
  shows "order_inv s'"
  using assms(2)
proof cases
  case (l_read i hs l cs)
  have "order_inv (s\<lparr>l_threads := (l_threads s)[i := \<lparr>g_held = (l, False) # hs, g_calls = cs\<rparr>], l_queue := l_queue s\<rparr>)"
    by (rule order_inv_update [OF inv l_read(2,3)])
      (use l_read(4,5) order_invD(1) [OF inv l_read(2,3)] queued_writes [OF inv l_read(3)] in auto)
  then show ?thesis by (simp add: l_read(1))
next
  case (l_announce i hs l cs)
  show ?thesis unfolding l_announce(1) order_inv_def
    using inv l_announce(2,3) by (auto simp: order_inv_def)
next
  case (l_acquire i hs l cs)
  have none: "\<not> writer_in s l" using l_acquire(5) by (auto simp: writer_in_def someone_in_def)
  have order: "in_order ((l, True) # hs) cs" using order_invD(1) [OF inv l_acquire(2,3)] by simp
  show ?thesis unfolding l_acquire(1)
  proof (rule order_inv_update [OF inv l_acquire(2,3) order])
    show "j \<noteq> i \<and> l_queue s k = Some j" if "((l_queue s)(l := None)) k = Some j" for k j
      using that queued_writes [OF inv l_acquire(3), of k] by (auto split: if_splits)
  qed (use l_acquire(5) none in auto)
next
  case (l_unlock i l w hs cs)
  have "order_inv (s\<lparr>l_threads := (l_threads s)[i := \<lparr>g_held = hs, g_calls = cs\<rparr>], l_queue := l_queue s\<rparr>)"
    by (rule order_inv_update [OF inv l_unlock(2,3)])
      (use order_invD(1) [OF inv l_unlock(2,3)] queued_writes [OF inv l_unlock(3)] in
        \<open>auto simp: unlock_op_def split: if_splits\<close>)
  then show ?thesis by (simp add: l_unlock(1))
qed

lemma calls_left_step:
  assumes inv: "order_inv s" and "lstep s s'"
  shows "calls_left s' < calls_left s"
proof -
  let ?f = "\<lambda>s i. 2 * length (g_calls (l_threads s ! i)) + (if \<exists>l. l_queue s l = Some i then 0 else 1 :: nat)"
  have sum: "calls_left s' < calls_left s"
    if len: "length (l_threads s') = length (l_threads s)" and i: "i < length (l_threads s)" "?f s' i < ?f s i"
      and rest: "\<And>j. j \<noteq> i \<Longrightarrow> ?f s' j = ?f s j" for i
  proof -
    have le: "?f s' j \<le> ?f s j" for j using i(2) rest [of j] by (cases "j = i") simp_all
    show ?thesis unfolding calls_left_def len
      by (rule sum_strict_mono_ex1) (use i le in blast)+
  qed
  show ?thesis
    using assms(2)
  proof cases
    case (l_read i hs l cs)
    then show ?thesis by (intro sum [of i]) simp_all
  next
    case (l_announce i hs l cs)
    have "l_queue s k \<noteq> Some i" for k using queued_writes [OF inv l_announce(3), of k] l_announce(5) by auto
    moreover have "(\<exists>k. l_queue s' k = Some j) \<longleftrightarrow> (\<exists>k. l_queue s k = Some j)" if "j \<noteq> i" for j
      using l_announce(1,5) that by (auto, metis option.distinct(1))
    ultimately show ?thesis using l_announce by (intro sum [of i]) simp_all
  next
    case (l_acquire i hs l cs)
    moreover have "(\<exists>k. l_queue s' k = Some j) \<longleftrightarrow> (\<exists>k. l_queue s k = Some j)" if "j \<noteq> i" for j
      using l_acquire(1,4) that by (auto, metis option.inject)
    ultimately show ?thesis by (intro sum [of i]) simp_all
  next
    case (l_unlock i l w hs cs)
    then show ?thesis by (intro sum [of i]) simp_all
  qed
qed


text \<open>Where nothing can go on, whoever makes a call waits for a lock, and behind it somebody waits for a
  lock further up; there is none above that of an item.\<close>

lemma stuck_wants:
  assumes inv: "order_inv s" and no: "\<And>s'. \<not> lstep s s'"
    and g: "i < length (l_threads s)" "g_calls (l_threads s ! i) = (l, op) # cs"
  shows "op = RLock \<or> op = WLock"
proof -
  obtain hs where th: "l_threads s ! i = \<lparr>g_held = hs, g_calls = (l, op) # cs\<rparr>"
    using g(2) by (cases "l_threads s ! i") simp
  have order: "in_order hs ((l, op) # cs)" using order_invD(1) [OF inv g(1) th] .
  show ?thesis
  proof (cases op)
    case RUnlock
    with order have "hs = (l, False) # tl hs" by (cases hs) simp_all
    then have "lstep s (s\<lparr>l_threads := (l_threads s)[i := \<lparr>g_held = tl hs, g_calls = cs\<rparr>]\<rparr>)"
      using l_unlock [OF g(1), of l False "tl hs" cs] th RUnlock by (simp add: unlock_op_def)
    with no show ?thesis by blast
  next
    case WUnlock
    with order have "hs = (l, True) # tl hs" by (cases hs) simp_all
    then have "lstep s (s\<lparr>l_threads := (l_threads s)[i := \<lparr>g_held = tl hs, g_calls = cs\<rparr>]\<rparr>)"
      using l_unlock [OF g(1), of l True "tl hs" cs] th WUnlock by (simp add: unlock_op_def)
    with no show ?thesis by blast
  qed simp_all
qed

lemma stuck_holder:
  assumes inv: "order_inv s" and no: "\<And>s'. \<not> lstep s s'" and some: "someone_in s l"
  shows "\<exists>j l' op cs. j < length (l_threads s) \<and> g_calls (l_threads s ! j) = (l', op) # cs \<and> rank l < rank l'"
proof -
  obtain g w where "g \<in> set (l_threads s)" "(l, w) \<in> set (g_held g)"
    using some by (auto simp: someone_in_def)
  then obtain j where j: "j < length (l_threads s)" "(l, w) \<in> set (g_held (l_threads s ! j))"
    by (auto simp: in_set_conv_nth)
  obtain hs cs where th: "l_threads s ! j = \<lparr>g_held = hs, g_calls = cs\<rparr>" by (cases "l_threads s ! j")
  have order: "in_order hs cs" using order_invD(1) [OF inv j(1) th] .
  with j(2) th obtain l' op cs' where cs: "cs = (l', op) # cs'" by (cases cs) auto
  have "op = RLock \<or> op = WLock" using stuck_wants [OF inv no j(1)] th cs by simp
  then have "\<forall>h \<in> set hs. rank (fst h) < rank l'" using order cs by (elim disjE) simp_all
  then have "rank l < rank l'" using j(2) th by fastforce
  with j(1) th cs show ?thesis by auto
qed

lemma stuck_higher:
  assumes inv: "order_inv s" and no: "\<And>s'. \<not> lstep s s'"
    and g: "i < length (l_threads s)" "g_calls (l_threads s ! i) = (l, op) # cs"
  shows "\<exists>j l' op' cs'. j < length (l_threads s) \<and> g_calls (l_threads s ! j) = (l', op') # cs' \<and> rank l < rank l'"
proof (rule stuck_holder [OF inv no], rule ccontr)
  assume none: "\<not> someone_in s l"
  then have no_writer: "\<not> writer_in s l" by (auto simp: someone_in_def writer_in_def)
  obtain hs where th: "l_threads s ! i = \<lparr>g_held = hs, g_calls = (l, op) # cs\<rparr>"
    using g(2) by (cases "l_threads s ! i") simp
  show False
  proof (cases "l_queue s l")
    case None
    then show False
      using stuck_wants [OF inv no g] th g(1) no_writer no l_read l_announce by metis
  next
    case (Some k)
    then obtain cs' where k: "k < length (l_threads s)" "g_calls (l_threads s ! k) = (l, WLock) # cs'"
      using order_invD(2) [OF inv] by blast
    then obtain hs' where "l_threads s ! k = \<lparr>g_held = hs', g_calls = (l, WLock) # cs'\<rparr>"
      by (cases "l_threads s ! k") simp
    with k(1) Some none no l_acquire show False by metis
  qed
qed

lemma order_progress:
  assumes inv: "order_inv s" and "\<not> all_calls_done s"
  shows "\<exists>s'. lstep s s'"
proof (rule ccontr)
  assume "\<nexists>s'. lstep s s'"
  then have no: "\<not> lstep s s'" for s' by blast
  obtain i where i: "i < length (l_threads s)" "g_calls (l_threads s ! i) \<noteq> []"
    using assms(2) by (auto simp: all_calls_done_def in_set_conv_nth)
  then obtain l op cs where c: "g_calls (l_threads s ! i) = (l, op) # cs" by (metis list.exhaust surj_pair)
  obtain j l1 op1 cs1 where j: "j < length (l_threads s)" "g_calls (l_threads s ! j) = (l1, op1) # cs1"
      "rank l < rank l1"
    using stuck_higher [OF inv no i(1) c] by blast
  obtain l2 where "rank l1 < rank l2" using stuck_higher [OF inv no j(1,2)] by blast
  with j(3) show False by (cases l1; cases l2) simp_all
qed

interpretation ordered_locks: ending_system lstep order_inv all_calls_done calls_left
  by unfold_locales (auto intro: order_inv_step order_progress calls_left_step)


section \<open>The operations\<close>

definition calls_on :: "lock_id \<Rightarrow> lock_op list \<Rightarrow> lock_call list" where
  "calls_on l ops = map (\<lambda>op. (l, op)) ops"

text \<open>\<open>Get\<close> and \<open>List\<close> of a manager.\<close>

definition get_calls :: "manager \<Rightarrow> lock_call list" where
  "get_calls m = calls_on (ManagerLock m) read_section"

definition item_reads :: "manager \<Rightarrow> string list \<Rightarrow> lock_call list" where
  "item_reads m names = concat (map (\<lambda>n. calls_on (ItemLock m n) read_section) names)"

definition start_calls :: "string \<Rightarrow> bool \<Rightarrow> bool \<Rightarrow> lock_call list" where
  "start_calls d passes launched = get_calls Daemons @ calls_on (ItemLock Daemons d) (start_locks passes launched)"

definition stop_calls :: "string \<Rightarrow> bool \<Rightarrow> lock_call list" where
  "stop_calls d cleans = get_calls Daemons @ calls_on (ItemLock Daemons d) (stop_locks cleans)"

text \<open>\<open>monitorDaemon\<close>, whose \<open>Start\<close> asks the manager again.\<close>

definition monitor_calls :: "string \<Rightarrow> bool \<Rightarrow> bool \<Rightarrow> bool \<Rightarrow> lock_call list \<Rightarrow> bool \<Rightarrow> lock_call list" where
  "monitor_calls d has_cmd restart cancelled start failed =
     get_calls Daemons @ calls_on (ItemLock Daemons d) read_section @
     (if \<not> has_cmd then []
      else calls_on (ItemLock Daemons d) ([RLock] @ should_restart_locks @ [RUnlock]) @
        (if \<not> restart then calls_on (ItemLock Daemons d) (write_section @ write_section)
         else calls_on (ItemLock Daemons d) read_section @
           (if cancelled then []
            else calls_on (ItemLock Daemons d) write_section @ start @
              (if failed then calls_on (ItemLock Daemons d) write_section else []))))"

text \<open>\<open>StopAll\<close> asks the enabled daemons whether they run while it holds the manager's lock, and stops
  those that do afterwards.\<close>

definition stop_all_calls :: "string list \<Rightarrow> (string \<times> bool) list \<Rightarrow> lock_call list" where
  "stop_all_calls enabled stops =
     calls_on (ManagerLock Daemons) [RLock] @ item_reads Daemons enabled @ calls_on (ManagerLock Daemons) [RUnlock] @
     concat (map (\<lambda>(d, cleans). stop_calls d cleans) stops)"

definition reload_calls :: "(string \<times> bool) list \<Rightarrow> (string \<times> bool \<times> bool \<times> bool) list \<Rightarrow> lock_call list" where
  "reload_calls removed added =
     calls_on (ManagerLock Daemons) read_section @
     concat (map (\<lambda>(d, cleans). stop_calls d cleans @ calls_on (ManagerLock Daemons) write_section) removed) @
     concat (map (\<lambda>(d, enabled, passes, launched). calls_on (ManagerLock Daemons) write_section @
       (if enabled then start_calls d passes launched else [])) added) @
     calls_on (ManagerLock Daemons) write_section"

text \<open>The calls on the daemon manager: \<open>LookCall\<close> is a handler that lists or gets daemons and looks at them,
  \<open>SetCall\<close> one that gets a daemon and sets its policy or state.\<close>

datatype manager_op =
    StartCall string bool bool
  | StopCall string bool
  | MonitorCall string bool bool bool bool bool bool
  | SetCall string
  | LookCall "string list"
  | StopAllCall "string list" "(string \<times> bool) list"
  | ReloadCall "(string \<times> bool) list" "(string \<times> bool \<times> bool \<times> bool) list"

fun manager_calls :: "manager_op \<Rightarrow> lock_call list" where
  "manager_calls (StartCall d passes launched) = start_calls d passes launched"
| "manager_calls (StopCall d cleans) = stop_calls d cleans"
| "manager_calls (MonitorCall d has_cmd restart cancelled passes launched failed) =
     monitor_calls d has_cmd restart cancelled (start_calls d passes launched) failed"
| "manager_calls (SetCall d) = get_calls Daemons @ calls_on (ItemLock Daemons d) write_section"
| "manager_calls (LookCall ds) = get_calls Daemons @ item_reads Daemons ds"
| "manager_calls (StopAllCall enabled stops) = stop_all_calls enabled stops"
| "manager_calls (ReloadCall removed added) = reload_calls removed added"

text \<open>The calls on the program manager. \<open>StartProgram\<close> polls the state of each dependency.\<close>

definition start_program_calls :: "string \<Rightarrow> (string \<times> nat) list \<Rightarrow> nat \<Rightarrow> lock_call list" where
  "start_program_calls p polls changes =
     get_calls Programs @ calls_on (ItemLock Programs p) write_section @
     concat (map (\<lambda>(dep, n). get_calls Programs @ item_reads Programs (replicate n dep)) polls) @
     concat (replicate changes (calls_on (ItemLock Programs p) write_section))"

definition stop_program_calls :: "string \<Rightarrow> bool \<Rightarrow> lock_call list" where
  "stop_program_calls p stops = get_calls Programs @ calls_on (ItemLock Programs p) (stop_program_locks stops)"

definition stop_phase_calls :: "string list \<Rightarrow> (string \<times> bool) list \<Rightarrow> lock_call list" where
  "stop_phase_calls programs stops =
     calls_on (ManagerLock Programs) [RLock] @ item_reads Programs programs @ calls_on (ManagerLock Programs) [RUnlock] @
     concat (map (\<lambda>(p, stops). stop_program_calls p stops) stops)"

datatype programs_op =
    PStartCall string "(string \<times> nat) list" nat
  | PStopCall string bool
  | PExitCall string
  | PHealthCall string bool
  | PLookCall "string list"
  | PResolveCall
  | PStopPhaseCall "string list" "(string \<times> bool) list"

fun programs_calls :: "programs_op \<Rightarrow> lock_call list" where
  "programs_calls (PStartCall p polls changes) = start_program_calls p polls changes"
| "programs_calls (PStopCall p stops) = stop_program_calls p stops"
| "programs_calls (PExitCall p) = get_calls Programs @ calls_on (ItemLock Programs p) (program_locks POpExit)"
| "programs_calls (PHealthCall p decided) = calls_on (ItemLock Programs p) (program_locks (POpHealth decided))"
| "programs_calls (PLookCall ps) = get_calls Programs @ item_reads Programs ps"
| "programs_calls PResolveCall = get_calls Programs @ get_calls Programs"
| "programs_calls (PStopPhaseCall programs stops) = stop_phase_calls programs stops"

text \<open>Everything a goroutine of the program calls, the feature registry and the session WM included.\<close>

datatype kerno_op = DaemonsOp manager_op | ProgramsOp programs_op | FeatureOp bool | WmOp nat

fun kerno_calls :: "kerno_op \<Rightarrow> lock_call list" where
  "kerno_calls (DaemonsOp op) = manager_calls op"
| "kerno_calls (ProgramsOp op) = programs_calls op"
| "kerno_calls (FeatureOp changes) = calls_on FeatureLock (if changes then write_section else read_section)"
| "kerno_calls (WmOp sections) = calls_on WmLock (concat (replicate sections write_section))"

fun nested_op :: "kerno_op \<Rightarrow> bool" where
  "nested_op (DaemonsOp (MonitorCall d has_cmd _ _ _ _ _)) = has_cmd"
| "nested_op (ProgramsOp (PStopCall p _)) = True"
| "nested_op (ProgramsOp (PStopPhaseCall ps stops)) = (stops \<noteq> [])"
| "nested_op _ = False"

definition kerno_goroutines :: "kerno_op list list \<Rightarrow> lsys" where
  "kerno_goroutines calls = goroutines (map (\<lambda>ops. concat (map kerno_calls ops)) calls)"

section \<open>All but the nested ones take their locks in order\<close>

text \<open>Calls that a goroutine may make while all it holds has a rank below \<open>n\<close>, and after which it holds the
  same.\<close>

definition sections_from :: "nat \<Rightarrow> lock_call list \<Rightarrow> bool" where
  "sections_from n cs \<longleftrightarrow> (\<forall>hs rest. (\<forall>h \<in> set hs. rank (fst h) < n) \<longrightarrow> in_order hs rest \<longrightarrow> in_order hs (cs @ rest))"

lemma sections_zero: "sections_from 0 cs \<longleftrightarrow> (\<forall>rest. in_order [] rest \<longrightarrow> in_order [] (cs @ rest))"
proof -
  have "(\<forall>h \<in> set hs. rank (fst h) < 0) \<longleftrightarrow> hs = []" for hs :: "(lock_id \<times> bool) list" by (cases hs) auto
  then show ?thesis by (simp add: sections_from_def)
qed

lemma sections_append: "sections_from n cs \<Longrightarrow> sections_from n ds \<Longrightarrow> sections_from n (cs @ ds)"
  unfolding sections_from_def by simp

lemma sections_Nil: "sections_from n []"
  by (simp add: sections_from_def)

lemma sections_concat: "\<forall>cs \<in> set css. sections_from n cs \<Longrightarrow> sections_from n (concat css)"
  by (induction css) (simp_all add: sections_append sections_Nil)

lemma sections_lower: "sections_from n cs \<Longrightarrow> k \<le> n \<Longrightarrow> sections_from k cs"
  unfolding sections_from_def by (meson less_le_trans)

lemma sections_flat: "flat ops \<Longrightarrow> sections_from (rank l) (calls_on l ops)"
  by (induction ops rule: flat.induct) (auto simp: sections_from_def calls_on_def)

lemma sections_item: "flat ops \<Longrightarrow> n \<le> 1 \<Longrightarrow> sections_from n (calls_on (ItemLock m d) ops)"
  using sections_flat [of ops "ItemLock m d"] sections_lower by fastforce

lemma sections_get: "sections_from 0 (get_calls m)"
  using sections_flat [of read_section "ManagerLock m"] by (simp add: get_calls_def)

lemma sections_manager: "flat ops \<Longrightarrow> sections_from 0 (calls_on (ManagerLock m) ops)"
  using sections_flat [of ops "ManagerLock m"] by simp

lemma sections_reads: "n \<le> 1 \<Longrightarrow> sections_from n (item_reads m ds)"
  unfolding item_reads_def by (rule sections_concat) (simp add: sections_item)

lemma sections_in_read:
  assumes "sections_from 1 cs"
  shows "sections_from 0 (calls_on (ManagerLock m) [RLock] @ cs @ calls_on (ManagerLock m) [RUnlock])"
proof -
  have "in_order [] (calls_on (ManagerLock m) [RLock] @ cs @ calls_on (ManagerLock m) [RUnlock] @ rest)"
    if "in_order [] rest" for rest
  proof -
    have "in_order [(ManagerLock m, False)] ((ManagerLock m, RUnlock) # rest)" using that by simp
    then have "in_order [(ManagerLock m, False)] (cs @ (ManagerLock m, RUnlock) # rest)"
      using assms by (simp add: sections_from_def)
    then show ?thesis by (simp add: calls_on_def)
  qed
  then show ?thesis by (simp add: sections_zero)
qed

lemmas sections = sections_append sections_Nil sections_get sections_item sections_reads sections_manager

lemma flat_lock_lists: "flat (start_locks a b)" "flat (stop_locks c)"
  by (simp_all add: start_locks_def stop_locks_def)

lemma sections_start: "sections_from 0 (start_calls d a b)"
  by (simp add: start_calls_def sections flat_lock_lists)

lemma sections_stop: "sections_from 0 (stop_calls d c)"
  by (simp add: stop_calls_def sections flat_lock_lists)


lemma sections_monitor: "sections_from 0 (monitor_calls d False b c start e)"
  by (simp add: monitor_calls_def sections)

lemma sections_stop_all: "sections_from 0 (stop_all_calls enabled stops)"
proof -
  have "sections_from 0 (concat (map (\<lambda>(d, cleans). stop_calls d cleans) stops))"
    by (rule sections_concat) (auto simp: sections_stop)
  moreover have "sections_from 0 (calls_on (ManagerLock Daemons) [RLock] @ item_reads Daemons enabled
      @ calls_on (ManagerLock Daemons) [RUnlock])"
    by (rule sections_in_read) (simp add: sections)
  ultimately have "sections_from 0 ((calls_on (ManagerLock Daemons) [RLock] @ item_reads Daemons enabled
      @ calls_on (ManagerLock Daemons) [RUnlock]) @ concat (map (\<lambda>(d, cleans). stop_calls d cleans) stops))"
    by (rule sections_append [rotated])
  then show ?thesis by (simp add: stop_all_calls_def)
qed

lemma sections_reload: "sections_from 0 (reload_calls removed added)"
  unfolding reload_calls_def
  by (intro sections_append sections_manager sections_concat ballI)
    (auto simp: sections_append sections_Nil sections_stop sections_start sections_manager)

lemma sections_manager_calls:
  "\<not> nested_op (DaemonsOp op) \<Longrightarrow> sections_from 0 (manager_calls op)"
  by (cases op) (auto simp: sections sections_start sections_stop sections_monitor sections_stop_all sections_reload)

lemma sections_start_program: "sections_from 0 (start_program_calls p polls changes)"
  unfolding start_program_calls_def
  by (intro sections_append sections_get sections_item sections_concat ballI)
    (auto simp: sections)

lemma sections_programs_calls:
  assumes "\<not> nested_op (ProgramsOp op)"
  shows "sections_from 0 (programs_calls op)"
proof (cases op)
  case (PStopPhaseCall ps stops)
  then have "programs_calls op = calls_on (ManagerLock Programs) [RLock] @ item_reads Programs ps
      @ calls_on (ManagerLock Programs) [RUnlock]"
    using assms by (simp add: stop_phase_calls_def)
  moreover have "sections_from 1 (item_reads Programs ps)" by (simp add: sections)
  ultimately show ?thesis using sections_in_read by metis
qed (use assms in \<open>auto simp: sections sections_start_program\<close>)

lemma sections_kerno_calls: "\<not> nested_op op \<Longrightarrow> sections_from 0 (kerno_calls op)"
proof (cases op)
  case (FeatureOp changes)
  then show ?thesis using sections_flat [of _ FeatureLock] by simp
next
  case (WmOp n)
  have "flat (concat (replicate n write_section))" by (rule flat_concat) simp
  then show ?thesis using sections_flat [of _ WmLock] WmOp by simp
qed (simp_all add: sections_manager_calls sections_programs_calls)

lemma kerno_order_inv:
  assumes "\<forall>ops \<in> set calls. \<forall>op \<in> set ops. \<not> nested_op op"
  shows "order_inv (kerno_goroutines calls)"
proof -
  have "in_order [] (concat (map kerno_calls ops))" if "ops \<in> set calls" for ops
  proof -
    have "sections_from 0 (concat (map kerno_calls ops))"
      using assms that by (intro sections_concat) (auto simp: sections_kerno_calls)
    then show ?thesis using in_order.simps(1) unfolding sections_zero by (metis append_Nil2)
  qed
  then show ?thesis unfolding kerno_goroutines_def by (intro order_inv_start) auto
qed

text \<open>C9: Goroutines that make any calls on both managers, on any daemons and programs, on the feature registry
  and on the session WM, but for the monitor of a daemon with a process and the stopping of programs:
  however they interleave, they never come to a deadlock, a writer is never inside of a lock together
  with anybody else, the run has a fixed bound and can be brought to its end from everywhere.\<close>

theorem ordered_calls_finish:
  assumes "\<forall>ops \<in> set calls. \<forall>op \<in> set ops. \<not> nested_op op" and "(lstep ^^ n) (kerno_goroutines calls) s"
  shows "\<not> stuck s \<and> n \<le> calls_left (kerno_goroutines calls)
    \<and> (\<exists>s'. lstep\<^sup>*\<^sup>* s s' \<and> all_calls_done s')
    \<and> (\<forall>i j l w. i < length (l_threads s) \<and> j < length (l_threads s) \<and> (l, True) \<in> set (g_held (l_threads s ! i))
          \<and> (l, w) \<in> set (g_held (l_threads s ! j)) \<longrightarrow> i = j)"
proof -
  have start: "order_inv (kerno_goroutines calls)" using assms(1) by (rule kerno_order_inv)
  then have inv: "order_inv s" using ordered_locks.inv_steps relpowp_imp_rtranclp [OF assms(2)] by blast
  have "\<not> stuck s" using order_progress [OF inv] unfolding stuck_def by blast
  moreover have "n \<le> calls_left (kerno_goroutines calls)" using ordered_locks.steps_bound [OF assms(2) start] by simp
  moreover have "\<exists>s'. lstep\<^sup>*\<^sup>* s s' \<and> all_calls_done s'" using inv by (rule ordered_locks.finishes)
  ultimately show ?thesis using inv unfolding order_inv_def by blast
qed

theorem ordered_calls_finish_witness:
  "\<not> stuck (kerno_goroutines [[DaemonsOp (StopAllCall [''bus''] [(''bus'', True)])],
     [DaemonsOp (ReloadCall [(''bus'', True)] []), FeatureOp True], [ProgramsOp (PStartCall ''x'' [] 3)]])"
proof -
  let ?c = "[[DaemonsOp (StopAllCall [''bus''] [(''bus'', True)])],
     [DaemonsOp (ReloadCall [(''bus'', True)] []), FeatureOp True], [ProgramsOp (PStartCall ''x'' [] 3)]]"
  have "\<forall>ops \<in> set ?c. \<forall>op \<in> set ops. \<not> nested_op op" by simp
  from ordered_calls_finish [OF this, of 0 "kerno_goroutines ?c"] show ?thesis by simp
qed


section \<open>A nested read lock freezes the manager\<close>

definition fresh_goroutine :: "lock_call list \<Rightarrow> goroutine" where
  "fresh_goroutine cs = \<lparr>g_held = [], g_calls = cs\<rparr>"

lemma goroutines_fresh: "goroutines css = \<lparr>l_threads = map fresh_goroutine css, l_queue = (\<lambda>l. None)\<rparr>"
  by (simp add: goroutines_def fresh_goroutine_def)

text \<open>While nobody holds or waits for anything, a goroutine gets through a read section.\<close>

lemma run_read_section:
  assumes "i < length css" and "css ! i = calls_on l read_section @ rest"
  shows "lstep\<^sup>*\<^sup>* (goroutines css) (goroutines (css[i := rest]))"
proof -
  let ?s = "goroutines css" and ?held = "\<lparr>g_held = [(l, False)], g_calls = (l, RUnlock) # rest\<rparr>"
  let ?s1 = "?s\<lparr>l_threads := (l_threads ?s)[i := ?held]\<rparr>"
  have "\<not> writer_in ?s l" by (auto simp: writer_in_def goroutines_def)
  then have "lstep ?s ?s1"
    using assms by (intro l_read) (simp_all add: goroutines_def calls_on_def read_section_def)
  moreover have "lstep ?s1 (?s1\<lparr>l_threads := (l_threads ?s1)[i := \<lparr>g_held = [], g_calls = rest\<rparr>]\<rparr>)"
    using assms(1) by (intro l_unlock [where l = l and w = False]) (simp_all add: goroutines_def unlock_op_def)
  moreover have "?s1\<lparr>l_threads := (l_threads ?s1)[i := \<lparr>g_held = [], g_calls = rest\<rparr>]\<rparr> = goroutines (css[i := rest])"
    by (simp add: goroutines_def map_update)
  ultimately show ?thesis by (metis (no_types, lifting) rtranclp.simps)
qed

lemma run_read_sections:
  "i < length css \<Longrightarrow> css ! i = concat (map (\<lambda>l. calls_on l read_section) ls) @ rest
   \<Longrightarrow> lstep\<^sup>*\<^sup>* (goroutines css) (goroutines (css[i := rest]))"
proof (induction ls arbitrary: css)
  case Nil
  then have "css[i := rest] = css" by (metis append_Nil concat.simps(1) list.simps(8) list_update_id)
  then show ?case by simp
next
  case (Cons l ls)
  let ?css = "css[i := concat (map (\<lambda>l. calls_on l read_section) ls) @ rest]"
  have "lstep\<^sup>*\<^sup>* (goroutines css) (goroutines ?css)"
    by (rule run_read_section [where l = l]) (use Cons.prems in simp_all)
  also have "lstep\<^sup>*\<^sup>* (goroutines ?css) (goroutines (?css[i := rest]))"
    by (rule Cons.IH) (use Cons.prems in simp_all)
  finally show ?case by simp
qed

text \<open>Every call on the daemon manager begins with its lock.\<close>

lemma manager_calls_first: "\<exists>cs. manager_calls op = (ManagerLock Daemons, RLock) # cs"
  by (cases op) (simp_all add: start_calls_def stop_calls_def monitor_calls_def stop_all_calls_def reload_calls_def
      get_calls_def calls_on_def read_section_def)

definition frozen :: "string \<Rightarrow> lock_call list \<Rightarrow> lock_call list \<Rightarrow> lock_call list \<Rightarrow> lock_call list list \<Rightarrow> lsys" where
  "frozen d monitor stop all others =
     \<lparr>l_threads = \<lparr>g_held = [(ItemLock Daemons d, False)], g_calls = (ItemLock Daemons d, RLock) # monitor\<rparr>
        # fresh_goroutine ((ItemLock Daemons d, WLock) # stop)
        # \<lparr>g_held = [(ManagerLock Daemons, False)], g_calls = (ItemLock Daemons d, RLock) # all\<rparr>
        # fresh_goroutine (calls_on (ManagerLock Daemons) write_section)
        # map fresh_goroutine others,
      l_queue = (\<lambda>l. None)(ItemLock Daemons d := Some 1, ManagerLock Daemons := Some 3)\<rparr>"

lemma frozen_stuck:
  assumes "\<forall>cs \<in> set others. \<exists>r. cs = (ManagerLock Daemons, RLock) # r"
  shows "stuck (frozen d monitor stop all others)"
proof -
  let ?s = "frozen d monitor stop all others"
  let ?T = "l_threads ?s"
  have first: "(\<exists>cs. g_calls g = (ItemLock Daemons d, RLock) # cs) \<or> (\<exists>cs. g_calls g = (ItemLock Daemons d, WLock) # cs)
      \<or> (\<exists>cs. g_calls g = (ManagerLock Daemons, RLock) # cs) \<or> (\<exists>cs. g_calls g = (ManagerLock Daemons, WLock) # cs)"
    if "g \<in> set ?T" for g
    using that assms by (auto simp: frozen_def fresh_goroutine_def calls_on_def write_section_def)
  have "someone_in ?s (ItemLock Daemons d)" "someone_in ?s (ManagerLock Daemons)"
    by (auto simp: someone_in_def frozen_def)
  moreover have "l_queue ?s (ItemLock Daemons d) \<noteq> None" "l_queue ?s (ManagerLock Daemons) \<noteq> None"
    by (simp_all add: frozen_def)
  ultimately have "\<not> lstep ?s s'" for s'
  proof (intro notI)
    assume locks: "someone_in ?s (ItemLock Daemons d)" "someone_in ?s (ManagerLock Daemons)"
      "l_queue ?s (ItemLock Daemons d) \<noteq> None" "l_queue ?s (ManagerLock Daemons) \<noteq> None" and "lstep ?s s'"
    from this(5) show False
    proof cases
      case (l_read i hs l cs)
      with first [OF nth_mem [OF l_read(2)]] locks show False by auto
    next
      case (l_announce i hs l cs)
      with first [OF nth_mem [OF l_announce(2)]] locks show False by auto
    next
      case (l_acquire i hs l cs)
      with first [OF nth_mem [OF l_acquire(2)]] locks show False by auto
    next
      case (l_unlock i l w hs cs)
      with first [OF nth_mem [OF l_unlock(2)]] show False by (cases w) (auto simp: unlock_op_def)
    qed
  qed
  moreover have "\<not> all_calls_done ?s" by (simp add: all_calls_done_def frozen_def)
  ultimately show ?thesis by (simp add: stuck_def)
qed


lemma reaches_frozen:
  fixes d :: string
  defines "I \<equiv> ItemLock Daemons d" and "M \<equiv> ManagerLock Daemons"
  shows "lstep\<^sup>*\<^sup>* (goroutines (((I, RLock) # (I, RLock) # monitor) # ((I, WLock) # stop)
      # ((M, RLock) # (I, RLock) # all) # calls_on M write_section # others))
    (frozen d monitor stop all others)"
proof -
  let ?g0 = "\<lparr>g_held = [(I, False)], g_calls = (I, RLock) # monitor\<rparr>"
  let ?g2 = "\<lparr>g_held = [(M, False)], g_calls = (I, RLock) # all\<rparr>"
  let ?T = "\<lambda>g0 g2. g0 # fresh_goroutine ((I, WLock) # stop) # g2 # fresh_goroutine (calls_on M write_section)
    # map fresh_goroutine others"
  let ?f0 = "fresh_goroutine ((I, RLock) # (I, RLock) # monitor)" and ?f2 = "fresh_goroutine ((M, RLock) # (I, RLock) # all)"
  let ?q = "\<lambda>l. None :: nat option"
  let ?s0 = "\<lparr>l_threads = ?T ?f0 ?f2, l_queue = ?q\<rparr>" and ?s1 = "\<lparr>l_threads = ?T ?g0 ?f2, l_queue = ?q\<rparr>"
  let ?s2 = "\<lparr>l_threads = ?T ?g0 ?f2, l_queue = ?q(I := Some 1)\<rparr>"
  let ?s3 = "\<lparr>l_threads = ?T ?g0 ?g2, l_queue = ?q(I := Some 1)\<rparr>"
  have neq: "I \<noteq> M" by (simp add: I_def M_def)
  have no: "\<not> writer_in \<lparr>l_threads = ?T g0 g2, l_queue = q\<rparr> l"
    if "g0 = ?f0 \<or> g0 = ?g0" "g2 = ?f2 \<or> g2 = ?g2" for g0 g2 q l
    using that by (auto simp: writer_in_def fresh_goroutine_def)
  have "lstep ?s0 ?s1"
    using l_read [of 0 ?s0 "[]" I "(I, RLock) # monitor"] no by (simp add: fresh_goroutine_def)
  moreover have "lstep ?s1 ?s2"
    using l_announce [of 1 ?s1 "[]" I stop] no by (simp add: fresh_goroutine_def)
  moreover have "lstep ?s2 ?s3"
    using l_read [of 2 ?s2 "[]" M "(I, RLock) # all"] no neq by (simp add: fresh_goroutine_def)
  moreover have "lstep ?s3 (frozen d monitor stop all others)"
    using l_announce [of 3 ?s3 "[]" M "[(M, WUnlock)]"] no neq
    by (simp add: fresh_goroutine_def frozen_def calls_on_def write_section_def I_def M_def)
  ultimately show ?thesis unfolding goroutines_fresh by (simp add: converse_rtranclp_into_rtranclp)
qed

lemma monitor_calls_nested:
  "\<exists>r. monitor_calls d True restart cancelled start failed = calls_on (ManagerLock Daemons) read_section
     @ calls_on (ItemLock Daemons d) read_section @ (ItemLock Daemons d, RLock) # (ItemLock Daemons d, RLock) # r"
  by (simp add: monitor_calls_def get_calls_def should_restart_locks_def read_section_def calls_on_def)

text \<open>C8: the monitor of a daemon and a \<open>Stop\<close> of it that meet in the nested read lock freeze the daemon
  manager: the \<open>StopAll\<close> of a shutdown then waits for the daemon while it holds the manager's lock, the next
  reload of the configuration waits for that, and from there on no call on any daemon takes its first
  lock. The shutdown never ends.\<close>

theorem nested_lock_freezes_manager:
  "\<exists>s. lstep\<^sup>*\<^sup>* (kerno_goroutines (map (\<lambda>op. [DaemonsOp op])
        ([MonitorCall d True restart cancelled passes launched failed, StopCall d True,
          StopAllCall (d # ds) stops, ReloadCall [] []] @ others))) s \<and> stuck s
    \<and> map g_calls (drop 4 (l_threads s)) = map manager_calls others
    \<and> g_calls (l_threads s ! 2) = (ItemLock Daemons d, RLock) # drop 2 (manager_calls (StopAllCall (d # ds) stops))"
proof -
  let ?I = "ItemLock Daemons d" and ?M = "ManagerLock Daemons"
  let ?reads = "\<lambda>ls. concat (map (\<lambda>l. calls_on l read_section) ls)"
  let ?os = "map manager_calls others"
  obtain r where monitor: "manager_calls (MonitorCall d True restart cancelled passes launched failed)
      = ?reads [?M, ?I] @ (?I, RLock) # (?I, RLock) # r"
    using monitor_calls_nested by fastforce
  have stop: "manager_calls (StopCall d True) = ?reads [?M, ?I] @ (?I, WLock) # [(?I, WUnlock)]"
    by (simp add: stop_calls_def stop_locks_def get_calls_def calls_on_def read_section_def write_section_def)
  obtain all where all: "manager_calls (StopAllCall (d # ds) stops) = (?M, RLock) # (?I, RLock) # all"
    by (simp add: stop_all_calls_def item_reads_def calls_on_def read_section_def)
  have reload: "manager_calls (ReloadCall [] []) = ?reads [?M] @ calls_on ?M write_section"
    by (simp add: reload_calls_def)
  let ?m = "(?I, RLock) # (?I, RLock) # r" and ?t = "(?I, WLock) # [(?I, WUnlock)]"
  let ?a = "(?M, RLock) # (?I, RLock) # all" and ?w = "calls_on ?M write_section"
  let ?c = "\<lambda>m t w. m # t # ?a # w # ?os"
  let ?s0 = "kerno_goroutines (map (\<lambda>op. [DaemonsOp op])
    ([MonitorCall d True restart cancelled passes launched failed, StopCall d True,
      StopAllCall (d # ds) stops, ReloadCall [] []] @ others))"
  have start: "?s0
      = goroutines (?c (?reads [?M, ?I] @ ?m) (?reads [?M, ?I] @ ?t) (?reads [?M] @ ?w))"
    using monitor stop all reload by (simp add: kerno_goroutines_def comp_def del: manager_calls.simps)
  have "lstep\<^sup>*\<^sup>* (goroutines (?c (?reads [?M, ?I] @ ?m) (?reads [?M, ?I] @ ?t) (?reads [?M] @ ?w)))
      (goroutines (?c ?m (?reads [?M, ?I] @ ?t) (?reads [?M] @ ?w)))"
    using run_read_sections [of 0 "?c (?reads [?M, ?I] @ ?m) _ _" "[?M, ?I]" ?m] by simp
  moreover have "lstep\<^sup>*\<^sup>* (goroutines (?c ?m (?reads [?M, ?I] @ ?t) (?reads [?M] @ ?w)))
      (goroutines (?c ?m ?t (?reads [?M] @ ?w)))"
    using run_read_sections [of 1 "?c ?m (?reads [?M, ?I] @ ?t) _" "[?M, ?I]" ?t] by simp
  moreover have "lstep\<^sup>*\<^sup>* (goroutines (?c ?m ?t (?reads [?M] @ ?w))) (goroutines (?c ?m ?t ?w))"
    using run_read_sections [of 3 "?c ?m ?t (?reads [?M] @ ?w)" "[?M]" ?w] by simp
  moreover have "lstep\<^sup>*\<^sup>* (goroutines (?c ?m ?t ?w)) (frozen d r [(?I, WUnlock)] all ?os)"
    by (rule reaches_frozen)
  ultimately have "lstep\<^sup>*\<^sup>* ?s0 (frozen d r [(?I, WUnlock)] all ?os)"
    unfolding start by (rule rtranclp_trans [OF rtranclp_trans [OF rtranclp_trans]])
  moreover have "stuck (frozen d r [(?I, WUnlock)] all ?os)"
    by (rule frozen_stuck) (use manager_calls_first in auto)
  ultimately show ?thesis
    using all by (intro exI [of _ "frozen d r [(?I, WUnlock)] all ?os"]) (simp add: frozen_def fresh_goroutine_def comp_def)
qed

end
