(* ===== verification/Go_Strings.thy ===== *)
theory Go_Strings
  imports Go_Text "HOL-Library.Sublist"
begin

text \<open>
  The string functions of the configuration code: \<open>strings.ReplaceAll\<close>, the comparisons without
  case, \<open>filepath.Ext\<close>, \<open>filepath.Clean\<close> and \<open>filepath.Join\<close>. The lemmas say when a replacement
  removes a placeholder for good, and that it does not bring another one back.
\<close>

section \<open>\<open>strings.ReplaceAll\<close>\<close>

text \<open>For a non-empty \<open>old\<close>, as everywhere in the code.\<close>

function replace_all :: "string \<Rightarrow> string \<Rightarrow> string \<Rightarrow> string" where
  "replace_all old new [] = []"
| "replace_all old new (c # cs) =
     (if old \<noteq> [] \<and> has_prefix (c # cs) old
      then new @ replace_all old new (drop (length old) (c # cs))
      else c # replace_all old new cs)"
  by pat_completeness auto
termination by (relation "measure (\<lambda>(old, new, s). length s)") auto

text \<open>A value is foreign to a placeholder when it holds neither the first nor the last character of the
  placeholder and some character that is not in the placeholder at all.\<close>

definition foreign_to :: "string \<Rightarrow> string \<Rightarrow> bool" where
  "foreign_to p new \<longleftrightarrow> hd p \<notin> set new \<and> last p \<notin> set new \<and> (\<exists>c \<in> set new. c \<notin> set p)"

lemma has_prefix_Nil [simp]: "has_prefix s []"
  by (simp add: has_prefix_def)

lemma has_prefix_Cons_iff: "has_prefix (c # cs) (d # ds) \<longleftrightarrow> c = d \<and> has_prefix cs ds"
  by (auto simp: has_prefix_def)

lemma has_prefix_sublist: "has_prefix s p \<Longrightarrow> sublist p s"
  unfolding has_prefix_append_iff by (auto simp: sublist_appendI sublist_append_rightI)

lemma sublist_Cons_iff: "sublist p (c # cs) \<longleftrightarrow> has_prefix (c # cs) p \<or> sublist p cs"
  by (auto simp: sublist_Cons_right prefix_def has_prefix_append_iff)

lemma has_prefix_new:
  assumes "foreign_to p new" and "suffix q p" and "has_prefix (new @ r) q"
  shows "q = []"
proof (rule ccontr)
  assume q: "q \<noteq> []"
  have sub: "set q \<subseteq> set p" using assms(2) by (rule set_mono_suffix)
  from assms(3) consider t where "new = q @ t" | t where "q = new @ t"
    by (auto simp: has_prefix_append_iff append_eq_append_conv2)
  then show False
  proof cases
    case 1
    have "last q = last p" using assms(2) q by (auto simp: suffix_def)
    moreover have "last q \<in> set new" using 1 q by simp
    ultimately show False using assms(1) by (simp add: foreign_to_def)
  next
    case 2
    then show False using assms(1) sub by (auto simp: foreign_to_def)
  qed
qed

lemma has_prefix_replace:
  "foreign_to p new \<Longrightarrow> suffix q p \<Longrightarrow> has_prefix (replace_all old new s) q \<Longrightarrow> has_prefix s q"
proof (induction old new s arbitrary: q rule: replace_all.induct)
  case (1 old new)
  then show ?case by simp
next
  case (2 old new c cs)
  show ?case
  proof (cases q)
    case Nil
    then show ?thesis by simp
  next
    case (Cons d ds)
    have "suffix ds p" using 2(4) Cons by (metis suffix_ConsD)
    then show ?thesis
      using 2 Cons has_prefix_new [OF 2(3,4)] by (auto simp: has_prefix_Cons_iff split: if_splits)
  qed
qed

lemma has_prefix_replace_Cons:
  assumes "foreign_to p new" and "p \<noteq> []" and "has_prefix (c # replace_all old new cs) p"
  shows "has_prefix (c # cs) p"
proof -
  obtain d ds where p: "p = d # ds" using assms(2) by (cases p) auto
  have "suffix ds p" unfolding p by (simp add: suffix_ConsI)
  then have "has_prefix cs ds" if "has_prefix (replace_all old new cs) ds"
    using has_prefix_replace [OF assms(1)] that by blast
  with assms(3) show ?thesis by (simp add: p has_prefix_Cons_iff)
qed

lemma sublist_append_first:
  fixes p :: string
  assumes "hd p \<notin> set new" and "p \<noteq> []" and "sublist p (new @ r)"
  shows "sublist p r"
  using assms(1,3)
proof (induction new)
  case (Cons c new)
  have "\<not> has_prefix (c # new @ r) p"
    using Cons.prems(1) assms(2) by (cases p) (auto simp: has_prefix_Cons_iff)
  then have "sublist p (new @ r)" using Cons.prems(2) by (simp add: sublist_Cons_iff)
  then show ?case using Cons by simp
qed simp

lemma replace_all_keeps_absent:
  "foreign_to p new \<Longrightarrow> p \<noteq> [] \<Longrightarrow> sublist p (replace_all old new s) \<Longrightarrow> sublist p s"
proof (induction old new s rule: replace_all.induct)
  case (1 old new)
  then show ?case by simp
next
  case (2 old new c cs)
  show ?case
  proof (cases "old \<noteq> [] \<and> has_prefix (c # cs) old")
    case True
    then have "sublist p (replace_all old new (drop (length old) (c # cs)))"
      using 2(3-5) sublist_append_first by (auto simp: foreign_to_def)
    then have "sublist p (drop (length old) (c # cs))" using 2(1,3,4) True by blast
    then show ?thesis by (metis sublist_drop sublist_order.order_trans)
  next
    case False
    then have "has_prefix (c # replace_all old new cs) p \<or> sublist p (replace_all old new cs)"
      using 2(5) by (auto simp: sublist_Cons_iff split: if_splits)
    then have "has_prefix (c # cs) p \<or> sublist p (replace_all old new cs)"
      using has_prefix_replace_Cons [OF 2(3,4)] by blast
    then show ?thesis using 2(2-4) False by (auto simp: sublist_Cons_iff)
  qed
qed

lemma replace_all_removes:
  "foreign_to old new \<Longrightarrow> old \<noteq> [] \<Longrightarrow> \<not> sublist old (replace_all old new s)"
proof (induction old new s rule: replace_all.induct)
  case (1 old new)
  then show ?case by simp
next
  case (2 old new c cs)
  show ?case
  proof (cases "has_prefix (c # cs) old")
    case True
    then show ?thesis
      using 2(1,3,4) sublist_append_first by (auto simp: foreign_to_def)
  next
    case False
    then have "\<not> has_prefix (c # replace_all old new cs) old"
      using has_prefix_replace_Cons [OF 2(3,4)] by blast
    then show ?thesis using 2(2-4) False by (simp add: sublist_Cons_iff)
  qed
qed

lemma replace_all_stays_absent:
  "foreign_to p new \<Longrightarrow> p \<noteq> [] \<Longrightarrow> \<not> sublist p s \<Longrightarrow> \<not> sublist p (replace_all old new s)"
  using replace_all_keeps_absent by blast

lemma replace_all_absent: "\<not> sublist old s \<Longrightarrow> replace_all old new s = s"
proof (induction old new s rule: replace_all.induct)
  case (2 old new c cs)
  then show ?case by (simp add: sublist_Cons_iff)
qed simp

declare replace_all.simps(2) [simp del]

section \<open>Letters\<close>

definition ascii_lower :: "char \<Rightarrow> char" where
  "ascii_lower c = (let n = of_char c :: nat in if 65 \<le> n \<and> n \<le> 90 then char_of (n + 32) else c)"

text \<open>\<open>strings.EqualFold(s, lit)\<close> for a \<open>lit\<close> of ASCII characters: besides the ASCII letters, simple case
  folding maps only the Kelvin sign (U+212A) and the long s (U+017F) to ASCII.\<close>

fun simple_fold :: "string \<Rightarrow> string" where
  "simple_fold [] = []"
| "simple_fold (c # cs) =
     (if has_prefix (c # cs) [CHR 0xE2, CHR 0x84, CHR 0xAA] then CHR ''k'' # simple_fold (drop 2 cs)
      else if has_prefix (c # cs) [CHR 0xC5, CHR 0xBF] then CHR ''s'' # simple_fold (drop 1 cs)
      else ascii_lower c # simple_fold cs)"

definition equal_fold :: "string \<Rightarrow> string \<Rightarrow> bool" where
  "equal_fold s lit \<longleftrightarrow> simple_fold s = map ascii_lower lit"

text \<open>\<open>strings.ToLower(s)\<close> as far as comparisons with ASCII text can tell: outside ASCII, only the Kelvin
  sign and the capital I with a dot (U+0130) have a lower case in ASCII.\<close>

fun to_lower :: "string \<Rightarrow> string" where
  "to_lower [] = []"
| "to_lower (c # cs) =
     (if has_prefix (c # cs) [CHR 0xE2, CHR 0x84, CHR 0xAA] then CHR ''k'' # to_lower (drop 2 cs)
      else if has_prefix (c # cs) [CHR 0xC4, CHR 0xB0] then CHR ''i'' # to_lower (drop 1 cs)
      else ascii_lower c # to_lower cs)"

section \<open>Paths\<close>

text \<open>\<open>strings.TrimSuffix\<close>, \<open>filepath.Ext\<close>, \<open>filepath.Clean\<close> and \<open>filepath.Join\<close> of two elements.\<close>

definition trim_suffix :: "string \<Rightarrow> string \<Rightarrow> string" where
  "trim_suffix s p = (if has_suffix s p then take (length s - length p) s else s)"

definition file_ext :: "string \<Rightarrow> string" where
  "file_ext path =
     (let t = takeWhile (\<lambda>c. c \<noteq> CHR ''.'' \<and> c \<noteq> CHR ''/'') (rev path)
      in case drop (length t) (rev path) of
           [] \<Rightarrow> []
         | c # _ \<Rightarrow> if c = CHR ''.'' then CHR ''.'' # rev t else [])"

fun clean_parts :: "bool \<Rightarrow> string list \<Rightarrow> string list \<Rightarrow> string list" where
  "clean_parts rooted stack [] = rev stack"
| "clean_parts rooted stack (x # xs) =
     (if x = [] \<or> x = ''.'' then clean_parts rooted stack xs
      else if x \<noteq> ''..'' then clean_parts rooted (x # stack) xs
      else case stack of
             [] \<Rightarrow> clean_parts rooted (if rooted then [] else [x]) xs
           | y # ys \<Rightarrow> clean_parts rooted (if y = ''..'' then x # stack else ys) xs)"

definition path_clean :: "string \<Rightarrow> string" where
  "path_clean path =
     (let rooted = has_prefix path ''/'';
          out = (if rooted then ''/'' else []) @ join (clean_parts rooted [] (split_on (CHR ''/'') path)) ''/''
      in if out = [] then ''.'' else out)"

definition path_join :: "string \<Rightarrow> string \<Rightarrow> string" where
  "path_join a b =
     (if a = [] then if b = [] then [] else path_clean b
      else path_clean (if b = [] then a else a @ ''/'' @ b))"

lemma trim_suffix_append [simp]: "trim_suffix (s @ p) p = s"
  by (simp add: trim_suffix_def)

lemma file_ext_append:
  assumes "CHR ''.'' \<notin> set e" and "CHR ''/'' \<notin> set e"
  shows "file_ext (s @ CHR ''.'' # e) = CHR ''.'' # e"
proof -
  have "takeWhile (\<lambda>c. c \<noteq> CHR ''.'' \<and> c \<noteq> CHR ''/'') (rev e @ CHR ''.'' # rev s) = rev e"
    using assms by (subst takeWhile_append2) auto
  then show ?thesis by (simp add: file_ext_def)
qed

end
