(* ===== verification/Kerno_Config.thy ===== *)
theory Kerno_Config
  imports Go_Strings
begin

text \<open>
  The global configuration, \<open>internal/config/config.go\<close>: environment variables with defaults, the
  expansion of placeholders in paths, and the singleton behind \<open>Init\<close> and \<open>Get\<close>. The environment is
  a function from names to values, the empty string for a variable that is not set, which is how
  \<open>os.Getenv\<close> answers; \<open>user.Current\<close> gives a user and home directory or fails.
\<close>

type_synonym getenv = "string \<Rightarrow> string"

section \<open>Expansion of placeholders\<close>

definition UID_var :: string where "UID_var = ''${UID}''"
definition HOME_var :: string where "HOME_var = ''${HOME}''"
definition XDG_var :: string where "XDG_var = ''${XDG_RUNTIME_DIR}''"
definition ADE_var :: string where "ADE_var = ''${ADE_RUNTIME_DIR}''"

lemmas var_defs = UID_var_def HOME_var_def XDG_var_def ADE_var_def

definition env_or_default :: "getenv \<Rightarrow> string \<Rightarrow> string \<Rightarrow> string" where
  "env_or_default getenv key d = (let v = getenv key in if v \<noteq> [] then v else d)"

definition ade_runtime_dir :: "getenv \<Rightarrow> string \<Rightarrow> string" where
  "ade_runtime_dir getenv uid =
     (let v = getenv ''ADE_RUNTIME_DIR'' in if v \<noteq> [] then v else ''/tmp/ade-'' @ uid)"

definition xdg_runtime_dir :: "getenv \<Rightarrow> string \<Rightarrow> string" where
  "xdg_runtime_dir getenv uid =
     (let v = getenv ''XDG_RUNTIME_DIR'' in if v \<noteq> [] then v else ''/run/user/'' @ uid)"

text \<open>What all four copies of the expansion do after the tilde.\<close>

definition expand_placeholders :: "getenv \<Rightarrow> string \<Rightarrow> string \<Rightarrow> string \<Rightarrow> string" where
  "expand_placeholders getenv uid home s =
     (let s1 = replace_all UID_var uid s;
          s2 = replace_all HOME_var home s1;
          s3 = replace_all XDG_var (xdg_runtime_dir getenv uid) s2
      in replace_all ADE_var (ade_runtime_dir getenv uid) s3)"

text \<open>\<open>strings.Replace(path, "~", home, 1)\<close> of a path that begins with the tilde.\<close>

definition expand_var :: "getenv \<Rightarrow> string \<Rightarrow> string \<Rightarrow> string \<Rightarrow> string" where
  "expand_var getenv uid home path =
     expand_placeholders getenv uid home (if has_prefix path ''~'' then home @ tl path else path)"

section \<open>\<open>Init\<close> and \<open>Get\<close>\<close>

record config =
  cfg_config_home :: string
  cfg_runtime_dir :: string
  cfg_kerno_sock :: string
  cfg_daemons_ini :: string
  cfg_kerno_ini :: string
  cfg_autostart_dir :: string
  cfg_daemon_sockets :: "string go_map"

definition empty_config :: config where
  "empty_config =
     \<lparr>cfg_config_home = [], cfg_runtime_dir = [], cfg_kerno_sock = [], cfg_daemons_ini = [],
      cfg_kerno_ini = [], cfg_autostart_dir = [], cfg_daemon_sockets = []\<rparr>"

definition default_config_home :: string where "default_config_home = ''~/.config/ade''"
definition default_runtime_dir :: string where "default_runtime_dir = ''/tmp/ade-${UID}''"
definition default_kerno_sock :: string where "default_kerno_sock = ''${ADE_RUNTIME_DIR}/kerno''"

text \<open>The map from daemons to variables, in the order the \<open>range\<close> loop meets it.\<close>

definition socket_vars :: "string go_map" where
  "socket_vars =
     [(''a-lancxo'', ''ADE_INDEXD_SOCK''), (''a-skripto'', ''ADE_SKRIPTO_SOCK''),
      (''a-tondujo'', ''ADE_TONDUJO_SOCK''), (''a-dosierago'', ''ADE_DOSIERAGO_SOCK'')]"

definition collect_sockets :: "getenv \<Rightarrow> string \<Rightarrow> string \<Rightarrow> string go_map \<Rightarrow> string go_map" where
  "collect_sockets getenv uid home sockets =
     fold (\<lambda>(name, envVar) m.
         let v = getenv envVar in if v \<noteq> [] then AList.update name (expand_var getenv uid home v) m else m)
       socket_vars sockets"

text \<open>\<open>resolveUser\<close> gives the user id and home directory, None for an error.\<close>

definition init_config :: "getenv \<Rightarrow> (string \<times> string) option \<Rightarrow> config \<times> bool" where
  "init_config getenv user =
     (case user of
        None \<Rightarrow> (empty_config, False)
      | Some (uid, home) \<Rightarrow>
          let configHome = expand_var getenv uid home
                (env_or_default getenv ''ADE_CONFIG_HOME'' default_config_home);
              runtimeDir = expand_var getenv uid home
                (env_or_default getenv ''ADE_RUNTIME_DIR'' default_runtime_dir);
              sock0 = expand_var getenv uid home
                (env_or_default getenv ''ADE_KERNO_SOCK'' default_kerno_sock);
              sock = (if sock0 = [] then expand_var getenv uid home default_kerno_sock else sock0)
          in (\<lparr>cfg_config_home = configHome, cfg_runtime_dir = runtimeDir, cfg_kerno_sock = sock,
               cfg_daemons_ini = path_join configHome ''daemons.ini'',
               cfg_kerno_ini = path_join configHome ''a-kerno.ini'',
               cfg_autostart_dir = path_join configHome ''autostart'',
               cfg_daemon_sockets = collect_sockets getenv uid home []\<rparr>, True))"

text \<open>The package variables: the configuration, None for nil, and whether \<open>once\<close> has run. \<open>Init\<close> gives
  whether it returned nil.\<close>

record config_globals =
  global_config :: "config option"
  once_done :: bool

definition config_init :: "getenv \<Rightarrow> (string \<times> string) option \<Rightarrow> config_globals \<Rightarrow> config_globals \<times> bool" where
  "config_init getenv user g =
     (if once_done g then (g, True)
      else case init_config getenv user of
             (c, ok) \<Rightarrow> (\<lparr>global_config = Some c, once_done = True\<rparr>, ok))"

definition config_get ::
  "getenv \<Rightarrow> (string \<times> string) option \<Rightarrow> config_globals \<Rightarrow> config_globals \<times> config option" where
  "config_get getenv user g =
     (let g' = (if global_config g = None then fst (config_init getenv user g) else g)
      in (g', global_config g'))"

definition fresh_globals :: config_globals where
  "fresh_globals = \<lparr>global_config = None, once_done = False\<rparr>"

section \<open>What is left after the expansion\<close>

text \<open>A value that is foreign to every placeholder: no dollar sign, no closing brace, and a digit or a
  slash in it, as every user id and every absolute path has.\<close>

definition plain_value :: "string \<Rightarrow> bool" where
  "plain_value v \<longleftrightarrow>
     CHR ''$'' \<notin> set v \<and> CHR ''}'' \<notin> set v \<and> (\<exists>c \<in> set v. c \<notin> set (UID_var @ HOME_var @ XDG_var @ ADE_var))"

lemma plain_foreign:
  assumes "plain_value v"
  shows "foreign_to UID_var v" "foreign_to HOME_var v" "foreign_to XDG_var v" "foreign_to ADE_var v"
proof -
  obtain c where "c \<in> set v" "c \<notin> set (UID_var @ HOME_var @ XDG_var @ ADE_var)"
    using assms unfolding plain_value_def by blast
  then have "\<exists>c \<in> set v. c \<notin> set UID_var" "\<exists>c \<in> set v. c \<notin> set HOME_var"
    "\<exists>c \<in> set v. c \<notin> set XDG_var" "\<exists>c \<in> set v. c \<notin> set ADE_var"
    by auto
  moreover have "CHR ''$'' \<notin> set v" "CHR ''}'' \<notin> set v" using assms by (simp_all add: plain_value_def)
  moreover have "hd UID_var = CHR ''$''" "hd HOME_var = CHR ''$''" "hd XDG_var = CHR ''$''"
    "hd ADE_var = CHR ''$''" "last UID_var = CHR ''}''" "last HOME_var = CHR ''}''"
    "last XDG_var = CHR ''}''" "last ADE_var = CHR ''}''"
    by (simp_all add: var_defs)
  ultimately show "foreign_to UID_var v" "foreign_to HOME_var v" "foreign_to XDG_var v"
    "foreign_to ADE_var v"
    unfolding foreign_to_def by simp_all
qed

lemma vars_nonempty [simp]: "UID_var \<noteq> []" "HOME_var \<noteq> []" "XDG_var \<noteq> []" "ADE_var \<noteq> []"
  by (simp_all add: var_defs)

lemma expand_placeholders_complete:
  assumes "plain_value uid" and "plain_value home" and "plain_value (xdg_runtime_dir getenv uid)"
    and "plain_value (ade_runtime_dir getenv uid)" and "p \<in> {UID_var, HOME_var, XDG_var, ADE_var}"
  shows "\<not> sublist p (expand_placeholders getenv uid home s)"
  using assms(5) plain_foreign [OF assms(1)] plain_foreign [OF assms(2)] plain_foreign [OF assms(3)]
    plain_foreign [OF assms(4)]
  by (auto simp: expand_placeholders_def Let_def replace_all_removes replace_all_stays_absent)

text \<open>When the user id, the home directory and both runtime directories hold no placeholder of their
  own, no expanded path holds one either, whatever the path was.\<close>

theorem expansion_leaves_no_placeholder:
  assumes "plain_value uid" and "plain_value home" and "plain_value (xdg_runtime_dir getenv uid)"
    and "plain_value (ade_runtime_dir getenv uid)" and "p \<in> {UID_var, HOME_var, XDG_var, ADE_var}"
  shows "\<not> sublist p (expand_var getenv uid home s)"
  unfolding expand_var_def by (rule expand_placeholders_complete [OF assms])

definition demo_getenv :: getenv where
  "demo_getenv k = (if k = ''XDG_RUNTIME_DIR'' then ''/run/user/1000'' else [])"

theorem expansion_leaves_no_placeholder_witness:
  "\<not> sublist ''${UID}'' (expand_var demo_getenv ''1000'' ''/home/u'' ''~/${XDG_RUNTIME_DIR}/${UID}x'')"
  using expansion_leaves_no_placeholder [of "''1000''" "''/home/u''" demo_getenv UID_var]
  by (simp add: plain_value_def xdg_runtime_dir_def ade_runtime_dir_def demo_getenv_def var_defs)

section \<open>The socket and the runtime directory\<close>

lemma replace_all_no_dollar:
  assumes "CHR ''$'' \<notin> set s"
  shows "replace_all UID_var v s = s" "replace_all HOME_var v s = s" "replace_all XDG_var v s = s"
    "replace_all ADE_var v s = s"
  using assms by (auto intro!: replace_all_absent dest: set_mono_sublist simp: var_defs)

lemma default_sock: "expand_var getenv uid home default_kerno_sock = ade_runtime_dir getenv uid @ ''/kerno''"
  by (simp add: expand_var_def expand_placeholders_def default_kerno_sock_def var_defs has_prefix_def
      replace_all.simps)

lemma default_dir:
  assumes "CHR ''$'' \<notin> set uid"
  shows "expand_var getenv uid home default_runtime_dir = ''/tmp/ade-'' @ uid"
proof -
  have 1: "replace_all UID_var uid default_runtime_dir = ''/tmp/ade-'' @ uid"
    by (simp add: default_runtime_dir_def var_defs has_prefix_def replace_all.simps)
  have 2: "\<not> has_prefix default_runtime_dir ''~''" by (simp add: default_runtime_dir_def has_prefix_def)
  have "CHR ''$'' \<notin> set (''/tmp/ade-'' @ uid)" using assms by simp
  note 3 = replace_all_no_dollar [OF this]
  show ?thesis unfolding expand_var_def expand_placeholders_def Let_def by (simp only: 1 2 3 if_False)
qed

text \<open>With \<open>ADE_KERNO_SOCK\<close> unset, the management socket lies in the runtime directory as the
  environment has it, without expansion, while \<open>RuntimeDir\<close> is expanded: the socket lies there only
  if the expansion of the variable does not change it.\<close>

theorem socket_and_runtime_dir:
  fixes home :: string
  assumes "getenv ''ADE_KERNO_SOCK'' = []" and "CHR ''$'' \<notin> set uid"
  defines "c \<equiv> fst (init_config getenv (Some (uid, home)))" and "v \<equiv> getenv ''ADE_RUNTIME_DIR''"
  shows "cfg_kerno_sock c = (if v = [] then ''/tmp/ade-'' @ uid else v) @ ''/kerno''
    \<and> cfg_runtime_dir c = (if v = [] then ''/tmp/ade-'' @ uid else expand_var getenv uid home v)
    \<and> (cfg_kerno_sock c = cfg_runtime_dir c @ ''/kerno'' \<longleftrightarrow> v = [] \<or> expand_var getenv uid home v = v)"
  using default_sock [of getenv uid home] default_dir [OF assms(2), of getenv home] assms(1)
  by (auto simp: c_def v_def init_config_def env_or_default_def ade_runtime_dir_def Let_def)

definition tilde_getenv :: getenv where
  "tilde_getenv k = (if k = ''ADE_RUNTIME_DIR'' then ''~/run'' else [])"

theorem socket_and_runtime_dir_witness:
  "cfg_kerno_sock (fst (init_config tilde_getenv (Some (''1000'', ''/h'')))) = ''~/run/kerno''
   \<and> cfg_runtime_dir (fst (init_config tilde_getenv (Some (''1000'', ''/h'')))) = ''/h/run''"
proof -
  have "expand_var tilde_getenv ''1000'' ''/h'' ''~/run'' = ''/h/run''"
    by (simp add: expand_var_def expand_placeholders_def has_prefix_def var_defs replace_all.simps)
  then show ?thesis
    using socket_and_runtime_dir [of tilde_getenv "''1000''" "''/h''"] by (simp add: tilde_getenv_def)
qed

text \<open>The error of a failed \<open>Init\<close> is reported once: the next call returns nil, and \<open>Get\<close> hands out the
  empty configuration.\<close>

lemma failed_init_is_forgotten:
  assumes "config_init getenv None fresh_globals = (g, ok)"
  shows "\<not> ok \<and> snd (config_init getenv' user g) \<and> snd (config_get getenv' user g) = Some empty_config"
  using assms by (auto simp: config_init_def config_get_def init_config_def fresh_globals_def)

text \<open>Whatever is called and how often, the first call decides the configuration.\<close>

lemma config_init_once:
  "config_init getenv user g = (g', ok) \<Longrightarrow> config_init getenv' user' g' = (g', True)"
  by (auto simp: config_init_def split: if_splits prod.splits)

end
