(* ===== verification/Ini_Sections.thy ===== *)
theory Ini_Sections
  imports Go_Text
begin

text \<open>
  The helpers of \<open>internal/iniload/iniload.go\<close>. The INI library \<open>gopkg.in/ini.v1\<close> is not part of the
  repository: a parsed file is the record of what its methods answer, and nothing is assumed of them.
  A file read from disk, or created from a template when it is missing, is shared by the two loaders
  that do that.
\<close>

text \<open>\<open>Name\<close>, \<open>String\<close>, \<open>ValueWithShadows\<close> and \<open>Bool\<close> of a key, the last None for its error; the keys of
  a section in order, and the key a name is looked up to, None when \<open>HasKey\<close> says no; the sections of
  a file in order, its default section, and the section of a name, None when \<open>HasSection\<close> says no.\<close>

record ini_key =
  ik_name :: string
  ik_string :: string
  ik_shadows :: "string list"
  ik_bool :: "bool option"

record ini_section =
  is_name :: string
  is_keys :: "ini_key list"
  is_key :: "string \<Rightarrow> ini_key option"

record ini_file =
  if_sections :: "ini_section list"
  if_default :: ini_section
  if_section :: "string \<Rightarrow> ini_section option"

definition named_sections :: "ini_file \<Rightarrow> ini_section list" where
  "named_sections f = filter (\<lambda>sec. is_name sec \<noteq> ''DEFAULT'') (if_sections f)"

definition program_section :: "ini_file \<Rightarrow> ini_section" where
  "program_section f =
     (if is_keys (if_default f) \<noteq> [] then if_default f
      else case named_sections f of sec # _ \<Rightarrow> sec | [] \<Rightarrow> if_default f)"

definition ini_string :: "ini_section \<Rightarrow> string \<Rightarrow> string" where
  "ini_string sec key = (case is_key sec key of None \<Rightarrow> [] | Some k \<Rightarrow> ik_string k)"

definition ini_shadows :: "ini_section \<Rightarrow> string \<Rightarrow> string list" where
  "ini_shadows sec key = (case is_key sec key of None \<Rightarrow> [] | Some k \<Rightarrow> ik_shadows k)"

definition ini_bool_default :: "ini_section \<Rightarrow> string \<Rightarrow> bool \<Rightarrow> bool" where
  "ini_bool_default sec key d =
     (case is_key sec key of
        None \<Rightarrow> d
      | Some k \<Rightarrow> (case ik_bool k of None \<Rightarrow> d | Some b \<Rightarrow> b))"

text \<open>What \<open>os.ReadFile\<close> gives: the data, an error for which \<open>os.IsNotExist\<close> holds, or another one.\<close>

datatype file_result = FileData string | FileMissing | FileError

datatype read_error = ReadFailed | TemplateFailed | NewTemplateUnread

text \<open>The file as it is, or after the template was written: \<open>created\<close> says whether writing it succeeded
  and \<open>again\<close> is what the second read gives.\<close>

definition read_or_create :: "file_result \<Rightarrow> bool \<Rightarrow> file_result \<Rightarrow> read_error + string" where
  "read_or_create first created again =
     (case first of
        FileData s \<Rightarrow> Inr s
      | FileError \<Rightarrow> Inl ReadFailed
      | FileMissing \<Rightarrow>
          if \<not> created then Inl TemplateFailed
          else (case again of FileData s \<Rightarrow> Inr s | _ \<Rightarrow> Inl NewTemplateUnread))"

text \<open>A section given by its keys, each name once, for the examples.\<close>

definition ini_key_of :: "string \<times> string \<Rightarrow> ini_key" where
  "ini_key_of kv =
     \<lparr>ik_name = fst kv, ik_string = snd kv, ik_shadows = [snd kv],
      ik_bool = (if snd kv = ''true'' then Some True else if snd kv = ''false'' then Some False else None)\<rparr>"

definition ini_section_of :: "string \<Rightarrow> (string \<times> string) list \<Rightarrow> ini_section" where
  "ini_section_of name kvs =
     \<lparr>is_name = name, is_keys = map ini_key_of kvs,
      is_key = (\<lambda>k. map_option (\<lambda>v. ini_key_of (k, v)) (map_of kvs k))\<rparr>"

definition ini_file_of :: "ini_section list \<Rightarrow> ini_file" where
  "ini_file_of secs =
     \<lparr>if_sections = secs, if_default = ini_section_of ''DEFAULT'' [],
      if_section = (\<lambda>n. List.find (\<lambda>sec. is_name sec = n) secs)\<rparr>"

end
