(* ===== verification/Go_Duration.thy ===== *)
theory Go_Duration
  imports Restart_Policy
begin

text \<open>
  \<open>time.ParseDuration\<close> and the \<open>parseDuration\<close> of \<open>internal/daemon/config.go\<close> that tries it first and
  reads a bare number as seconds otherwise. The unsigned sums are kept below \<open>2 ^ 64\<close> as the code
  does; the one step that computes in floating point, for the digits after a decimal point, is the
  parameter \<open>fp\<close>: \<open>fp f k unit\<close> is \<open>uint64(float64(f) * (float64(unit) / 10^k))\<close>.
\<close>

section \<open>\<open>time.ParseDuration\<close>\<close>

text \<open>\<open>leadingInt\<close>: None for an overflow.\<close>

fun leading_int :: "nat \<Rightarrow> string \<Rightarrow> (nat \<times> string) option" where
  "leading_int x [] = Some (x, [])"
| "leading_int x (c # cs) =
     (case digit_val c of
        None \<Rightarrow> Some (x, c # cs)
      | Some d \<Rightarrow>
          if x > 2 ^ 63 div 10 then None
          else let y = x * 10 + d in if y > 2 ^ 63 then None else leading_int y cs)"

text \<open>\<open>leadingFraction\<close> gives the digits it could take, how many they are, and the rest; after an
  overflow it skips digits.\<close>

fun leading_fraction :: "nat \<Rightarrow> nat \<Rightarrow> bool \<Rightarrow> string \<Rightarrow> nat \<times> nat \<times> string" where
  "leading_fraction x k overflow [] = (x, k, [])"
| "leading_fraction x k overflow (c # cs) =
     (case digit_val c of
        None \<Rightarrow> (x, k, c # cs)
      | Some d \<Rightarrow>
          if overflow \<or> x > (2 ^ 63 - 1) div 10 \<or> x * 10 + d > 2 ^ 63 then leading_fraction x k True cs
          else leading_fraction (x * 10 + d) (k + 1) False cs)"

definition unit_map :: "(string \<times> nat) list" where
  "unit_map =
     [(''ns'', 1), (''us'', 1000), ([CHR 0xC2, CHR 0xB5, CHR ''s''], 1000),
      ([CHR 0xCE, CHR 0xBC, CHR ''s''], 1000), (''ms'', 1000000), (''s'', 1000000000),
      (''m'', 60000000000), (''h'', 3600000000000)]"

definition is_unit_char :: "char \<Rightarrow> bool" where
  "is_unit_char c \<longleftrightarrow> c \<noteq> CHR ''.'' \<and> digit_val c = None"

text \<open>One round of the loop: a number, an optional fraction and a unit; the nanoseconds and the rest.\<close>

definition duration_part :: "(nat \<Rightarrow> nat \<Rightarrow> nat \<Rightarrow> nat) \<Rightarrow> string \<Rightarrow> (nat \<times> string) option" where
  "duration_part fp s =
     (if s = [] \<or> (hd s \<noteq> CHR ''.'' \<and> digit_val (hd s) = None) then None
      else case leading_int 0 s of
             None \<Rightarrow> None
           | Some (v, s1) \<Rightarrow>
               let pre = length s1 \<noteq> length s;
                   dot = s1 \<noteq> [] \<and> hd s1 = CHR ''.'';
                   (f, k, s2) = (if dot then leading_fraction 0 0 False (tl s1) else (0, 0, s1));
                   post = dot \<and> length s2 \<noteq> length (tl s1);
                   u = takeWhile is_unit_char s2;
                   s3 = dropWhile is_unit_char s2
               in if \<not> pre \<and> \<not> post then None
                  else if u = [] then None
                  else case map_of unit_map u of
                         None \<Rightarrow> None
                       | Some unit \<Rightarrow>
                           if v > 2 ^ 63 div unit then None
                           else let w = v * unit + (if f > 0 then fp f k unit else 0)
                                in if w > 2 ^ 63 then None else Some (w, s3))"

lemma leading_int_length: "leading_int x s = Some (v, r) \<Longrightarrow> length r \<le> length s"
  by (induction x s rule: leading_int.induct)
    (auto simp: Let_def intro: le_SucI split: option.splits if_splits)

lemma leading_fraction_length: "leading_fraction x k b s = (f, j, r) \<Longrightarrow> length r \<le> length s"
  by (induction x k b s rule: leading_fraction.induct) (auto intro: le_SucI split: option.splits if_splits)

lemma duration_part_shorter: "duration_part fp s = Some (w, r) \<Longrightarrow> length r < length s"
proof -
  assume p: "duration_part fp s = Some (w, r)"
  obtain v s1 where 1: "leading_int 0 s = Some (v, s1)"
    using p by (auto simp: duration_part_def split: option.splits if_splits)
  define dot where "dot \<longleftrightarrow> s1 \<noteq> [] \<and> hd s1 = CHR ''.''"
  obtain f k s2 where 2: "(if dot then leading_fraction 0 0 False (tl s1) else (0, 0, s1)) = (f, k, s2)"
    by (cases "if dot then leading_fraction 0 0 False (tl s1) else (0, 0, s1)") auto
  have "length s2 \<le> length s1"
    using 2 leading_fraction_length [of 0 0 False "tl s1" f k s2] by (auto split: if_splits)
  moreover have "length s1 \<le> length s" using leading_int_length [OF 1] .
  moreover have "takeWhile is_unit_char s2 \<noteq> [] \<and> r = dropWhile is_unit_char s2"
    using p 1 2 by (auto simp: duration_part_def dot_def Let_def split: option.splits if_splits)
  moreover have "length s2 = length (takeWhile is_unit_char s2) + length (dropWhile is_unit_char s2)"
    by (metis length_append takeWhile_dropWhile_id)
  ultimately show ?thesis by (cases "takeWhile is_unit_char s2") auto
qed

text \<open>The sum \<open>d\<close> is a \<open>uint64\<close>.\<close>

function duration_loop :: "(nat \<Rightarrow> nat \<Rightarrow> nat \<Rightarrow> nat) \<Rightarrow> nat \<Rightarrow> string \<Rightarrow> nat option" where
  "duration_loop fp d s =
     (if s = [] then Some d
      else case duration_part fp s of
             None \<Rightarrow> None
           | Some (w, r) \<Rightarrow>
               let d' = (d + w) mod 2 ^ 64 in if d' > 2 ^ 63 then None else duration_loop fp d' r)"
  by pat_completeness auto
termination
  by (relation "measure (\<lambda>(fp, d, s). length s)") (auto dest: duration_part_shorter)

declare duration_loop.simps [simp del]

definition parse_go_duration :: "(nat \<Rightarrow> nat \<Rightarrow> nat \<Rightarrow> nat) \<Rightarrow> string \<Rightarrow> duration option" where
  "parse_go_duration fp s =
     (let neg = has_prefix s ''-'';
          r = (if neg \<or> has_prefix s ''+'' then tl s else s)
      in if r = ''0'' then Some 0
         else if r = [] then None
         else case duration_loop fp 0 r of
                None \<Rightarrow> None
              | Some d \<Rightarrow>
                  if neg then Some (- of_nat d) else if d > 2 ^ 63 - 1 then None else Some (of_nat d))"

section \<open>\<open>parseDuration\<close>\<close>

definition parse_duration :: "(nat \<Rightarrow> nat \<Rightarrow> nat \<Rightarrow> nat) \<Rightarrow> string \<Rightarrow> duration option" where
  "parse_duration fp s =
     (case parse_go_duration fp s of
        Some d \<Rightarrow> Some d
      | None \<Rightarrow> map_option seconds (go_parse_int s))"

section \<open>Numbers\<close>

lemma digit_zero: "digit_char 0 = CHR ''0''"
  by code_simp

lemma leading_int_show:
  "n \<le> 2 ^ 63 \<Longrightarrow> leading_int 0 (show_nat n @ rest) = leading_int n rest"
proof (induction n arbitrary: rest rule: show_nat.induct)
  case (1 n)
  show ?case
  proof (cases "n < 10")
    case True
    then show ?thesis by (simp add: show_nat.simps [of n] digit_val_char)
  next
    case False
    have "leading_int 0 (show_nat n @ rest) = leading_int (n div 10) (digit_char (n mod 10) # rest)"
      using 1 False by (subst show_nat.simps) simp
    also have "\<dots> = leading_int n rest"
    proof -
      have "\<not> n div 10 > 2 ^ 63 div 10" using 1(2) by (simp only: not_less div_le_mono)
      then show ?thesis using 1(2) by (simp add: digit_val_char Let_def)
    qed
    finally show ?thesis .
  qed
qed

lemma show_nat_nonempty: "show_nat n \<noteq> []"
  using show_nat_Cons [of n] by auto

lemma show_nat_first: "show_nat n @ r \<noteq> []" "digit_val (hd (show_nat n @ r)) \<noteq> None"
    "\<not> has_prefix (show_nat n @ r) ''-''" "\<not> has_prefix (show_nat n @ r) ''+''"
  using show_nat_Cons [of n] by (auto simp: has_prefix_def digit_val_char digit_char_not_sign)

lemma show_nat_zero: "show_nat n = ''0'' \<longleftrightarrow> n = 0"
proof
  assume "show_nat n = ''0''"
  then have "parse_digits 0 ''0'' = Some n" using parse_show_nat [of n] by simp
  then show "n = 0" by (simp add: digit_val_def)
qed (simp add: show_nat.simps digit_zero)

lemma show_int_nat: "show_int (int n) = show_nat n"
  by (simp add: show_int_def)

lemma go_parse_show_nat: "n < 2 ^ 63 \<Longrightarrow> go_parse_int (show_nat n) = Some (int n)"
  using parse_show_int [of "int n"] by (simp add: show_int_nat int64_range_def)

lemma duration_bare:
  assumes "n < 2 ^ 63"
  shows "parse_go_duration fp (show_nat n) = (if n = 0 then Some 0 else None)"
proof (cases "n = 0")
  case True
  then show ?thesis
    by (simp add: parse_go_duration_def show_nat.simps [of 0] digit_zero has_prefix_def Let_def)
next
  case False
  have l: "leading_int 0 (show_nat n) = Some (n, [])"
    using leading_int_show [of n "[]"] assms by simp
  have "duration_part fp (show_nat n) = None"
    using show_nat_first [of n "[]"] by (simp add: duration_part_def l Let_def)
  then show ?thesis
    using False show_nat_first [of n "[]"] show_nat_zero [of n]
    by (simp add: parse_go_duration_def duration_loop.simps [of fp 0 "show_nat n"])
qed

lemma duration_with_unit:
  assumes "n \<le> 2 ^ 63" and "\<forall>c \<in> set u. is_unit_char c" and "map_of unit_map u = Some unit" and "u \<noteq> []"
  shows "duration_part fp (show_nat n @ u) = (if n > 2 ^ 63 div unit then None else Some (n * unit, []))"
proof -
  obtain c cs where u: "u = c # cs" using assms(4) by (cases u) auto
  then have c: "digit_val c = None" "c \<noteq> CHR ''.''" using assms(2) by (auto simp: is_unit_char_def)
  have l: "leading_int 0 (show_nat n @ u) = Some (n, u)"
    using leading_int_show [OF assms(1), of u] c by (simp add: u)
  have hd: "hd u \<noteq> CHR ''.''" using c by (simp add: u)
  have t: "takeWhile is_unit_char u = u" "dropWhile is_unit_char u = []"
    using assms(2) by (simp_all add: takeWhile_eq_all_conv dropWhile_eq_Nil_conv)
  have le: "n > 2 ^ 63 div unit \<or> n * unit \<le> 2 ^ 63"
  proof (cases "n > 2 ^ 63 div unit")
    case False
    then have "n * unit \<le> (2 ^ 63 div unit) * unit" by (simp only: not_less mult_le_mono1)
    also have "\<dots> \<le> 2 ^ 63" by simp
    finally show ?thesis by simp
  qed simp
  then show ?thesis
    using show_nat_first [of n u] show_nat_nonempty [of n] hd assms(4) le
    by (auto simp: duration_part_def l t assms(3) Let_def)
qed

text \<open>A timeout written as a bare number of seconds is multiplied by a billion at 64 bits, whatever
  the number; written with the unit it is the same up to 9223372036 and rejected beyond.\<close>

theorem timeout_in_seconds:
  assumes "n < 2 ^ 63"
  shows "parse_duration fp (show_nat n) = Some (seconds (int n))
    \<and> parse_duration fp (show_nat n @ ''s'') = (if n \<le> 9223372036 then Some (seconds (int n)) else None)"
proof
  show "parse_duration fp (show_nat n) = Some (seconds (int n))"
    using duration_bare [OF assms] go_parse_show_nat [OF assms]
    by (auto simp: parse_duration_def seconds_def)
  have part: "duration_part fp (show_nat n @ ''s'') = (if n > 9223372036 then None else Some (n * 1000000000, []))"
    using duration_with_unit [of n "''s''" 1000000000 fp] assms
    by (simp add: is_unit_char_def unit_map_def digit_val_def)
  have z: "show_nat n @ ''s'' \<noteq> ''0''" using show_nat_nonempty [of n] by (cases "show_nat n") auto
  have go: "parse_go_duration fp (show_nat n @ ''s'')
      = (if n \<le> 9223372036 then Some (seconds (int n)) else None)"
    using show_nat_first [of n "''s''"] z
    by (simp add: parse_go_duration_def duration_loop.simps part seconds_def)
  have "go_parse_int (show_nat n @ ''s'') = None"
    using show_nat_first [of n "''s''"]
    by (simp add: go_parse_int_def parse_digits_append parse_show_nat digit_val_def)
  then show "parse_duration fp (show_nat n @ ''s'')
      = (if n \<le> 9223372036 then Some (seconds (int n)) else None)"
    by (simp add: parse_duration_def go)
qed

theorem timeout_in_seconds_witness:
  "(\<exists>d. parse_duration (\<lambda>_ _ _. 0) (show_nat 9223372037) = Some d \<and> sint d = -9223372036709551616)
   \<and> parse_duration (\<lambda>_ _ _. 0) (show_nat 9223372037 @ ''s'') = None"
proof -
  have s: "sint (seconds (int 9223372037)) = -9223372036709551616" by (simp add: seconds_def)
  show ?thesis using timeout_in_seconds [of 9223372037 "\<lambda>_ _ _. 0"] s by auto
qed

end
