(* ===== verification/Daemon_Config.thy ===== *)
theory Daemon_Config
  imports Kerno_Config Ini_Sections Go_Duration Daemon_Manager
begin

text \<open>
  Reading \<open>daemons.ini\<close>: \<open>internal/daemon/config.go\<close>. The specification \<open>section_valid\<close> says which
  sections are accepted, independently of the order in which the code looks at the keys.
\<close>

section \<open>One section\<close>

definition default_daemon_restart :: restart_policy where
  "default_daemon_restart = RestartOnFailure"

definition default_ready_timeout :: duration where
  "default_ready_timeout = 10 * 1000000000"

datatype section_error =
    InvalidOrder string
  | InvalidPolicy string
  | InvalidTimeout string
  | InvalidEnv string
  | ExecRequired string

text \<open>The environment the process runs in, its user, and the floating point step of durations.\<close>

record host =
  h_getenv :: getenv
  h_uid :: string
  h_home :: string
  h_fp :: "nat \<Rightarrow> nat \<Rightarrow> nat \<Rightarrow> nat"

definition expand_daemon_var :: "host \<Rightarrow> string \<Rightarrow> string" where
  "expand_daemon_var h s = expand_placeholders (h_getenv h) (h_uid h) (h_home h) s"

text \<open>The loop over the values of \<open>env\<close>; the entry of a key that comes again is overwritten.\<close>

fun add_env :: "host \<Rightarrow> string list \<Rightarrow> string go_map \<Rightarrow> section_error + string go_map" where
  "add_env h [] m = Inr m"
| "add_env h (value # vs) m =
     (let value' = expand_daemon_var h value
      in case cut (CHR ''='') value' of
           None \<Rightarrow> Inl (InvalidEnv value')
         | Some (k, v) \<Rightarrow> add_env h vs (AList.update k v m))"

definition section_order :: "ini_section \<Rightarrow> section_error + int" where
  "section_order sn =
     (let order = ini_string sn ''order''
      in if order = [] then Inr 0
         else case go_parse_int order of None \<Rightarrow> Inl (InvalidOrder order) | Some n \<Rightarrow> Inr n)"

definition section_restart :: "ini_section \<Rightarrow> section_error + restart_policy" where
  "section_restart sn =
     (let restart = trim_space (ini_string sn ''restart'')
      in if restart = [] then Inr default_daemon_restart
         else if restart \<notin> set valid_restart_policies then Inl (InvalidPolicy restart)
         else Inr restart)"

definition section_timeout :: "host \<Rightarrow> ini_section \<Rightarrow> section_error + duration" where
  "section_timeout h sn =
     (let timeout = ini_string sn ''ready_timeout''
      in if timeout = [] then Inr default_ready_timeout
         else case parse_duration (h_fp h) timeout of
                None \<Rightarrow> Inl (InvalidTimeout timeout)
              | Some d \<Rightarrow> Inr d)"

text \<open>An optional path; \<open>exec\<close> and \<open>socket\<close> are read like this.\<close>

definition section_path :: "host \<Rightarrow> ini_section \<Rightarrow> string \<Rightarrow> string" where
  "section_path h sn key =
     (let v = ini_string sn key in if v \<noteq> [] then expand_daemon_var h v else [])"

text \<open>The parts in the order of the code, each with its early return.\<close>

definition daemon_config_from_section :: "host \<Rightarrow> ini_section \<Rightarrow> section_error + daemon_config" where
  "daemon_config_from_section h sn =
     (let exec = section_path h sn ''exec''
      in case section_order sn of
           Inl e \<Rightarrow> Inl e
         | Inr order \<Rightarrow>
             (case section_restart sn of
                Inl e \<Rightarrow> Inl e
              | Inr restart \<Rightarrow>
                  (case section_timeout h sn of
                     Inl e \<Rightarrow> Inl e
                   | Inr timeout \<Rightarrow>
                       let socket = section_path h sn ''socket''
                       in (case add_env h (ini_shadows sn ''env'') [] of
                             Inl e \<Rightarrow> Inl e
                           | Inr env \<Rightarrow>
                               if exec = [] then Inl (ExecRequired (is_name sn))
                               else Inr \<lparr>dc_name = is_name sn, dc_exec = exec, dc_order = order,
                                         dc_restart = restart, dc_ready_timeout = sint timeout,
                                         dc_socket = socket, dc_env = env,
                                         dc_enabled = ini_bool_default sn ''enabled'' True\<rparr>))))"

section \<open>The file\<close>

datatype load_error =
    Unreadable read_error
  | Unparsable
  | BadSection string section_error

fun daemon_configs_of :: "host \<Rightarrow> ini_section list \<Rightarrow> load_error + daemon_config list" where
  "daemon_configs_of h [] = Inr []"
| "daemon_configs_of h (sn # sns) =
     (case daemon_config_from_section h sn of
        Inl e \<Rightarrow> Inl (BadSection (is_name sn) e)
      | Inr c \<Rightarrow> (case daemon_configs_of h sns of Inl e \<Rightarrow> Inl e | Inr cs \<Rightarrow> Inr (c # cs)))"

text \<open>\<open>LoadConfig\<close>: \<open>parse\<close> is \<open>iniload.Load\<close>, None for its error, and \<open>srt\<close> is \<open>sort.Slice\<close> by order.\<close>

definition load_config ::
  "host \<Rightarrow> (string \<Rightarrow> ini_file option) \<Rightarrow> (daemon_config list \<Rightarrow> daemon_config list)
    \<Rightarrow> file_result \<Rightarrow> bool \<Rightarrow> file_result \<Rightarrow> load_error + daemon_config list" where
  "load_config h parse srt first created again =
     (case read_or_create first created again of
        Inl e \<Rightarrow> Inl (Unreadable e)
      | Inr data \<Rightarrow>
          (case parse data of
             None \<Rightarrow> Inl Unparsable
           | Some f \<Rightarrow>
               (case daemon_configs_of h (named_sections f) of
                  Inl e \<Rightarrow> Inl e
                | Inr cs \<Rightarrow> if cs = [] then Inr [] else Inr (srt cs))))"

section \<open>Which sections are accepted\<close>

definition section_valid :: "host \<Rightarrow> ini_section \<Rightarrow> bool" where
  "section_valid h sn \<longleftrightarrow>
     ini_string sn ''exec'' \<noteq> [] \<and> expand_daemon_var h (ini_string sn ''exec'') \<noteq> []
   \<and> (ini_string sn ''order'' = [] \<or> go_parse_int (ini_string sn ''order'') \<noteq> None)
   \<and> trim_space (ini_string sn ''restart'') \<in> set ([] # valid_restart_policies)
   \<and> (ini_string sn ''ready_timeout'' = [] \<or> parse_duration (h_fp h) (ini_string sn ''ready_timeout'') \<noteq> None)
   \<and> (\<forall>v \<in> set (ini_shadows sn ''env''). CHR ''='' \<in> set (expand_daemon_var h v))"

lemma add_env_Inr_iff: "(\<exists>m'. add_env h vs m = Inr m') \<longleftrightarrow> (\<forall>v \<in> set vs. CHR ''='' \<in> set (expand_daemon_var h v))"
  by (induction vs arbitrary: m) (auto simp: Let_def cut_None_iff cut_Some_iff split: option.split)

lemma add_env_map_ok: "add_env h vs m = Inr m' \<Longrightarrow> go_map_ok m \<Longrightarrow> go_map_ok m'"
  by (induction vs arbitrary: m) (auto simp: Let_def split: option.splits)

lemma add_env_keys:
  "add_env h vs m = Inr m' \<Longrightarrow> k \<in> dom (map_of m') \<Longrightarrow> k \<in> dom (map_of m) \<or> CHR ''='' \<notin> set k"
proof (induction vs arbitrary: m)
  case (Cons v vs)
  then obtain j w where c: "cut (CHR ''='') (expand_daemon_var h v) = Some (j, w)"
    and m': "add_env h vs (AList.update j w m) = Inr m'"
    by (auto simp: Let_def split: option.splits)
  have "CHR ''='' \<notin> set j" using c by (simp add: cut_Some_iff)
  with Cons.IH [OF m' Cons.prems(2)] show ?case by (auto split: if_splits)
qed simp

lemma section_parts_iff:
  "(\<exists>n. section_order sn = Inr n) \<longleftrightarrow>
     ini_string sn ''order'' = [] \<or> go_parse_int (ini_string sn ''order'') \<noteq> None"
  "(\<exists>p. section_restart sn = Inr p) \<longleftrightarrow>
     trim_space (ini_string sn ''restart'') \<in> set ([] # valid_restart_policies)"
  "(\<exists>d. section_timeout h sn = Inr d) \<longleftrightarrow>
     ini_string sn ''ready_timeout'' = [] \<or> parse_duration (h_fp h) (ini_string sn ''ready_timeout'') \<noteq> None"
  "section_path h sn key = [] \<longleftrightarrow> ini_string sn key = [] \<or> expand_daemon_var h (ini_string sn key) = []"
  by (auto simp: section_order_def section_restart_def section_timeout_def section_path_def Let_def
      split: option.split)

lemma section_valid_iff: "(\<exists>c. daemon_config_from_section h sn = Inr c) \<longleftrightarrow> section_valid h sn"
proof -
  have "(\<exists>c. daemon_config_from_section h sn = Inr c) \<longleftrightarrow>
      (\<exists>n. section_order sn = Inr n) \<and> (\<exists>p. section_restart sn = Inr p)
    \<and> (\<exists>d. section_timeout h sn = Inr d) \<and> (\<exists>m. add_env h (ini_shadows sn ''env'') [] = Inr m)
    \<and> section_path h sn ''exec'' \<noteq> []"
    by (auto simp: daemon_config_from_section_def Let_def split: sum.split)
  then show ?thesis unfolding section_parts_iff add_env_Inr_iff section_valid_def by blast
qed

text \<open>What a well-formed configuration of a daemon is.\<close>

definition daemon_config_ok :: "daemon_config \<Rightarrow> bool" where
  "daemon_config_ok c \<longleftrightarrow>
     dc_exec c \<noteq> [] \<and> dc_restart c \<in> set valid_restart_policies \<and> int64_range (dc_order c)
   \<and> int64_range (dc_ready_timeout c) \<and> go_map_ok (dc_env c) \<and> (\<forall>k \<in> fst ` set (dc_env c). CHR ''='' \<notin> set k)"

lemma section_config_ok:
  assumes "daemon_config_from_section h sn = Inr c"
  shows "daemon_config_ok c \<and> dc_name c = is_name sn"
proof -
  obtain order restart timeout env where parts: "section_order sn = Inr order"
    "section_restart sn = Inr restart" "section_timeout h sn = Inr timeout"
    "add_env h (ini_shadows sn ''env'') [] = Inr env" "section_path h sn ''exec'' \<noteq> []"
    and c: "c = \<lparr>dc_name = is_name sn, dc_exec = section_path h sn ''exec'', dc_order = order,
      dc_restart = restart, dc_ready_timeout = sint timeout, dc_socket = section_path h sn ''socket'',
      dc_env = env, dc_enabled = ini_bool_default sn ''enabled'' True\<rparr>"
    using assms by (auto simp: daemon_config_from_section_def Let_def split: sum.splits if_splits)
  have "int64_range order"
    using parts(1) go_parse_int_range
    by (auto simp: section_order_def int64_range_def Let_def split: if_splits option.splits)
  moreover have "restart \<in> set valid_restart_policies"
    using parts(2)
    by (auto simp: section_restart_def Let_def default_daemon_restart_def valid_restart_policies_def
        split: if_splits)
  moreover have "int64_range (sint timeout)"
    using sint_range_size [of timeout] by (simp add: int64_range_def word_size)
  moreover have "go_map_ok env" using add_env_map_ok [OF parts(4)] by simp
  moreover have "\<forall>k \<in> fst ` set env. CHR ''='' \<notin> set k"
    using add_env_keys [OF parts(4)] by (auto simp: dom_map_of_conv_image_fst)
  ultimately show ?thesis using parts(5) by (simp add: c daemon_config_ok_def)
qed

section \<open>Which files are accepted\<close>

lemma daemon_configs_Inr:
  "daemon_configs_of h sns = Inr cs \<Longrightarrow>
     map dc_name cs = map is_name sns \<and> (\<forall>c \<in> set cs. daemon_config_ok c)"
  by (induction sns arbitrary: cs) (auto dest: section_config_ok split: sum.splits)

lemma daemon_configs_iff: "(\<exists>cs. daemon_configs_of h sns = Inr cs) \<longleftrightarrow> (\<forall>sn \<in> set sns. section_valid h sn)"
proof (induction sns)
  case (Cons sn sns)
  then show ?case
    by (auto simp flip: section_valid_iff split: sum.split)
qed simp

lemma load_config_parsed:
  assumes "read_or_create first created again = Inr s" and "parse s = Some f"
  shows "load_config h parse srt first created again =
     (case daemon_configs_of h (named_sections f) of
        Inl e \<Rightarrow> Inl e | Inr cs \<Rightarrow> if cs = [] then Inr [] else Inr (srt cs))"
  using assms by (simp add: load_config_def)

text \<open>C22: \<open>LoadConfig\<close> accepts a file that can be read and parsed exactly when all its sections are
  valid, so one bad section rejects the whole file, and what it returns holds every section once, well
  formed and in the order of startup.\<close>

theorem load_config_outcome:
  assumes "read_or_create first created again = Inr s" and "parse s = Some f" and "go_sort dc_order srt"
  shows "((\<exists>cs. load_config h parse srt first created again = Inr cs)
      \<longleftrightarrow> (\<forall>sn \<in> set (named_sections f). section_valid h sn))
    \<and> (\<forall>cs. load_config h parse srt first created again = Inr cs \<longrightarrow>
        mset (map dc_name cs) = mset (map is_name (named_sections f))
      \<and> sorted (map dc_order cs) \<and> (\<forall>c \<in> set cs. daemon_config_ok c))"
proof (intro conjI allI impI)
  note eq = load_config_parsed [OF assms(1), of parse f h srt, OF assms(2)]
  show "(\<exists>cs. load_config h parse srt first created again = Inr cs)
      \<longleftrightarrow> (\<forall>sn \<in> set (named_sections f). section_valid h sn)"
    unfolding eq daemon_configs_iff [symmetric] by (auto split: sum.split)
  fix cs assume "load_config h parse srt first created again = Inr cs"
  then obtain cs0 where cs0: "daemon_configs_of h (named_sections f) = Inr cs0" "cs = srt cs0"
    using go_sort_Nil [OF assms(3)] by (auto simp: eq split: sum.splits if_splits)
  have "mset (map dc_name cs) = mset (map dc_name cs0)"
    using go_sort_mset [OF assms(3)] cs0(2) by (metis mset_map)
  then show "mset (map dc_name cs) = mset (map is_name (named_sections f))"
    using daemon_configs_Inr [OF cs0(1)] by simp
  show "sorted (map dc_order cs)" using go_sort_sorted [OF assms(3)] cs0(2) by simp
  show "\<forall>c \<in> set cs. daemon_config_ok c"
    using daemon_configs_Inr [OF cs0(1)] go_sort_set [OF assms(3)] cs0(2) by simp
qed

definition demo_host :: host where
  "demo_host =
     \<lparr>h_getenv = demo_getenv, h_uid = ''1000'', h_home = ''/home/u'', h_fp = (\<lambda>_ _ _. 0)\<rparr>"

definition demo_ini :: ini_file where
  "demo_ini = ini_file_of [ini_section_of ''a-lancxo'' [(''exec'', ''a-lancxo''), (''order'', ''x'')]]"

theorem load_config_outcome_witness:
  "\<not> (\<exists>cs. load_config demo_host (\<lambda>_. Some demo_ini) (sort_key dc_order) (FileData []) True FileError = Inr cs)"
proof -
  have "\<not> section_valid demo_host (ini_section_of ''a-lancxo'' [(''exec'', ''a-lancxo''), (''order'', ''x'')])"
    by (simp add: section_valid_def ini_string_def ini_section_of_def ini_key_of_def go_parse_int_def
        digit_val_def has_prefix_def)
  then have "\<not> (\<forall>sn \<in> set (named_sections demo_ini). section_valid demo_host sn)"
    by (simp add: named_sections_def demo_ini_def ini_file_of_def ini_section_of_def)
  with load_config_outcome [of "FileData []" True FileError "[]" "\<lambda>_. Some demo_ini" demo_ini
      "sort_key dc_order" demo_host]
  show ?thesis by (simp add: read_or_create_def)
qed

end
