(* ===== verification/Program_Config.thy ===== *)
theory Program_Config
  imports Go_Runes Kerno_Config Ini_Sections Program_Deps
begin

text \<open>
  Reading the autostart directories: \<open>internal/program/config.go\<close>. A directory is the list of its
  entries, a file what reading it gives; the INI library is a parameter as in \<open>Ini_Sections\<close>. A file
  that cannot be read to its end is a \<open>FileError\<close>.
\<close>

section \<open>Values\<close>

definition default_phase :: string where "default_phase = phase_post"

text \<open>The environment and the user of the process.\<close>

record puser =
  u_getenv :: getenv
  u_uid :: string
  u_home :: string

definition expand_program_var :: "puser \<Rightarrow> string \<Rightarrow> string" where
  "expand_program_var u s = expand_placeholders (u_getenv u) (u_uid u) (u_home u) s"

definition parse_comma_list :: "string \<Rightarrow> string list" where
  "parse_comma_list s = filter (\<lambda>p. p \<noteq> []) (map trim_space (split_on (CHR '','') s))"

definition contains_ade :: "string \<Rightarrow> bool" where
  "contains_ade value \<longleftrightarrow> (\<exists>part \<in> set (split_on (CHR '';'') value). equal_fold (trim_space part) ''ADE'')"

definition is_alpha :: "char \<Rightarrow> bool" where
  "is_alpha c \<longleftrightarrow> byte_in 0x61 0x7A c \<or> byte_in 0x41 0x5A c"

text \<open>\<open>stripDesktopExecPlaceholders\<close>: the loop over the runes with \<open>skipNext\<close> and the byte before.\<close>

function strip_loop :: "bool \<Rightarrow> char option \<Rightarrow> string \<Rightarrow> string" where
  "strip_loop skipNext prev [] = []"
| "strip_loop skipNext prev (c # cs) =
     (let n = rune_width c cs - 1;
          prev' = Some (last (c # take n cs));
          rest = drop n cs
      in if skipNext then
           (if prev = Some CHR ''%'' \<and> c \<noteq> CHR ''%'' \<and> \<not> is_alpha c then CHR ''%'' # rune_out c cs else [])
           @ strip_loop False prev' rest
         else if c = CHR ''%'' \<and> cs \<noteq> [] \<and> hd cs = CHR ''%'' then CHR ''%'' # strip_loop True prev' rest
         else if c = CHR ''%'' \<and> cs \<noteq> [] \<and> is_alpha (hd cs) then strip_loop True prev' rest
         else rune_out c cs @ strip_loop False prev' rest)"
  by pat_completeness auto
termination
  by (relation "measure (\<lambda>(skip, prev, s). length s)") auto

definition strip_exec_placeholders :: "string \<Rightarrow> string" where
  "strip_exec_placeholders exec = strip_loop False None exec"

section \<open>An INI file\<close>

definition blank_program :: "string \<Rightarrow> string \<Rightarrow> program_config" where
  "blank_program name source =
     \<lparr>pc_name = name, pc_exec = [], pc_phase = default_phase, pc_priority = 0, pc_enabled = True,
      pc_depends_on = [], pc_start_delay = 0, pc_health_check = [],
      pc_health_timeout = default_health_timeout, pc_health_retry = default_health_retry, pc_env = [],
      pc_restart = False, pc_source = source\<rparr>"

text \<open>An integer that does not parse leaves the old value.\<close>

definition int_or :: "string \<Rightarrow> int \<Rightarrow> int" where
  "int_or value old = (case go_parse_int value of None \<Rightarrow> old | Some n \<Rightarrow> n)"

definition apply_program_property :: "string \<Rightarrow> string \<Rightarrow> program_config \<Rightarrow> program_config" where
  "apply_program_property key value cfg =
     (if key = ''exec'' then cfg\<lparr>pc_exec := value\<rparr>
      else if key = ''phase'' then
        (let phase = to_lower value
         in cfg\<lparr>pc_phase := if phase \<noteq> phase_early \<and> phase \<noteq> phase_post then default_phase else phase\<rparr>)
      else if key = ''priority'' then cfg\<lparr>pc_priority := int_or value (pc_priority cfg)\<rparr>
      else if key = ''enabled'' then cfg\<lparr>pc_enabled := to_lower value \<notin> {''false'', ''no'', ''0''}\<rparr>
      else if key = ''depends_on'' then cfg\<lparr>pc_depends_on := parse_comma_list value\<rparr>
      else if key = ''start_delay'' then cfg\<lparr>pc_start_delay := int_or value (pc_start_delay cfg)\<rparr>
      else if key = ''health_check'' then cfg\<lparr>pc_health_check := value\<rparr>
      else if key = ''health_timeout'' then cfg\<lparr>pc_health_timeout := int_or value (pc_health_timeout cfg)\<rparr>
      else if key = ''health_retry'' then cfg\<lparr>pc_health_retry := int_or value (pc_health_retry cfg)\<rparr>
      else if key = ''env'' then
        (case cut (CHR ''='') value of
           None \<Rightarrow> cfg
         | Some (k, v) \<Rightarrow> cfg\<lparr>pc_env := AList.update k v (pc_env cfg)\<rparr>)
      else if key = ''restart'' then cfg\<lparr>pc_restart := to_lower value \<in> {''true'', ''yes'', ''1''}\<rparr>
      else cfg)"

definition apply_ini_key :: "puser \<Rightarrow> ini_key \<Rightarrow> program_config \<Rightarrow> program_config" where
  "apply_ini_key u key cfg =
     (if ik_name key = ''env''
      then fold (\<lambda>value c. apply_program_property ''env'' (expand_program_var u value) c) (ik_shadows key) cfg
      else apply_program_property (ik_name key) (expand_program_var u (ik_string key)) cfg)"

datatype program_error =
    FileUnread file_result
  | IniUnparsable
  | NoExec string
  | LineTooLong
  | UnknownSource string

definition parse_ini_program ::
  "puser \<Rightarrow> (string \<Rightarrow> ini_file option) \<Rightarrow> file_result \<Rightarrow> string \<Rightarrow> program_error + program_config" where
  "parse_ini_program u load file name =
     (case file of
        FileData s \<Rightarrow>
          (case load s of
             None \<Rightarrow> Inl IniUnparsable
           | Some f \<Rightarrow>
               let cfg = fold (apply_ini_key u) (is_keys (program_section f)) (blank_program name ''ini'')
               in if pc_exec cfg = [] then Inl (NoExec name) else Inr cfg)
      | e \<Rightarrow> Inl (FileUnread e))"

section \<open>A desktop file\<close>

text \<open>What one \<open>key=value\<close> line of \<open>[Desktop Entry]\<close> does to \<open>hidden\<close> and the configuration.\<close>

definition desktop_key ::
  "puser \<Rightarrow> string \<Rightarrow> string \<Rightarrow> bool \<times> program_config \<Rightarrow> bool \<times> program_config" where
  "desktop_key u key value hc =
     (case hc of (hidden, cfg) \<Rightarrow>
        if key = ''exec'' then
          (hidden, cfg\<lparr>pc_exec := expand_program_var u (strip_exec_placeholders value)\<rparr>)
        else if key = ''hidden'' then (hidden \<or> equal_fold value ''true'' \<or> value = ''1'', cfg)
        else if key = ''onlyshowin'' then
          (hidden, if value \<noteq> [] \<and> \<not> contains_ade value then cfg\<lparr>pc_enabled := False\<rparr> else cfg)
        else if key = ''notshowin'' then
          (hidden, if contains_ade value then cfg\<lparr>pc_enabled := False\<rparr> else cfg)
        else if key = ''x-ade-phase'' then
          (let phase = to_lower value
           in (hidden, if phase = phase_early \<or> phase = phase_post then cfg\<lparr>pc_phase := phase\<rparr> else cfg))
        else if key = ''x-ade-priority'' then
          (hidden, cfg\<lparr>pc_priority := int_or value (pc_priority cfg)\<rparr>)
        else if key = ''x-ade-depends-on'' then (hidden, cfg\<lparr>pc_depends_on := parse_comma_list value\<rparr>)
        else if key = ''x-ade-health-check'' then (hidden, cfg\<lparr>pc_health_check := value\<rparr>)
        else if key = ''x-ade-start-delay'' then
          (hidden, cfg\<lparr>pc_start_delay := int_or value (pc_start_delay cfg)\<rparr>)
        else hc)"

text \<open>One line of the scanner: whether the section is \<open>[Desktop Entry]\<close>, and the rest of the state.\<close>

definition desktop_line ::
  "puser \<Rightarrow> string \<Rightarrow> bool \<times> bool \<times> program_config \<Rightarrow> bool \<times> bool \<times> program_config" where
  "desktop_line u raw st =
     (case st of (inEntry, hc) \<Rightarrow>
        let l = trim_space raw
        in if l = [] \<or> has_prefix l ''#'' then st
           else if has_prefix l ''['' \<and> has_suffix l '']'' then (equal_fold l ''[Desktop Entry]'', hc)
           else if \<not> inEntry then st
           else case cut (CHR ''='') l of
                  None \<Rightarrow> st
                | Some (k, v) \<Rightarrow> (inEntry, desktop_key u (to_lower (trim_space k)) (trim_space v) hc))"

definition max_scan_token :: nat where "max_scan_token = 64 * 1024"

definition parse_desktop_program :: "puser \<Rightarrow> file_result \<Rightarrow> string \<Rightarrow> program_error + program_config" where
  "parse_desktop_program u file name =
     (case file of
        FileData s \<Rightarrow>
          (case scan_lines max_scan_token s of (ls, ok) \<Rightarrow>
             (case fold (desktop_line u) ls (False, False, blank_program name ''desktop'') of
                (_, hidden, cfg0) \<Rightarrow>
                  let cfg = (if hidden then cfg0\<lparr>pc_enabled := False\<rparr> else cfg0)
                  in if \<not> ok then Inl LineTooLong
                     else if pc_exec cfg = [] then Inl (NoExec name)
                     else Inr cfg))
      | e \<Rightarrow> Inl (FileUnread e))"

section \<open>The directories\<close>

record dir_entry =
  de_name :: string
  de_is_dir :: bool

datatype dir_result = DirEntries "dir_entry list" | DirMissing | DirError

datatype scan_error =
    DirUnread dir_result
  | BadProgram string program_error

text \<open>The file system and the INI library.\<close>

record files =
  fs_dir :: "string \<Rightarrow> dir_result"
  fs_file :: "string \<Rightarrow> file_result"
  fs_ini :: "string \<Rightarrow> ini_file option"

definition parse_program ::
  "puser \<Rightarrow> files \<Rightarrow> string \<Rightarrow> string \<Rightarrow> string \<Rightarrow> program_error + program_config" where
  "parse_program u fs source fullPath baseName =
     (if source = ''ini'' then parse_ini_program u (fs_ini fs) (fs_file fs fullPath) baseName
      else if source = ''desktop'' then parse_desktop_program u (fs_file fs fullPath) baseName
      else Inl (UnknownSource source))"

text \<open>The loop of \<open>scanDir\<close>; \<open>seen\<close> is the set of names, which the caller keeps.\<close>

fun scan_entries ::
  "(dir_entry \<Rightarrow> string \<Rightarrow> program_error + program_config) \<Rightarrow> string \<Rightarrow> dir_entry list \<Rightarrow> string list
    \<Rightarrow> (scan_error + program_config list) \<times> string list"
where
  "scan_entries parse ext [] seen = (Inr [], seen)"
| "scan_entries parse ext (e # es) seen =
     (if de_is_dir e \<or> file_ext (de_name e) \<noteq> ext then scan_entries parse ext es seen
      else let baseName = trim_suffix (de_name e) ext
           in if baseName \<in> set seen then scan_entries parse ext es seen
              else let seen' = baseName # seen
                   in case parse e baseName of
                        Inl err \<Rightarrow> (Inl (BadProgram (de_name e) err), seen')
                      | Inr cfg \<Rightarrow>
                          (case scan_entries parse ext es seen' of
                             (Inl err, s) \<Rightarrow> (Inl err, s)
                           | (Inr cfgs, s) \<Rightarrow> (Inr (cfg # cfgs), s)))"

definition scan_dir ::
  "puser \<Rightarrow> files \<Rightarrow> string \<Rightarrow> string \<Rightarrow> string \<Rightarrow> string list \<Rightarrow> (scan_error + program_config list) \<times> string list"
where
  "scan_dir u fs dir ext source seen =
     (case fs_dir fs dir of
        DirEntries es \<Rightarrow>
          scan_entries (\<lambda>e base. parse_program u fs source (path_join dir (de_name e)) base) ext es seen
      | r \<Rightarrow> (Inl (DirUnread r), seen))"

definition program_key :: "program_config \<Rightarrow> start_key" where
  "program_key c = StartKey (pc_phase c \<noteq> phase_early) (pc_priority c) (pc_name c)"

text \<open>\<open>LoadProgramConfigs\<close>. \<open>os.IsNotExist\<close> does not look into wrapped errors, so only the error of
  reading the XDG directory itself is forgiven.\<close>

definition load_program_configs ::
  "puser \<Rightarrow> files \<Rightarrow> (program_config list \<Rightarrow> program_config list) \<Rightarrow> string \<Rightarrow> string
    \<Rightarrow> scan_error + program_config list" where
  "load_program_configs u fs srt autostartDir xdgDir =
     (case scan_dir u fs autostartDir ''.ini'' ''ini'' [] of
        (Inl e, _) \<Rightarrow> Inl e
      | (Inr inis, seen) \<Rightarrow>
          if xdgDir = [] then Inr (srt inis)
          else (case fst (scan_dir u fs xdgDir ''.desktop'' ''desktop'' seen) of
                  Inr desktops \<Rightarrow> Inr (srt (inis @ desktops))
                | Inl e \<Rightarrow> if e = DirUnread DirMissing then Inr (srt inis) else Inl e))"

end
