(* ===== verification/Program_Scan.thy ===== *)
theory Program_Scan
  imports Program_Config
begin

text \<open>
  What reading the autostart directories gives: the placeholders of desktop files against a reference
  on bytes, the lists of dependencies, the shape of every configuration read, and which files make up
  the result in which order.
\<close>

section \<open>Field codes of desktop files\<close>

text \<open>The reference: \<open>%%\<close> is a percent sign, a percent sign with a letter is dropped.\<close>

fun field_codes_removed :: "string \<Rightarrow> string" where
  "field_codes_removed [] = []"
| "field_codes_removed (c # cs) =
     (if c = CHR ''%''
      then (case cs of
              [] \<Rightarrow> [c]
            | d # ds \<Rightarrow>
                if d = CHR ''%'' then CHR ''%'' # field_codes_removed ds
                else if is_alpha d then field_codes_removed ds
                else c # field_codes_removed cs)
      else c # field_codes_removed cs)"

definition escape_percent :: "string \<Rightarrow> string" where
  "escape_percent s = concat (map (\<lambda>c. if c = CHR ''%'' then ''%%'' else [c]) s)"

lemma percent_ascii [simp]: "is_ascii CHR ''%''"
  by (simp add: is_ascii_def)

lemma alpha_ascii: "is_alpha c \<Longrightarrow> is_ascii c \<and> c \<noteq> CHR ''%''"
  by (auto simp: is_alpha_def is_ascii_def byte_in_def)

lemma field_codes_append:
  "\<forall>x \<in> set xs. \<not> is_ascii x \<Longrightarrow> field_codes_removed (xs @ ys) = xs @ field_codes_removed ys"
  by (induction xs) auto

lemma not_percent: "x \<in> set (take (rune_width c cs - 1) cs) \<Longrightarrow> x \<noteq> CHR ''%''"
  using rune_rest_not_ascii [of x c cs] percent_ascii by auto

lemma strip_loop_reference:
  "valid_utf8 s \<Longrightarrow> strip_loop False prev s = field_codes_removed s"
proof (induction s arbitrary: prev rule: length_induct)
  case (1 s)
  show ?case
  proof (cases s)
    case Nil
    then show ?thesis by simp
  next
    case (Cons c cs)
    let ?n = "rune_width c cs - 1"
    have valid: "is_ascii c \<or> rune_width c cs > 1" "valid_utf8 (drop ?n cs)"
      using 1(2) by (simp_all add: Cons)
    note IH = 1(1) [rule_format, unfolded Cons]
    consider d ds where "c = CHR ''%''" "cs = d # ds" "d = CHR ''%'' \<or> is_alpha d"
      | "c = CHR ''%''" "cs = [] \<or> hd cs \<noteq> CHR ''%'' \<and> \<not> is_alpha (hd cs)"
      | "c \<noteq> CHR ''%''" by (cases cs) auto
    then show ?thesis
    proof cases
      case 1
      then have d: "is_ascii d" using alpha_ascii by auto
      have "valid_utf8 ds" using valid(2) 1(1,2) d by simp
      then have "strip_loop False (Some d) ds = field_codes_removed ds" using IH 1 by simp
      with 1 d alpha_ascii [of d] show ?thesis by (auto simp: Cons Let_def)
    next
      case 2
      then have "strip_loop False (Some c) cs = field_codes_removed cs" using IH valid(2) by simp
      with 2 show ?thesis by (cases cs) (auto simp: Cons Let_def rune_out_def)
    next
      case 3
      have tail: "strip_loop False p (drop ?n cs) = field_codes_removed (drop ?n cs)" for p
        using IH valid(2) by simp
      have "field_codes_removed cs = take ?n cs @ field_codes_removed (drop ?n cs)"
        using field_codes_append [of "take ?n cs" "drop ?n cs"] rune_rest_not_ascii [of _ c cs]
        unfolding append_take_drop_id by blast
      moreover have "strip_loop False prev (c # cs) = rune_out c cs @ field_codes_removed (drop ?n cs)"
        using 3 tail by (simp only: strip_loop.simps Let_def if_False simp_thms)
      moreover have "rune_out c cs = c # take ?n cs" using valid(1) by (simp add: rune_out_def)
      ultimately show ?thesis using 3 by (simp add: Cons)
    qed
  qed
qed

lemma escape_Cons: "escape_percent (c # cs) = (if c = CHR ''%'' then ''%%'' else [c]) @ escape_percent cs"
  by (simp add: escape_percent_def)

lemma escape_append: "escape_percent (xs @ ys) = escape_percent xs @ escape_percent ys"
  by (simp add: escape_percent_def)

lemma escape_plain: "\<forall>x \<in> set xs. x \<noteq> CHR ''%'' \<Longrightarrow> escape_percent xs = xs"
  by (induction xs) (auto simp: escape_percent_def)

lemma field_codes_escape: "field_codes_removed (escape_percent s) = s"
  by (induction s) (auto simp: escape_percent_def)

lemma rune_width_take:
  assumes "rune_width c cs > 1"
  shows "rune_width c (take (rune_width c cs - 1) cs @ ys) = rune_width c cs"
  using assms by (auto simp: rune_width_def Let_def split: if_splits)

lemma valid_escape: "valid_utf8 s \<Longrightarrow> valid_utf8 (escape_percent s)"
proof (induction s rule: valid_utf8.induct)
  case (2 c cs)
  let ?n = "rune_width c cs - 1"
  have IH: "valid_utf8 (escape_percent (drop ?n cs))" using 2 by simp
  show ?case
  proof (cases "is_ascii c")
    case True
    then show ?thesis using IH by (simp add: escape_Cons)
  next
    case False
    then have w: "rune_width c cs > 1" and c: "c \<noteq> CHR ''%''" using 2(2) by auto
    have "escape_percent cs = take ?n cs @ escape_percent (drop ?n cs)"
      using escape_append [of "take ?n cs" "drop ?n cs"] escape_plain [of "take ?n cs"]
        not_percent [of _ c cs]
      unfolding append_take_drop_id by auto
    moreover have "length (take ?n cs) = ?n"
      using w by (auto simp: rune_width_def Let_def split: if_splits)
    ultimately show ?thesis
      using IH w c rune_width_take [OF w] by (simp add: escape_Cons)
  qed
qed (simp add: escape_percent_def)

text \<open>In a text that is UTF-8, the loop over runes with its flag removes the field codes as the
  reference on bytes does, and it undoes the doubling of percent signs.\<close>

theorem strip_placeholders_correct:
  assumes "valid_utf8 s"
  shows "strip_exec_placeholders s = field_codes_removed s
    \<and> strip_exec_placeholders (escape_percent s) = s"
  using strip_loop_reference [OF assms] strip_loop_reference [OF valid_escape [OF assms]]
  by (simp add: strip_exec_placeholders_def field_codes_escape)

theorem strip_placeholders_correct_witness:
  "strip_exec_placeholders ''app %U 5%%'' = ''app  5%''
   \<and> strip_exec_placeholders (escape_percent ''app %U 5%%'') = ''app %U 5%%''"
proof -
  have v: "valid_utf8 ''app %U 5%%''" by (simp add: is_ascii_def rune_width_def rune_tail_def byte_in_def)
  have "field_codes_removed ''app %U 5%%'' = ''app  5%''" by (simp add: is_alpha_def byte_in_def)
  with strip_placeholders_correct [OF v] show ?thesis by simp
qed

section \<open>Lists\<close>

lemma trim_space_blank:
  assumes "trimmed x"
  shows "trim_space (CHR '' '' # x) = x"
proof -
  have "List.find (\<lambda>r. r \<noteq> [] \<and> has_prefix (CHR '' '' # x) r) space_runes = Some [CHR 0x20]"
    by (simp add: space_runes_def has_prefix_def)
  then have "trim_left (CHR '' '' # x) = trim_left x"
    unfolding trim_left_def by (subst trim_with.simps) simp
  then show ?thesis
    using assms by (simp add: trim_space_def trim_left_trimmed trim_right_trimmed)
qed

text \<open>A list of names joined by commas, with or without a space, is read back.\<close>

theorem comma_list_roundtrip:
  assumes "\<forall>x \<in> set xs. trimmed x \<and> x \<noteq> [] \<and> CHR '','' \<notin> set x"
  shows "parse_comma_list (join xs '','') = xs
    \<and> parse_comma_list (join (map (\<lambda>x. CHR '' '' # x) xs) '','') = xs"
proof (cases "xs = []")
  case True
  have "trimmed []" by (simp add: trimmed_def space_runes_def has_prefix_def)
  then show ?thesis using True by (simp add: parse_comma_list_def trim_space_trimmed)
next
  case False
  have "split_on (CHR '','') (join xs '','') = xs"
    using split_on_join [OF False] assms by blast
  moreover have "split_on (CHR '','') (join (map (\<lambda>x. CHR '' '' # x) xs) '','') = map (\<lambda>x. CHR '' '' # x) xs"
    using False assms by (intro split_on_join) auto
  ultimately show ?thesis
    using assms by (auto simp: parse_comma_list_def trim_space_trimmed trim_space_blank comp_def
        filter_id_conv intro!: map_idI)
qed

theorem comma_list_roundtrip_witness:
  "parse_comma_list (join [''bus'', ''theme''] '','') = [''bus'', ''theme'']"
  using comma_list_roundtrip [of "[''bus'', ''theme'']"]
  by (simp add: trimmed_def space_runes_def has_prefix_def)

end
