(* ===== verification/Program_Loading.thy ===== *)
theory Program_Loading
  imports Program_Scan
begin

text \<open>
  The configurations \<open>LoadProgramConfigs\<close> returns: every one is well formed, they are those of the
  chosen files of both directories, in an order no sorting algorithm can change, and one bad file
  among the chosen rejects them all.
\<close>

section \<open>Well-formed configurations\<close>

definition program_config_ok :: "program_config \<Rightarrow> bool" where
  "program_config_ok c \<longleftrightarrow>
     pc_phase c \<in> {phase_early, phase_post} \<and> go_map_ok (pc_env c)
   \<and> (\<forall>d \<in> set (pc_depends_on c). d \<noteq> [] \<and> CHR '','' \<notin> set d)
   \<and> int64_range (pc_priority c) \<and> int64_range (pc_start_delay c)
   \<and> int64_range (pc_health_timeout c) \<and> int64_range (pc_health_retry c)"

lemma blank_program_ok: "program_config_ok (blank_program name source)"
  by (simp add: program_config_ok_def blank_program_def default_phase_def default_health_timeout_def
      default_health_retry_def int64_range_def)

lemma int_or_range: "int64_range old \<Longrightarrow> int64_range (int_or value old)"
  by (auto simp: int_or_def dest: go_parse_int_range split: option.split)

lemma comma_list_parts: "d \<in> set (parse_comma_list s) \<Longrightarrow> d \<noteq> [] \<and> CHR '','' \<notin> set d"
  using set_split_on set_trim_space by (fastforce simp: parse_comma_list_def)

lemma config_updates_ok:
  assumes "program_config_ok c"
  shows "program_config_ok (c\<lparr>pc_exec := v\<rparr>)" "program_config_ok (c\<lparr>pc_enabled := b\<rparr>)"
    "program_config_ok (c\<lparr>pc_health_check := v\<rparr>)" "program_config_ok (c\<lparr>pc_restart := b\<rparr>)"
    "p \<in> {phase_early, phase_post} \<Longrightarrow> program_config_ok (c\<lparr>pc_phase := p\<rparr>)"
    "program_config_ok (c\<lparr>pc_priority := int_or v (pc_priority c)\<rparr>)"
    "program_config_ok (c\<lparr>pc_start_delay := int_or v (pc_start_delay c)\<rparr>)"
    "program_config_ok (c\<lparr>pc_health_timeout := int_or v (pc_health_timeout c)\<rparr>)"
    "program_config_ok (c\<lparr>pc_health_retry := int_or v (pc_health_retry c)\<rparr>)"
    "program_config_ok (c\<lparr>pc_depends_on := parse_comma_list v\<rparr>)"
    "program_config_ok (c\<lparr>pc_env := AList.update k v (pc_env c)\<rparr>)"
  using assms comma_list_parts by (simp_all add: program_config_ok_def int_or_range)

lemma apply_property_ok:
  "program_config_ok c \<Longrightarrow> program_config_ok (apply_program_property key value c)"
  unfolding apply_program_property_def Let_def
  by (simp add: config_updates_ok default_phase_def split: option.split)

lemma apply_property_name [simp]:
  "pc_name (apply_program_property key value c) = pc_name c"
  "pc_source (apply_program_property key value c) = pc_source c"
  unfolding apply_program_property_def Let_def by (simp_all split: option.split)

lemma apply_ini_key_ok:
  assumes "program_config_ok c"
  shows "program_config_ok (apply_ini_key u key c) \<and> pc_name (apply_ini_key u key c) = pc_name c
    \<and> pc_source (apply_ini_key u key c) = pc_source c"
proof -
  have "program_config_ok (fold f vs c) \<and> pc_name (fold f vs c) = pc_name c \<and> pc_source (fold f vs c) = pc_source c"
    if "f = (\<lambda>value. apply_program_property ''env'' (expand_program_var u value))" for f vs
    using assms by (induction vs arbitrary: c) (simp_all add: that apply_property_ok)
  then show ?thesis using assms by (simp add: apply_ini_key_def apply_property_ok)
qed

lemma apply_ini_keys_ok:
  "program_config_ok c \<Longrightarrow> program_config_ok (fold (apply_ini_key u) keys c)
     \<and> pc_name (fold (apply_ini_key u) keys c) = pc_name c
     \<and> pc_source (fold (apply_ini_key u) keys c) = pc_source c"
  by (induction keys arbitrary: c) (simp_all add: apply_ini_key_ok)

lemma desktop_key_ok:
  assumes "program_config_ok (snd hc)"
  shows "program_config_ok (snd (desktop_key u key value hc))
    \<and> pc_name (snd (desktop_key u key value hc)) = pc_name (snd hc)
    \<and> pc_source (snd (desktop_key u key value hc)) = pc_source (snd hc)"
  using assms unfolding desktop_key_def Let_def
  by (cases hc) (simp add: config_updates_ok)

lemma desktop_line_ok:
  assumes "program_config_ok (snd (snd st))"
  shows "program_config_ok (snd (snd (desktop_line u raw st)))
    \<and> pc_name (snd (snd (desktop_line u raw st))) = pc_name (snd (snd st))
    \<and> pc_source (snd (snd (desktop_line u raw st))) = pc_source (snd (snd st))"
  using assms by (cases st) (auto simp: desktop_line_def Let_def desktop_key_ok split: option.split)

lemma desktop_lines_ok:
  "program_config_ok (snd (snd st)) \<Longrightarrow> program_config_ok (snd (snd (fold (desktop_line u) ls st)))
     \<and> pc_name (snd (snd (fold (desktop_line u) ls st))) = pc_name (snd (snd st))
     \<and> pc_source (snd (snd (fold (desktop_line u) ls st))) = pc_source (snd (snd st))"
  by (induction ls arbitrary: st) (simp_all add: desktop_line_ok)

lemma parse_ini_ok:
  assumes "parse_ini_program u load file name = Inr c"
  shows "program_config_ok c \<and> pc_exec c \<noteq> [] \<and> pc_name c = name \<and> pc_source c = ''ini''"
proof -
  obtain f where c: "c = fold (apply_ini_key u) (is_keys (program_section f)) (blank_program name ''ini'')"
    and "pc_exec c \<noteq> []"
    using assms by (auto simp: parse_ini_program_def Let_def split: file_result.splits option.splits if_splits)
  then show ?thesis
    using apply_ini_keys_ok [OF blank_program_ok, of u "is_keys (program_section f)" name "''ini''"]
    by (simp add: blank_program_def)
qed

lemma parse_desktop_ok:
  assumes "parse_desktop_program u file name = Inr c"
  shows "program_config_ok c \<and> pc_exec c \<noteq> [] \<and> pc_name c = name \<and> pc_source c = ''desktop''"
proof -
  obtain ls inEntry hidden cfg where "pc_exec c \<noteq> []"
    and st: "fold (desktop_line u) ls (False, False, blank_program name ''desktop'') = (inEntry, hidden, cfg)"
    and c: "c = (if hidden then cfg\<lparr>pc_enabled := False\<rparr> else cfg)"
    using assms
    by (auto simp: parse_desktop_program_def Let_def split: file_result.splits prod.splits if_splits)
  then show ?thesis
    using desktop_lines_ok [of "(False, False, blank_program name ''desktop'')" u ls]
      blank_program_ok [of name "''desktop''"]
    by (simp add: blank_program_def program_config_ok_def split: if_splits)
qed

section \<open>The chosen files\<close>

definition program_files :: "string \<Rightarrow> dir_entry list \<Rightarrow> dir_entry list" where
  "program_files ext es = filter (\<lambda>e. \<not> de_is_dir e \<and> file_ext (de_name e) = ext) es"

definition base_name :: "string \<Rightarrow> dir_entry \<Rightarrow> string" where
  "base_name ext e = trim_suffix (de_name e) ext"

lemma file_ext_suffix: "\<exists>b. s = b @ file_ext s"
proof -
  let ?P = "\<lambda>c. c \<noteq> CHR ''.'' \<and> c \<noteq> CHR ''/''"
  let ?t = "takeWhile ?P (rev s)"
  have "drop (length ?t) (rev s) = dropWhile ?P (rev s)" by (simp add: dropWhile_eq_drop)
  then have s: "rev s = ?t @ drop (length ?t) (rev s)" by simp
  show ?thesis
  proof (cases "drop (length ?t) (rev s)")
    case (Cons c cs)
    then have "s = rev cs @ [c] @ rev ?t" using arg_cong [OF s, of rev] by simp
    then show ?thesis using Cons by (auto simp: file_ext_def Let_def)
  qed (simp add: file_ext_def)
qed

lemma base_name_inj:
  assumes "file_ext (de_name e) = ext" and "file_ext (de_name e') = ext" and "base_name ext e = base_name ext e'"
  shows "de_name e = de_name e'"
proof -
  obtain b b' where "de_name e = b @ ext" "de_name e' = b' @ ext"
    using file_ext_suffix [of "de_name e"] file_ext_suffix [of "de_name e'"] assms(1,2) by auto
  then show ?thesis using assms(3) by (simp add: base_name_def)
qed

lemma program_files_distinct:
  assumes "distinct (map de_name es)"
  shows "distinct (map (base_name ext) (program_files ext es))"
proof -
  have "distinct (map de_name (program_files ext es))"
    using assms by (simp add: program_files_def distinct_map_filter)
  then show ?thesis
    unfolding distinct_map
    by (auto simp: inj_on_def program_files_def dest: base_name_inj)
qed

text \<open>What the loop of \<open>scanDir\<close> reads: the chosen files whose name was not seen before.\<close>

lemma scan_entries_reads:
  fixes ext :: string
  assumes "distinct (map de_name es)"
  defines "sel \<equiv> \<lambda>seen. filter (\<lambda>e. base_name ext e \<notin> set seen) (program_files ext es)"
  shows "((\<exists>cs. fst (scan_entries parse ext es seen) = Inr cs)
      \<longleftrightarrow> (\<forall>e \<in> set (sel seen). \<exists>c. parse e (base_name ext e) = Inr c))
    \<and> (\<forall>cs. fst (scan_entries parse ext es seen) = Inr cs \<longrightarrow>
        map Inr cs = map (\<lambda>e. parse e (base_name ext e)) (sel seen)
      \<and> set (snd (scan_entries parse ext es seen)) = set seen \<union> base_name ext ` set (sel seen))"
  using assms(1) unfolding sel_def
proof (induction es arbitrary: seen)
  case Nil
  then show ?case by (simp add: program_files_def)
next
  case (Cons e es)
  let ?b = "base_name ext e"
  let ?sel = "\<lambda>seen. filter (\<lambda>x. base_name ext x \<notin> set seen) (program_files ext es)"
  have IH: "((\<exists>cs. fst (scan_entries parse ext es s) = Inr cs)
      \<longleftrightarrow> (\<forall>x \<in> set (?sel s). \<exists>c. parse x (base_name ext x) = Inr c))
    \<and> (\<forall>cs. fst (scan_entries parse ext es s) = Inr cs \<longrightarrow>
        map Inr cs = map (\<lambda>x. parse x (base_name ext x)) (?sel s)
      \<and> set (snd (scan_entries parse ext es s)) = set s \<union> base_name ext ` set (?sel s))" for s
    using Cons by simp
  show ?case
  proof (cases "de_is_dir e \<or> file_ext (de_name e) \<noteq> ext")
    case True
    then have files: "program_files ext (e # es) = program_files ext es"
      and step: "scan_entries parse ext (e # es) seen = scan_entries parse ext es seen"
      by (auto simp: program_files_def)
    show ?thesis unfolding files step by (rule IH)
  next
    case False
    then have files: "program_files ext (e # es) = e # program_files ext es"
      by (simp add: program_files_def)
    show ?thesis
    proof (cases "?b \<in> set seen")
      case True
      then show ?thesis using False IH [of seen] by (simp add: files base_name_def Let_def)
    next
      case new: False
      have "?b \<notin> base_name ext ` set (program_files ext es)"
        using program_files_distinct [OF Cons.prems, of ext] by (simp add: files)
      then have "base_name ext x \<noteq> ?b" if "x \<in> set (program_files ext es)" for x
        using that by (metis image_eqI)
      then have sel: "?sel (?b # seen) = ?sel seen" by (intro filter_cong) auto
      have step: "scan_entries parse ext (e # es) seen =
          (case parse e ?b of
             Inl err \<Rightarrow> (Inl (BadProgram (de_name e) err), ?b # seen)
           | Inr cfg \<Rightarrow>
               (case scan_entries parse ext es (?b # seen) of
                  (Inl err, s) \<Rightarrow> (Inl err, s) | (Inr cfgs, s) \<Rightarrow> (Inr (cfg # cfgs), s)))"
        using False new unfolding base_name_def by (simp add: Let_def)
      obtain r s where rest: "scan_entries parse ext es (?b # seen) = (r, s)" by fastforce
      note IH' = IH [of "?b # seen", unfolded rest sel]
      show ?thesis
      proof (cases "parse e ?b")
        case (Inl err)
        then show ?thesis using new by (simp add: step files del: scan_entries.simps)
      next
        case (Inr c)
        then show ?thesis
          using IH' new by (cases r) (simp_all add: step files rest insert_commute del: scan_entries.simps)
      qed
    qed
  qed
qed

lemma scan_entries_read: "fst (scan_entries parse ext es seen) \<noteq> Inl (DirUnread r)"
proof (induction es arbitrary: seen)
  case (Cons e es)
  then show ?case by (auto simp: Let_def split: sum.split prod.split) (metis fst_conv)
qed simp

section \<open>The result\<close>

lemma sorted_unique_names:
  assumes "mset cs = mset ds" and "sorted (map program_key cs)" and "distinct (map pc_name ds)"
  shows "cs = sort_key program_key ds"
proof (rule map_inj_on [where f = program_key])
  have inj: "inj_on program_key (set ds)"
    using assms(3) by (auto simp: inj_on_def distinct_map program_key_def)
  show "inj_on program_key (set cs \<union> set (sort_key program_key ds))"
    using inj mset_eq_setD [OF assms(1)] by simp
  have "mset (map program_key cs) = mset (map program_key (sort_key program_key ds))"
    using assms(1) by (simp add: mset_map)
  then show "map program_key cs = map program_key (sort_key program_key ds)"
    using assms(2) by (metis properties_for_sort sorted_sort_key)
qed

text \<open>The files of both directories and what reading them gives.\<close>

definition ini_results :: "puser \<Rightarrow> files \<Rightarrow> string \<Rightarrow> dir_entry list \<Rightarrow> (program_error + program_config) list" where
  "ini_results u fs dir es =
     map (\<lambda>e. parse_ini_program u (fs_ini fs) (fs_file fs (path_join dir (de_name e))) (base_name ''.ini'' e))
       (program_files ''.ini'' es)"

definition desktop_results ::
  "puser \<Rightarrow> files \<Rightarrow> string \<Rightarrow> dir_entry list \<Rightarrow> dir_entry list \<Rightarrow> (program_error + program_config) list" where
  "desktop_results u fs dir inis es =
     map (\<lambda>e. parse_desktop_program u (fs_file fs (path_join dir (de_name e))) (base_name ''.desktop'' e))
       (filter (\<lambda>e. base_name ''.desktop'' e \<notin> base_name ''.ini'' ` set (program_files ''.ini'' inis))
         (program_files ''.desktop'' es))"

definition accepted :: "'c list \<Rightarrow> ('e + 'c) list \<Rightarrow> bool" where
  "accepted cs rs \<longleftrightarrow> map Inr cs = rs"

lemma parse_program_ini: "parse_program u fs ''ini'' p = parse_ini_program u (fs_ini fs) (fs_file fs p)"
  by (rule ext) (simp add: parse_program_def)

lemma parse_program_desktop: "parse_program u fs ''desktop'' p = parse_desktop_program u (fs_file fs p)"
  by (rule ext) (simp add: parse_program_def)

lemma scan_ini:
  assumes "fs_dir fs dir = DirEntries es" and "distinct (map de_name es)"
  shows "((\<exists>cs. fst (scan_dir u fs dir ''.ini'' ''ini'' []) = Inr cs)
      \<longleftrightarrow> (\<forall>r \<in> set (ini_results u fs dir es). \<exists>c. r = Inr c))
    \<and> (\<forall>cs. fst (scan_dir u fs dir ''.ini'' ''ini'' []) = Inr cs \<longrightarrow>
        map Inr cs = ini_results u fs dir es
      \<and> set (snd (scan_dir u fs dir ''.ini'' ''ini'' [])) = base_name ''.ini'' ` set (program_files ''.ini'' es))"
  using scan_entries_reads [OF assms(2), where ext = "''.ini''" and seen = "[]"
      and parse = "\<lambda>e base. parse_program u fs ''ini'' (path_join dir (de_name e)) base"]
  by (simp add: scan_dir_def assms(1) ini_results_def parse_program_ini)

lemma scan_desktop:
  assumes "fs_dir fs dir = DirEntries es" and "distinct (map de_name es)"
    and "set seen = base_name ''.ini'' ` set (program_files ''.ini'' inis)"
  shows "((\<exists>cs. fst (scan_dir u fs dir ''.desktop'' ''desktop'' seen) = Inr cs)
      \<longleftrightarrow> (\<forall>r \<in> set (desktop_results u fs dir inis es). \<exists>c. r = Inr c))
    \<and> (\<forall>cs. fst (scan_dir u fs dir ''.desktop'' ''desktop'' seen) = Inr cs \<longrightarrow>
        map Inr cs = desktop_results u fs dir inis es)"
  using scan_entries_reads [OF assms(2), where ext = "''.desktop''" and seen = seen
      and parse = "\<lambda>e base. parse_program u fs ''desktop'' (path_join dir (de_name e)) base"]
  by (simp add: scan_dir_def assms(1,3) desktop_results_def parse_program_desktop)

lemma results_named:
  assumes "map Inr cs = ini_results u fs dir es" and "map Inr ds = desktop_results u fs xdg es es2"
  shows "map pc_name (cs @ ds) = map (base_name ''.ini'') (program_files ''.ini'' es)
    @ map (base_name ''.desktop'')
        (filter (\<lambda>e. base_name ''.desktop'' e \<notin> base_name ''.ini'' ` set (program_files ''.ini'' es))
          (program_files ''.desktop'' es2))"
proof -
  have inis: "map pc_name cs = map (base_name ''.ini'') xs"
    if "map Inr cs = map (\<lambda>e. parse_ini_program u l (f e) (base_name ''.ini'' e)) xs" for xs l f
    using that by (induction cs arbitrary: xs) (auto dest: parse_ini_ok [OF sym])
  have desktops: "map pc_name ds = map (base_name ''.desktop'') xs"
    if "map Inr ds = map (\<lambda>e. parse_desktop_program u (f e) (base_name ''.desktop'' e)) xs" for xs f
    using that by (induction ds arbitrary: xs) (auto dest: parse_desktop_ok [OF sym])
  show ?thesis
    unfolding map_append inis [OF assms(1) [unfolded ini_results_def]]
      desktops [OF assms(2) [unfolded desktop_results_def]] ..
qed

lemma results_ok:
  assumes "map Inr cs = ini_results u fs dir es" and "map Inr ds = desktop_results u fs xdg es es2"
  shows "\<forall>c \<in> set (cs @ ds). program_config_ok c \<and> pc_exec c \<noteq> []"
proof
  fix c assume "c \<in> set (cs @ ds)"
  then have "(Inr c :: program_error + program_config) \<in> set (map Inr cs) \<union> set (map Inr ds)" by auto
  then show "program_config_ok c \<and> pc_exec c \<noteq> []"
    unfolding assms ini_results_def desktop_results_def
    by (auto dest!: parse_ini_ok [OF sym] parse_desktop_ok [OF sym])
qed

lemma results_distinct:
  assumes "map Inr cs = ini_results u fs dir es" and "map Inr ds = desktop_results u fs xdg es es2"
    and "distinct (map de_name es)" and "distinct (map de_name es2)"
  shows "distinct (map pc_name (cs @ ds))"
  unfolding results_named [OF assms(1,2)]
  using program_files_distinct [OF assms(3), of "''.ini''"] program_files_distinct [OF assms(4), of "''.desktop''"]
  by (auto simp: distinct_map_filter) (metis image_eqI)

text \<open>C21: With two directories that can be read, the configurations are those of the \<open>.ini\<close> files and of
  the \<open>.desktop\<close> files whose name no \<open>.ini\<close> file has, sorted by phase, priority and name whatever the
  sorting algorithm; and there is a result exactly when every one of these files can be parsed.\<close>

theorem load_programs_outcome:
  assumes "fs_dir fs dir = DirEntries es" and "fs_dir fs xdg = DirEntries es2" and "xdg \<noteq> []"
    and "distinct (map de_name es)" and "distinct (map de_name es2)" and "go_sort program_key srt"
  shows "((\<exists>cs. load_program_configs u fs srt dir xdg = Inr cs)
      \<longleftrightarrow> (\<forall>r \<in> set (ini_results u fs dir es @ desktop_results u fs xdg es es2). \<exists>c. r = Inr c))
    \<and> (\<forall>cs. load_program_configs u fs srt dir xdg = Inr cs \<longrightarrow>
        (\<exists>ds. map Inr ds = ini_results u fs dir es @ desktop_results u fs xdg es es2
          \<and> distinct (map pc_name ds) \<and> (\<forall>c \<in> set ds. program_config_ok c \<and> pc_exec c \<noteq> [])
          \<and> cs = sort_key program_key ds))"
proof -
  obtain r1 seen where 1: "scan_dir u fs dir ''.ini'' ''ini'' [] = (r1, seen)" by fastforce
  note ini = scan_ini [OF assms(1,4), of u, unfolded 1]
  show ?thesis
  proof (cases r1)
    case (Inl e)
    then show ?thesis using ini by (auto simp: load_program_configs_def 1)
  next
    case (Inr cs1)
    have all1: "map Inr cs1 = ini_results u fs dir es"
      and seen: "set seen = base_name ''.ini'' ` set (program_files ''.ini'' es)"
      using ini Inr by auto
    note desk = scan_desktop [OF assms(2,5) seen, of u]
    have unread: "fst (scan_dir u fs xdg ''.desktop'' ''desktop'' seen) \<noteq> Inl (DirUnread DirMissing)"
      by (simp add: scan_dir_def assms(2) scan_entries_read)
    show ?thesis
    proof (cases "fst (scan_dir u fs xdg ''.desktop'' ''desktop'' seen)")
      case (Inl e)
      then show ?thesis using desk unread by (auto simp: load_program_configs_def 1 Inr assms(3))
    next
      case r2: (Inr cs2)
      then have all2: "map Inr cs2 = desktop_results u fs xdg es es2" using desk by blast
      have load: "load_program_configs u fs srt dir xdg = Inr (srt (cs1 @ cs2))"
        by (simp add: load_program_configs_def 1 Inr assms(3) r2)
      have names: "distinct (map pc_name (cs1 @ cs2))"
        by (rule results_distinct [OF all1 all2 assms(4,5)])
      have "srt (cs1 @ cs2) = sort_key program_key (cs1 @ cs2)"
        by (rule sorted_unique_names [OF go_sort_mset [OF assms(6)] go_sort_sorted [OF assms(6)] names])
      moreover have "map Inr (cs1 @ cs2) = ini_results u fs dir es @ desktop_results u fs xdg es es2"
        by (simp add: all1 all2)
      moreover have "\<forall>r \<in> set (ini_results u fs dir es @ desktop_results u fs xdg es es2). \<exists>c. r = Inr c"
        unfolding all1 [symmetric] all2 [symmetric] by auto
      moreover have "\<forall>c \<in> set (cs1 @ cs2). program_config_ok c \<and> pc_exec c \<noteq> []"
        by (rule results_ok [OF all1 all2])
      ultimately show ?thesis unfolding load using names by blast
    qed
  qed
qed

text \<open>An entry of the XDG directory that hides a program, as desktops write it: without \<open>Exec\<close>.\<close>

definition hidden_entry :: string where
  "hidden_entry = ''[Desktop Entry]'' @ [NL] @ ''Hidden=true'' @ [NL]"

definition demo_user :: puser where
  "demo_user = \<lparr>u_getenv = demo_getenv, u_uid = ''1000'', u_home = ''/home/u''\<rparr>"

definition hidden_files :: files where
  "hidden_files =
     \<lparr>fs_dir = (\<lambda>d. if d = ''/a'' then DirEntries [] else DirEntries [\<lparr>de_name = ''x.desktop'', de_is_dir = False\<rparr>]),
      fs_file = (\<lambda>_. FileData hidden_entry), fs_ini = (\<lambda>_. None)\<rparr>"

lemma hidden_entry_lines: "scan_lines max_scan_token hidden_entry = ([''[Desktop Entry]'', ''Hidden=true''], True)"
  using scan_lines_text [of "[''[Desktop Entry]'', ''Hidden=true'']" max_scan_token]
  by (simp add: hidden_entry_def drop_cr_def max_scan_token_def)

lemma hidden_entry_rejected: "parse_desktop_program demo_user (FileData hidden_entry) name = Inl (NoExec name)"
proof -
  have t: "trimmed ''[Desktop Entry]''" "trimmed ''Hidden=true''" "trimmed ''Hidden''" "trimmed ''true''"
    by (simp_all add: trimmed_def space_runes_def has_prefix_def)
  have f: "equal_fold ''[Desktop Entry]'' ''[Desktop Entry]''" "equal_fold ''true'' ''true''"
    "to_lower ''Hidden'' = ''hidden''"
    by code_simp+
  have "desktop_line demo_user ''[Desktop Entry]'' (False, False, c) = (True, False, c)" for c
    using t f by (simp add: desktop_line_def trim_space_trimmed has_prefix_def has_suffix_def)
  moreover have "desktop_line demo_user ''Hidden=true'' (True, False, c) = (True, True, c)" for c
    using t f by (simp add: desktop_line_def trim_space_trimmed has_prefix_def has_suffix_def desktop_key_def)
  ultimately show ?thesis
    by (simp add: parse_desktop_program_def hidden_entry_lines blank_program_def)
qed

theorem load_programs_outcome_witness:
  "\<not> (\<exists>cs. load_program_configs demo_user hidden_files (sort_key program_key) ''/a'' ''/x'' = Inr cs)"
proof -
  let ?e = "\<lparr>de_name = ''x.desktop'', de_is_dir = False\<rparr>"
  have ext: "file_ext ''x.desktop'' = ''.desktop''" using file_ext_append [of "''desktop''" "''x''"] by simp
  have "desktop_results demo_user hidden_files ''/x'' [] [?e] = [Inl (NoExec (base_name ''.desktop'' ?e))]"
    by (simp add: desktop_results_def program_files_def ext hidden_files_def hidden_entry_rejected)
  then show ?thesis
    using load_programs_outcome [of hidden_files "''/a''" "[]" "''/x''" "[?e]" "sort_key program_key" demo_user]
    by (simp add: hidden_files_def)
qed

end
