(* ===== verification/Composer_Config.thy ===== *)
theory Composer_Config
  imports Kerno_Config Ini_Sections Session_WM
begin

text \<open>
  The settings of the session WM from \<open>a-kerno.ini\<close>, \<open>internal/kernocfg/config.go\<close>, and what becomes of
  them in \<open>sessionwm.LoadConfig\<close>. A file that does not parse gives an empty section without an error.
\<close>

record composer =
  co_run :: string
  co_restart :: string

definition empty_composer :: composer where
  "empty_composer = \<lparr>co_run = [], co_restart = []\<rparr>"

text \<open>The second copy of the expansion with a tilde.\<close>

definition expand_composer_var :: "getenv \<Rightarrow> string \<Rightarrow> string \<Rightarrow> string \<Rightarrow> string" where
  "expand_composer_var getenv uid home s =
     expand_placeholders getenv uid home (if has_prefix s ''~'' then home @ tl s else s)"

definition parse_composer ::
  "getenv \<Rightarrow> string \<Rightarrow> string \<Rightarrow> (string \<Rightarrow> ini_file option) \<Rightarrow> string \<Rightarrow> composer option" where
  "parse_composer getenv uid home load data =
     (case load data of
        None \<Rightarrow> None
      | Some f \<Rightarrow>
          (case if_section f ''composer'' of
             None \<Rightarrow> Some empty_composer
           | Some sn \<Rightarrow>
               Some \<lparr>co_run = expand_composer_var getenv uid home (trim_space (ini_string sn ''run'')),
                     co_restart = trim_space (ini_string sn ''restart'')\<rparr>))"

text \<open>\<open>kernocfg.Load\<close>: the composer section and the error, None for nil.\<close>

definition load_composer ::
  "getenv \<Rightarrow> string \<Rightarrow> string \<Rightarrow> (string \<Rightarrow> ini_file option) \<Rightarrow> file_result \<Rightarrow> bool \<Rightarrow> file_result
    \<Rightarrow> composer \<times> read_error option" where
  "load_composer getenv uid home load first created again =
     (case read_or_create first created again of
        Inl e \<Rightarrow> (empty_composer, Some e)
      | Inr data \<Rightarrow>
          (case parse_composer getenv uid home load data of
             None \<Rightarrow> (empty_composer, None)
           | Some c \<Rightarrow> (c, None)))"

text \<open>\<open>sessionwm.LoadConfig\<close> with the file it reads.\<close>

definition load_wm_config ::
  "getenv \<Rightarrow> string \<Rightarrow> string \<Rightarrow> (string \<Rightarrow> ini_file option) \<Rightarrow> file_result \<Rightarrow> bool \<Rightarrow> file_result \<Rightarrow> wm_config"
where
  "load_wm_config getenv uid home load first created again =
     (let c = fst (load_composer getenv uid home load first created again)
      in wm_load_config getenv (co_run c) (co_restart c))"

section \<open>What the WM gets\<close>

definition wm_policies :: "restart_policy set" where
  "wm_policies = {RestartAlways, RestartOnFailure, RestartDisabled}"

lemma wm_parse_policy_cases:
  "wm_parse_policy raw = (if trim_space raw \<in> wm_policies then trim_space raw else [])"
  by (simp add: wm_parse_policy_def wm_policies_def)

lemma wm_policies_nonempty: "[] \<notin> wm_policies"
  by (simp add: wm_policies_def policy_names)

text \<open>The environment comes before the file, and a variable set to white space counts as unset. The
  policy is always one of the three the WM knows: anything else, \<open>once\<close> included, is passed over, and
  \<open>always\<close> is the last resort. Without a readable file and without variables the WM is disabled.\<close>

theorem wm_config_precedence:
  fixes getenv :: getenv and uid home :: string and load :: "string \<Rightarrow> ini_file option"
    and first again :: file_result and created :: bool
  defines "c \<equiv> load_wm_config getenv uid home load first created again"
    and "f \<equiv> fst (load_composer getenv uid home load first created again)"
  shows "wc_spec c = hd (filter (\<lambda>s. s \<noteq> [])
        [trim_space (getenv ''ADE_COMPOSITOR''), trim_space (getenv ''ADE_WM'')] @ [co_run f])
    \<and> wc_restart c = hd (filter (\<lambda>p. p \<in> wm_policies)
        [trim_space (getenv ''ADE_WM_RESTART''), trim_space (co_restart f)] @ [RestartAlways])
    \<and> wc_restart c \<in> wm_policies
    \<and> (read_or_create first created again = Inl e \<longrightarrow>
        (wm_enabled (new_wm c now) \<longleftrightarrow>
          trim_space (getenv ''ADE_COMPOSITOR'') \<noteq> [] \<or> trim_space (getenv ''ADE_WM'') \<noteq> []))"
proof -
  have a: "RestartAlways \<in> wm_policies" by (simp add: wm_policies_def)
  have "co_run f = []" if "read_or_create first created again = Inl e"
    using that by (simp add: f_def load_composer_def empty_composer_def)
  then show ?thesis
    using a wm_policies_nonempty
    by (auto simp: c_def load_wm_config_def Let_def wm_load_config_def wm_parse_policy_cases wm_enabled_def
        new_wm_def simp flip: f_def)
qed

definition once_getenv :: getenv where
  "once_getenv k = (if k = ''ADE_WM_RESTART'' then ''once'' else [])"

theorem wm_config_precedence_witness:
  "\<not> wm_enabled (new_wm (load_wm_config once_getenv ''1000'' ''/h'' (\<lambda>_. None) FileError True FileError) 0)
   \<and> wc_restart (load_wm_config once_getenv ''1000'' ''/h'' (\<lambda>_. None) FileError True FileError) = RestartAlways"
proof -
  have t: "trim_space ''once'' = ''once''" "trim_space [] = []" by code_simp+
  have r: "read_or_create FileError True FileError = Inl ReadFailed" by (simp add: read_or_create_def)
  have f: "fst (load_composer once_getenv ''1000'' ''/h'' (\<lambda>_. None) FileError True FileError) = empty_composer"
    by (simp add: load_composer_def r)
  show ?thesis
    using wm_config_precedence [of once_getenv "''1000''" "''/h''" "\<lambda>_. None" FileError True FileError ReadFailed 0]
    by (simp add: r f t once_getenv_def empty_composer_def wm_policies_def policy_names)
qed

end
