(* ===== verification/Boot.thy ===== *)
theory Boot
  imports Daemon_Config Program_Loading Composer_Config Orchestrator
begin

text \<open>
  The beginning of \<open>run\<close> in \<open>cmd/a-kerno/main.go\<close>: from the environment and the configuration files to
  the state the orchestrator starts with. A configuration that cannot be loaded is logged and taken as
  empty; only the user and the global configuration can stop the program here.
\<close>

text \<open>What the program finds: its environment; the user as \<open>config.Init\<close> and as \<open>run\<close> resolve it; the
  files, read at first and after a template was written; the directories; the INI library; the sorts
  and the floating point step of durations.\<close>

record boot_env =
  be_getenv :: getenv
  be_user_init :: "(string \<times> string) option"
  be_user :: "(string \<times> string) option"
  be_file :: "string \<Rightarrow> file_result"
  be_created :: "string \<Rightarrow> bool"
  be_again :: "string \<Rightarrow> file_result"
  be_dir :: "string \<Rightarrow> dir_result"
  be_ini :: "string \<Rightarrow> ini_file option"
  be_daemon_sort :: "daemon_config list \<Rightarrow> daemon_config list"
  be_program_sort :: "program_config list \<Rightarrow> program_config list"
  be_fp :: "nat \<Rightarrow> nat \<Rightarrow> nat \<Rightarrow> nat"

text \<open>Steps 1 to 3, the configuration of the daemons or nothing.\<close>

definition boot_daemons :: "boot_env \<Rightarrow> config \<Rightarrow> string \<Rightarrow> string \<Rightarrow> daemon_config list" where
  "boot_daemons b cfg uid home =
     (let path = cfg_daemons_ini cfg;
          h = \<lparr>h_getenv = be_getenv b, h_uid = uid, h_home = home, h_fp = be_fp b\<rparr>
      in case load_config h (be_ini b) (be_daemon_sort b) (be_file b path) (be_created b path) (be_again b path) of
           Inl e \<Rightarrow> []
         | Inr cs \<Rightarrow> cs)"

definition boot_programs :: "boot_env \<Rightarrow> config \<Rightarrow> string \<Rightarrow> string \<Rightarrow> program_config list" where
  "boot_programs b cfg uid home =
     (let u = \<lparr>u_getenv = be_getenv b, u_uid = uid, u_home = home\<rparr>;
          fs = \<lparr>fs_dir = be_dir b, fs_file = be_file b, fs_ini = be_ini b\<rparr>
      in case load_program_configs u fs (be_program_sort b) (cfg_autostart_dir cfg) (home @ ''/.config/autostart'') of
           Inl e \<Rightarrow> []
         | Inr cs \<Rightarrow> cs)"

definition boot_wm :: "boot_env \<Rightarrow> config \<Rightarrow> string \<Rightarrow> string \<Rightarrow> wm_config" where
  "boot_wm b cfg uid home =
     (let path = cfg_kerno_ini cfg
      in load_wm_config (be_getenv b) uid home (be_ini b) (be_file b path) (be_created b path) (be_again b path))"

text \<open>Steps 1 to 10; None stands for the exit code 1.\<close>

definition boot :: "boot_env \<Rightarrow> time \<Rightarrow> orch option" where
  "boot b now =
     (case config_init (be_getenv b) (be_user_init b) fresh_globals of
        (g, False) \<Rightarrow> None
      | (g, True) \<Rightarrow>
          (case (snd (config_get (be_getenv b) (be_user_init b) g), be_user b) of
             (Some cfg, Some (uid, home)) \<Rightarrow>
               Some \<lparr>o_dm = new_daemon_manager (boot_daemons b cfg uid home) now,
                     o_pm = new_program_manager (boot_programs b cfg uid home) now,
                     o_wm = new_wm (boot_wm b cfg uid home) now,
                     o_features = new_registry, o_clock = now, o_log = []\<rparr>
           | _ \<Rightarrow> None))"

definition kerno_run ::
  "boot_env \<Rightarrow> time \<Rightarrow> orch_env \<Rightarrow> bool \<Rightarrow> (orch \<Rightarrow> orch) \<Rightarrow> bool \<Rightarrow> int option" where
  "kerno_run b now env listening meanwhile stopped =
     (case boot b now of
        None \<Rightarrow> Some 1
      | Some x \<Rightarrow> snd (kerno_main env listening meanwhile stopped x))"

section \<open>The state after the boot\<close>

lemma config_after_init:
  "config_init getenv user fresh_globals = (g, True) \<Longrightarrow>
     \<exists>uid home. user = Some (uid, home) \<and> snd (config_get getenv user g) = Some (fst (init_config getenv user))"
  by (auto simp: config_init_def fresh_globals_def config_get_def init_config_def Let_def split: option.splits)

lemma boot_Some:
  assumes "boot b now = Some x"
  shows "\<exists>uid0 home0 uid home. be_user_init b = Some (uid0, home0) \<and> be_user b = Some (uid, home)
    \<and> (let cfg = fst (init_config (be_getenv b) (Some (uid0, home0)))
       in x = \<lparr>o_dm = new_daemon_manager (boot_daemons b cfg uid home) now,
               o_pm = new_program_manager (boot_programs b cfg uid home) now,
               o_wm = new_wm (boot_wm b cfg uid home) now,
               o_features = new_registry, o_clock = now, o_log = []\<rparr>)"
proof -
  obtain g where g: "config_init (be_getenv b) (be_user_init b) fresh_globals = (g, True)"
    using assms by (auto simp: boot_def split: prod.splits bool.splits)
  from config_after_init [OF g] assms show ?thesis
    by (auto simp: boot_def g Let_def split: option.splits)
qed

lemma boot_daemons_ok:
  assumes "go_sort dc_order (be_daemon_sort b)"
  shows "\<forall>c \<in> set (boot_daemons b cfg uid home). daemon_config_ok c"
proof (cases "boot_daemons b cfg uid home = []")
  case False
  let ?h = "\<lparr>h_getenv = be_getenv b, h_uid = uid, h_home = home, h_fp = be_fp b\<rparr>"
  let ?p = "cfg_daemons_ini cfg"
  obtain cs where cs: "load_config ?h (be_ini b) (be_daemon_sort b) (be_file b ?p) (be_created b ?p)
      (be_again b ?p) = Inr cs" "boot_daemons b cfg uid home = cs"
    using False by (auto simp: boot_daemons_def Let_def split: sum.splits)
  then obtain cs0 f where "daemon_configs_of ?h (named_sections f) = Inr cs0" "cs = [] \<or> cs = be_daemon_sort b cs0"
    by (auto simp: load_config_def split: sum.splits option.splits if_splits)
  then show ?thesis
    using daemon_configs_Inr cs(2) go_sort_set [OF assms] by auto
qed simp

lemma scan_entries_each:
  assumes "\<And>e base c. parse e base = Inr c \<Longrightarrow> P c"
  shows "fst (scan_entries parse ext es seen) = Inr ds \<Longrightarrow> \<forall>c \<in> set ds. P c"
proof (induction es arbitrary: seen ds)
  case (Cons e es)
  let ?b = "trim_suffix (de_name e) ext"
  show ?case
  proof (cases "de_is_dir e \<or> file_ext (de_name e) \<noteq> ext \<or> ?b \<in> set seen")
    case True
    then have "scan_entries parse ext (e # es) seen = scan_entries parse ext es seen"
      by (auto simp: Let_def)
    then show ?thesis using Cons.IH Cons.prems by simp
  next
    case False
    then obtain c ds' where "parse e ?b = Inr c" "fst (scan_entries parse ext es (?b # seen)) = Inr ds'"
      "ds = c # ds'"
      using Cons.prems by (auto simp: Let_def split: sum.splits prod.splits)
    then show ?thesis using Cons.IH assms by auto
  qed
qed simp

lemma load_programs_each_ok:
  assumes "load_program_configs u fs srt dir xdg = Inr cs" and "go_sort program_key srt"
  shows "\<forall>c \<in> set cs. program_config_ok c \<and> pc_exec c \<noteq> []"
proof -
  have parsed: "program_config_ok c \<and> pc_exec c \<noteq> []" if "parse_program u fs source p base = Inr c" for source p base c
    using that parse_ini_ok parse_desktop_ok by (fastforce simp: parse_program_def split: if_splits)
  have dir: "\<forall>c \<in> set ds. program_config_ok c \<and> pc_exec c \<noteq> []"
    if "fst (scan_dir u fs d ext source seen) = Inr ds" for d ext source seen ds
  proof -
    note scan = that
    obtain es where "fs_dir fs d = DirEntries es"
      using scan by (cases "fs_dir fs d") (simp_all add: scan_dir_def)
    then have "fst (scan_entries (\<lambda>e. parse_program u fs source (path_join d (de_name e))) ext es seen) = Inr ds"
      using scan by (simp add: scan_dir_def)
    then show ?thesis by (rule scan_entries_each [rotated]) (rule parsed)
  qed
  have "\<exists>ds es. cs = srt (ds @ es) \<and> (\<forall>c \<in> set (ds @ es). program_config_ok c \<and> pc_exec c \<noteq> [])"
  proof -
    obtain r seen where 1: "scan_dir u fs dir ''.ini'' ''ini'' [] = (r, seen)" by fastforce
    then obtain inis where inis: "r = Inr inis" using assms(1) by (auto simp: load_program_configs_def split: sum.splits)
    have ok1: "\<forall>c \<in> set inis. program_config_ok c \<and> pc_exec c \<noteq> []" using dir 1 inis by (metis fst_conv)
    show ?thesis
    proof (cases "fst (scan_dir u fs xdg ''.desktop'' ''desktop'' seen)")
      case (Inl e)
      then have "cs = srt (inis @ [])" using assms(1) by (auto simp: load_program_configs_def 1 inis split: if_splits)
      then show ?thesis using ok1 by (metis append_Nil2)
    next
      case (Inr ds)
      then have "cs = srt (inis @ ds) \<or> cs = srt (inis @ [])"
        using assms(1) by (auto simp: load_program_configs_def 1 inis split: if_splits)
      moreover have "\<forall>c \<in> set (inis @ ds). program_config_ok c \<and> pc_exec c \<noteq> []"
        using ok1 dir [OF Inr] by auto
      ultimately show ?thesis using ok1 by (metis append_Nil2)
    qed
  qed
  then show ?thesis using go_sort_set [OF assms(2)] by auto
qed

lemma boot_programs_ok:
  assumes "go_sort program_key (be_program_sort b)"
  shows "\<forall>c \<in> set (boot_programs b cfg uid home). program_config_ok c \<and> pc_exec c \<noteq> []"
proof (cases "load_program_configs \<lparr>u_getenv = be_getenv b, u_uid = uid, u_home = home\<rparr>
    \<lparr>fs_dir = be_dir b, fs_file = be_file b, fs_ini = be_ini b\<rparr> (be_program_sort b) (cfg_autostart_dir cfg)
    (home @ ''/.config/autostart'')")
  case (Inr cs)
  then show ?thesis using load_programs_each_ok [OF Inr assms] by (simp add: boot_programs_def)
qed (simp add: boot_programs_def)

text \<open>Whatever the environment and the files are, a program that gets past the user's identity starts
  the orchestrator with managers that satisfy their invariants, with nothing running and nothing
  logged, and with configurations that are well formed; a user that cannot be resolved ends it with
  exit code 1 before anything is started.\<close>

theorem boot_outcome:
  assumes "go_sort dc_order (be_daemon_sort b)" and "go_sort program_key (be_program_sort b)"
  shows "((\<exists>x. boot b now = Some x) \<longleftrightarrow> be_user_init b \<noteq> None \<and> be_user b \<noteq> None)
    \<and> (boot b now = None \<longrightarrow> kerno_run b now env listening meanwhile stopped = Some 1)
    \<and> (\<forall>x. boot b now = Some x \<longrightarrow>
        dm_inv (o_dm x) \<and> pm_inv (o_pm x) \<and> wm_inv (o_wm x) \<and> o_log x = []
      \<and> (\<forall>c \<in> set (dm_configs (o_dm x)). daemon_config_ok c)
      \<and> (\<forall>c \<in> set (pm_configs (o_pm x)). program_config_ok c \<and> pc_exec c \<noteq> [])
      \<and> wc_restart (w_cfg (o_wm x)) \<in> wm_policies)"
proof (intro conjI allI impI)
  show "(\<exists>x. boot b now = Some x) \<longleftrightarrow> be_user_init b \<noteq> None \<and> be_user b \<noteq> None"
    by (auto simp: boot_def config_init_def fresh_globals_def config_get_def init_config_def Let_def
        split: option.split)
  show "boot b now = None \<Longrightarrow> kerno_run b now env listening meanwhile stopped = Some 1" by (simp add: kerno_run_def)
next
  fix x assume "boot b now = Some x"
  from boot_Some [OF this] obtain cfg uid home where
    x: "x = \<lparr>o_dm = new_daemon_manager (boot_daemons b cfg uid home) now,
             o_pm = new_program_manager (boot_programs b cfg uid home) now,
             o_wm = new_wm (boot_wm b cfg uid home) now,
             o_features = new_registry, o_clock = now, o_log = []\<rparr>"
    by (auto simp: Let_def)
  show "dm_inv (o_dm x)" by (simp add: x new_manager_inv)
  show "pm_inv (o_pm x)" by (simp add: x new_manager_pm_inv)
  show "wm_inv (o_wm x)" by (simp add: x wm_inv_def new_wm_def)
  show "o_log x = []" by (simp add: x)
  show "\<forall>c \<in> set (dm_configs (o_dm x)). daemon_config_ok c"
    using boot_daemons_ok [OF assms(1)] by (simp add: x new_daemon_manager_def)
  show "\<forall>c \<in> set (pm_configs (o_pm x)). program_config_ok c \<and> pc_exec c \<noteq> []"
    using boot_programs_ok [OF assms(2)] by (simp add: x new_program_manager_def)
  have "wc_restart (wm_load_config g r p) \<in> wm_policies" for g r p
    by (simp add: wm_load_config_def Let_def wm_parse_policy_cases wm_policies_nonempty) (simp add: wm_policies_def)
  then show "wc_restart (w_cfg (o_wm x)) \<in> wm_policies"
    by (simp add: x new_wm_def boot_wm_def load_wm_config_def Let_def)
qed

definition empty_home :: boot_env where
  "empty_home =
     \<lparr>be_getenv = (\<lambda>_. []), be_user_init = Some (''1000'', ''/home/u''), be_user = Some (''1000'', ''/home/u''),
      be_file = (\<lambda>_. FileMissing), be_created = (\<lambda>_. False), be_again = (\<lambda>_. FileMissing),
      be_dir = (\<lambda>_. DirMissing), be_ini = (\<lambda>_. None), be_daemon_sort = sort_key dc_order,
      be_program_sort = sort_key program_key, be_fp = (\<lambda>_ _ _. 0)\<rparr>"

theorem boot_outcome_witness:
  "\<exists>x. boot empty_home 1 = Some x \<and> dm_inv (o_dm x) \<and> pm_inv (o_pm x) \<and> wm_inv (o_wm x)"
proof -
  have sorts: "go_sort dc_order (be_daemon_sort empty_home)" "go_sort program_key (be_program_sort empty_home)"
    and user: "be_user_init empty_home \<noteq> None" "be_user empty_home \<noteq> None"
    by (simp_all add: empty_home_def)
  from boot_outcome [OF sorts, of 1] user show ?thesis by blast
qed

end
