(* ===== verification/Server_Listener.thy ===== *)
theory Server_Listener
  imports Server_Connection Kerno_Config
begin

text \<open>
  The life of the management server: \<open>NewServer\<close>, \<open>Start\<close>, \<open>Stop\<close>, \<open>ShutdownC\<close> and \<open>acceptLoop\<close> of
  \<open>internal/server/server.go\<close>. What the commands do to the managers is in the theories before; here is
  the socket, its listener, and the goroutines \<open>Stop\<close> waits for.
\<close>

section \<open>The socket\<close>

datatype socket_effect =
    MadeDir string
  | RemovedFile string
  | ListeningOn string
  | ClosedListener

record listener =
  sv_path :: string
  sv_started :: bool
  sv_cancelled :: bool
  sv_listener :: bool
  sv_effects :: "socket_effect list"

definition new_listener :: "config \<Rightarrow> listener" where
  "new_listener cfg =
     \<lparr>sv_path = cfg_kerno_sock cfg, sv_started = False, sv_cancelled = False, sv_listener = False,
      sv_effects = []\<rparr>"

text \<open>\<open>filepath.Dir\<close>.\<close>

definition path_dir :: "string \<Rightarrow> string" where
  "path_dir path = path_clean (rev (dropWhile (\<lambda>c. c \<noteq> CHR ''/'') (rev path)))"

definition sv_emit :: "socket_effect list \<Rightarrow> listener \<Rightarrow> listener" where
  "sv_emit es s = s\<lparr>sv_effects := sv_effects s @ es\<rparr>"

datatype listen_error = SocketDirFailed string | ListenFailed string

text \<open>\<open>Start\<close>: whether the context it is given is done already, whether the directory can be made and
  whether the socket can be listened on. The server's own context is set before anything can fail, and a
  stale socket file is removed whether it exists or not.\<close>

definition server_start :: "bool \<Rightarrow> bool \<Rightarrow> bool \<Rightarrow> listener \<Rightarrow> listener \<times> listen_error option" where
  "server_start ctxDone mkdir listens s =
     (let s1 = s\<lparr>sv_started := True, sv_cancelled := ctxDone\<rparr>;
          socketDir = path_dir (sv_path s)
      in if \<not> mkdir then (s1, Some (SocketDirFailed socketDir))
         else let s2 = sv_emit [MadeDir socketDir, RemovedFile (sv_path s)] s1
              in if \<not> listens then (s2, Some (ListenFailed (sv_path s)))
                 else (sv_emit [ListeningOn (sv_path s)] (s2\<lparr>sv_listener := True\<rparr>), None))"

text \<open>\<open>Stop\<close>: \<open>waits\<close> says of each goroutine in the wait group, the accept loop and the handlers,
  whether it ends. None: \<open>wg.Wait\<close> does not return.\<close>

definition server_stop :: "bool list \<Rightarrow> listener \<Rightarrow> listener option" where
  "server_stop waits s =
     (let s1 = (if sv_listener s then sv_emit [ClosedListener] s else s)
      in if False \<in> set waits then None
         else if sv_path s = [] then Some s1
         else Some (sv_emit [RemovedFile (sv_path s)] s1))"

text \<open>Whether the channel of \<open>ShutdownC\<close> is closed.\<close>

definition shutdown_c :: "listener \<Rightarrow> bool" where
  "shutdown_c s = (if sv_started s then sv_cancelled s else True)"

section \<open>The accept loop\<close>

text \<open>What \<open>Accept\<close> gives, and whether the context is done at the two places that look at it.\<close>

datatype 'c accepted = Conn 'c | NetErrClosed | AcceptError

text \<open>The connections handed to handlers, and whether the loop has returned.\<close>

fun accept_loop :: "(bool \<times> 'c accepted \<times> bool) list \<Rightarrow> 'c list \<times> bool" where
  "accept_loop [] = ([], False)"
| "accept_loop ((done1, a, done2) # es) =
     (if done1 then ([], True)
      else case a of
             Conn c \<Rightarrow> (case accept_loop es of (cs, returned) \<Rightarrow> (c # cs, returned))
           | NetErrClosed \<Rightarrow> ([], True)
           | AcceptError \<Rightarrow> if done2 then ([], True) else accept_loop es)"

section \<open>What the listener promises\<close>

fun conn_of :: "bool \<times> 'c accepted \<times> bool \<Rightarrow> 'c list" where
  "conn_of (done1, Conn c, done2) = [c]"
| "conn_of _ = []"

definition goes_on :: "bool \<times> 'c accepted \<times> bool \<Rightarrow> bool" where
  "goes_on e = (case e of (done1, a, done2) \<Rightarrow> \<not> done1 \<and> a \<noteq> NetErrClosed \<and> (a = AcceptError \<longrightarrow> \<not> done2))"

lemma accept_loop_spec:
  "accept_loop es = (concat (map conn_of (takeWhile goes_on es)), \<not> (\<forall>e \<in> set es. goes_on e))"
proof (induction es rule: accept_loop.induct)
  case (2 done1 a done2 es)
  then show ?case by (cases a) (auto simp: goes_on_def split: prod.splits)
qed simp

lemma sv_emit_simps [simp]:
  "sv_effects (sv_emit es s) = sv_effects s @ es" "sv_path (sv_emit es s) = sv_path s"
  "sv_listener (sv_emit es s) = sv_listener s" "sv_started (sv_emit es s) = sv_started s"
  "sv_cancelled (sv_emit es s) = sv_cancelled s"
  by (simp_all add: sv_emit_def)

text \<open>The server's life. A start that succeeds listens on the configured path, behind the
  removal of a stale file. The loop then hands every connection to a handler, in order and across failed
  accepts, until the listener is closed or it sees the context done. \<open>Stop\<close> closes the listener if there
  is one, and when the goroutines end it has removed the socket file, and it can be called also after a
  failed start. The channel of \<open>ShutdownC\<close> is closed after a start only if the
  context was done.\<close>

theorem server_life:
  assumes "server_start ctxDone mkdir listens (new_listener cfg) = (s, e)"
  shows "(e = None \<longleftrightarrow> mkdir \<and> listens) \<and> (sv_listener s \<longleftrightarrow> e = None) \<and> sv_path s = cfg_kerno_sock cfg
    \<and> (shutdown_c s \<longleftrightarrow> ctxDone)
    \<and> (e = None \<longrightarrow> sv_effects s = [MadeDir (path_dir (sv_path s)), RemovedFile (sv_path s), ListeningOn (sv_path s)])
    \<and> (\<forall>es. accept_loop es = (concat (map conn_of (takeWhile goes_on es)), \<not> (\<forall>a \<in> set es. goes_on a)))
    \<and> ((\<exists>s'. server_stop waits s = Some s') \<longleftrightarrow> (\<forall>b \<in> set waits. b))
    \<and> (\<forall>s'. server_stop waits s = Some s' \<and> cfg_kerno_sock cfg \<noteq> [] \<longrightarrow>
        sv_effects s' = sv_effects s @ (if e = None then [ClosedListener] else []) @ [RemovedFile (cfg_kerno_sock cfg)])"
proof -
  have ends: "(\<exists>s'. server_stop waits s = Some s') \<longleftrightarrow> (\<forall>b \<in> set waits. b)"
    by (auto simp: server_stop_def Let_def) (metis (full_types))
  have start: "e = None \<longleftrightarrow> mkdir \<and> listens" "sv_listener s \<longleftrightarrow> e = None" "sv_path s = cfg_kerno_sock cfg"
    "shutdown_c s \<longleftrightarrow> ctxDone"
    and effects: "e = None \<Longrightarrow> sv_effects s =
      [MadeDir (path_dir (sv_path s)), RemovedFile (sv_path s), ListeningOn (sv_path s)]"
    using assms by (auto simp: server_start_def new_listener_def shutdown_c_def Let_def split: if_splits)
  have "sv_effects s' = sv_effects s @ (if e = None then [ClosedListener] else []) @ [RemovedFile (cfg_kerno_sock cfg)]"
    if "server_stop waits s = Some s'" "cfg_kerno_sock cfg \<noteq> []" for s'
    using that start(2,3) by (auto simp: server_stop_def Let_def split: if_splits)
  with ends start effects show ?thesis by (simp add: accept_loop_spec)
qed

theorem server_life_witness:
  "\<exists>s s'. server_start False True True (new_listener (empty_config\<lparr>cfg_kerno_sock := ''/run/ade/kerno''\<rparr>)) = (s, None)
     \<and> server_stop [True] s = Some s'
     \<and> sv_effects s' = [MadeDir ''/run/ade'', RemovedFile ''/run/ade/kerno'', ListeningOn ''/run/ade/kerno'',
         ClosedListener, RemovedFile ''/run/ade/kerno'']"
proof -
  let ?cfg = "empty_config\<lparr>cfg_kerno_sock := ''/run/ade/kerno''\<rparr>"
  obtain s e where st: "server_start False True True (new_listener ?cfg) = (s, e)" by fastforce
  have "path_dir ''/run/ade/kerno'' = ''/run/ade''" by code_simp
  with server_life [OF st, of "[True]"] st show ?thesis by auto
qed

section \<open>The handlers \<open>Stop\<close> waits for\<close>

text \<open>A handler that was given a connection in the state \<open>s\<close> ends; the text parser's reader has a buffer
  of 4096 bytes, and \<open>ns\<close> are the sizes of its further reads.\<close>

definition handler_ends :: "server_env \<Rightarrow> (nat \<Rightarrow> bool) \<Rightarrow> server \<times> string \<Rightarrow> bool" where
  "handler_ends env w sc \<longleftrightarrow>
     (\<exists>ns. snd (snd (handle_connection env w (4096 # ns) (fst sc) (snd sc))) = Closed)"

definition text_peer :: "string \<Rightarrow> bool" where
  "text_peer conn \<longleftrightarrow> 5 \<le> length conn \<and> take 3 conn = ''TXT'' \<and> NL \<notin> set (take 5 conn)"

lemma text_peer_never_ends:
  assumes "text_peer conn"
  shows "\<not> handler_ends env w (s, conn)"
proof -
  have "take 3 (take 4 conn) = ''TXT''" using assms by (simp add: text_peer_def)
  then have "take 4 conn \<noteq> ''BIN1''" by (rule contrapos_pn) simp
  moreover have five: "5 \<le> length conn" "take 3 conn = ''TXT''" "NL \<notin> set (take 5 conn)" "(5::nat) \<le> 4096"
    using assms by (simp_all add: text_peer_def)
  ultimately have "snd (snd (handle_connection env w (4096 # ns) s conn)) = StillReading" for ns
    using text_mode_stuck [of conn 4096 env w ns s] by force
  then show ?thesis by (simp add: handler_ends_def)
qed

lemma bin_loop_end: "bin_loop env w i s conn = (s', es, ending) \<Longrightarrow> ending = Closed \<or> ending = Crashed"
proof (induction env w i s conn arbitrary: s' es ending rule: bin_loop.induct)
  case (1 env w i s conn)
  show ?case
  proof (cases "read_command conn")
    case (Ok x)
    obtain cmd rest where x: "x = (cmd, rest)" by fastforce
    show ?thesis
    proof (cases "dispatch_bin env s cmd")
      case (Ok y)
      obtain s1 r where y: "y = (s1, r)" by fastforce
      note IH = "1.IH" [OF \<open>read_command conn = Ok x\<close> [unfolded x] refl Ok [unfolded y] refl]
      from "1.prems" \<open>read_command conn = Ok x\<close> Ok show ?thesis
        by (subst (asm) bin_loop.simps)
          (auto simp: x y Let_def split: if_splits prod.splits dest: IH)
    qed (use "1.prems" \<open>read_command conn = Ok x\<close> x in \<open>subst (asm) bin_loop.simps, auto\<close>)+
  qed (use "1.prems" in \<open>subst (asm) bin_loop.simps, auto split: if_splits\<close>)+
qed

text \<open>A binary connection, and one of less than five bytes, ends when its peer closes it.\<close>

lemma other_peers_end:
  assumes "take 4 conn = ''BIN1'' \<or> length conn < 5" and "snd (snd (handle_connection env w [] s conn)) \<noteq> Crashed"
  shows "handler_ends env w (s, conn)"
proof -
  have "snd (snd (handle_connection env w ns s conn)) = Closed" for ns
  proof (cases "take 4 conn = ''BIN1''")
    case True
    then have "length (take 4 conn) = 4" by simp
    then have "4 \<le> length conn" by simp
    then have r: "read_full 4 conn = Ok (''BIN1'', drop 4 conn)" using True by (simp add: read_full_def)
    obtain s1 es ending where b: "bin_loop env w (Suc 0) s (bytes_of_string (drop 4 conn)) = (s1, es, ending)"
      by (metis prod_cases3)
    from bin_loop_end [OF b] assms(2) show ?thesis
      by (auto simp: handle_connection_def r b split: if_splits)
  next
    case False
    then have "length conn < 5" using assms(1) by simp
    then have "read_full 1 (drop 4 conn) = Err EOF" by (simp add: read_full_def)
    moreover have "read_full 4 conn = Ok (take 4 conn, drop 4 conn) \<or> (\<exists>e. read_full 4 conn = Err e)"
      by (simp add: read_full_def)
    ultimately show ?thesis using False by (auto simp: handle_connection_def)
  qed
  then show ?thesis by (simp add: handler_ends_def)
qed

end
