(* ===== verification/Server_Peers.thy ===== *)
theory Server_Peers
  imports Server_Listener
begin

text \<open>
  Peers that stay connected. \<open>Server_Connection\<close> follows a peer that sends its bytes and closes its side;
  here the peer has sent the bytes \<open>conn\<close> and keeps the connection open, so that a read for which there
  are not enough bytes waits. No connection has a deadline and \<open>Stop\<close> closes the listener only, so such a
  handler ends when its peer does something.
\<close>

section \<open>The handler of an open connection\<close>

text \<open>The errors of a read that \<open>io.ReadFull\<close> reports at the end of the input, and no other.\<close>

fun starved :: "bin_err \<Rightarrow> bool" where
  "starved (ReadErr _) = True"
| "starved (ReadPayload _ _) = True"
| "starved _ = False"

text \<open>\<open>handleBinConnection\<close>.\<close>

function open_bin_loop ::
  "server_env \<Rightarrow> (nat \<Rightarrow> bool) \<Rightarrow> nat \<Rightarrow> server \<Rightarrow> bytes \<Rightarrow> server \<times> event list \<times> conn_end" where
  "open_bin_loop env w i s conn =
     (case read_command conn of
        Panic \<Rightarrow> (s, [], Crashed)
      | Err e \<Rightarrow> if starved e then (s, [], StillReading)
                 else (s, if w i then [BinParseFailed e] else [], Closed)
      | Ok (cmd, rest) \<Rightarrow>
          (case dispatch_bin env s cmd of
             Ok (s1, r) \<Rightarrow>
               if bc_code cmd = CmdShutdown then (s1, if w i then [BinResponse r] else [], Closed)
               else if \<not> w i then (s1, [], Closed)
               else let (s2, es, ending) = open_bin_loop env w (Suc i) s1 rest
                    in (s2, BinResponse r # es, ending)
           | _ \<Rightarrow> (s, [], Crashed)))"
  by pat_completeness auto
termination
  by (relation "measure (\<lambda>(env, w, i, s, conn). length conn)")
    (auto simp: read_command_def dest: read_loop_shorter)

declare open_bin_loop.simps [simp del]

text \<open>\<open>handleConnection\<close>; the reader of the text mode never asks the connection.\<close>

definition handle_open ::
  "server_env \<Rightarrow> (nat \<Rightarrow> bool) \<Rightarrow> nat list \<Rightarrow> server \<Rightarrow> string \<Rightarrow> server \<times> event list \<times> conn_end" where
  "handle_open env w sizes s conn =
     (if length conn < 4 then (s, [], StillReading)
      else if take 4 conn = ''BIN1'' then
        (if \<not> w 0 then (s, [], Closed)
         else let (s1, es, ending) = open_bin_loop env w 1 s (bytes_of_string (drop 4 conn))
              in (s1, BinAck # es, ending))
      else if length conn < 5 then (s, [], StillReading)
      else handle_connection env w sizes s conn)"

text \<open>A peer: whether it stays connected, and what it has sent.\<close>

definition serve_peer ::
  "server_env \<Rightarrow> (nat \<Rightarrow> bool) \<Rightarrow> nat list \<Rightarrow> server \<Rightarrow> bool \<times> string \<Rightarrow> server \<times> event list \<times> conn_end" where
  "serve_peer env w sizes s peer =
     (case peer of (stays, conn) \<Rightarrow>
        if stays then handle_open env w sizes s conn else handle_connection env w sizes s conn)"

section \<open>Open and closed connections\<close>

text \<open>Keeping the connection open changes nothing but the end: the commands answered and the state are
  the same, and where the handler of the open connection ends, it ends the same way.\<close>

lemma open_bin_loop_cases:
  "open_bin_loop env w i s conn = (s', es, ending) \<Longrightarrow>
     (ending \<noteq> StillReading \<and> bin_loop env w i s conn = (s', es, ending)
      \<or> ending = StillReading \<and> (\<exists>es'. bin_loop env w i s conn = (s', es @ es', Closed)))"
proof (induction env w i s conn arbitrary: s' es ending rule: open_bin_loop.induct)
  case (1 env w i s conn)
  note unfold = open_bin_loop.simps [of env w i _ conn] bin_loop.simps [of env w i _ conn]
  show ?case
  proof (cases "read_command conn")
    case (Ok x)
    obtain cmd rest where x: "x = (cmd, rest)" by fastforce
    show ?thesis
    proof (cases "dispatch_bin env s cmd")
      case (Ok y)
      obtain s1 r where y: "y = (s1, r)" by fastforce
      show ?thesis
      proof (cases "bc_code cmd = CmdShutdown \<or> \<not> w i")
        case True
        with "1.prems" \<open>read_command conn = Ok x\<close> Ok show ?thesis by (auto simp: unfold x y split: if_splits)
      next
        case False
        obtain s2 es2 end2 where rec: "open_bin_loop env w (Suc i) s1 rest = (s2, es2, end2)"
          by (metis prod_cases3)
        note IH = "1.IH" [OF \<open>read_command conn = Ok x\<close> [unfolded x] refl Ok [unfolded y] refl]
        from IH [of s2 es2 end2] False rec have
          "end2 \<noteq> StillReading \<and> bin_loop env w (Suc i) s1 rest = (s2, es2, end2)
           \<or> end2 = StillReading \<and> (\<exists>es'. bin_loop env w (Suc i) s1 rest = (s2, es2 @ es', Closed))"
          by auto
        with "1.prems" False \<open>read_command conn = Ok x\<close> Ok show ?thesis
          by (auto simp: unfold x y rec)
      qed
    qed (use "1.prems" \<open>read_command conn = Ok x\<close> in \<open>auto simp: unfold x\<close>)
  qed (use "1.prems" in \<open>auto simp: unfold split: if_splits\<close>)
qed

lemma handle_open_cases:
  assumes "handle_open env w sizes s conn = (s', es, ending)"
  shows "handle_connection env w sizes s conn = (s', es, ending)
    \<or> ending = StillReading \<and> (\<exists>es'. handle_connection env w sizes s conn = (s', es @ es', Closed))"
proof -
  have four: "read_full 4 conn = Ok (take 4 conn, drop 4 conn)" if "\<not> length conn < 4"
    using that by (simp add: read_full_def)
  consider (short) "length conn < 4" | (binary) "\<not> length conn < 4" "take 4 conn = ''BIN1''"
    | (four) "length conn = 4" "take 4 conn \<noteq> ''BIN1''" | (long) "5 \<le> length conn" "take 4 conn \<noteq> ''BIN1''"
    by linarith
  then show ?thesis
  proof cases
    case short
    then have "\<exists>e. read_full 4 conn = Err e" by (simp add: read_full_def)
    with short assms show ?thesis by (auto simp: handle_open_def handle_connection_def)
  next
    case binary
    obtain s1 es1 end1 where o: "open_bin_loop env w (Suc 0) s (bytes_of_string (drop 4 conn)) = (s1, es1, end1)"
      by (metis prod_cases3)
    from open_bin_loop_cases [OF o] assms binary show ?thesis
      by (auto simp: handle_open_def handle_connection_def four o split: if_splits)
  next
    case four
    then have "read_full 1 (drop 4 conn) = Err EOF" by (simp add: read_full_def)
    with assms four show ?thesis
      by (simp add: handle_open_def handle_connection_def read_full_def)
  next
    case long
    with assms show ?thesis by (simp add: handle_open_def)
  qed
qed

section \<open>Idle peers\<close>

lemma open_loop_requests:
  assumes "\<forall>q \<in> set qs. request_ok q \<and> fst q \<noteq> CmdShutdown" and "\<And>i. w i" and "server_ok s"
    and "bin_front.run env s (map request_command qs) = Ok (s', rs)"
    and "read_command tail = Err e" and "starved e"
  shows "open_bin_loop env w i s (concat (map request_bytes qs) @ tail) = (s', map BinResponse rs, StillReading)"
  using assms(1,3,4)
proof (induction qs arbitrary: i s rs)
  case Nil
  with assms(5,6) show ?case by (simp add: open_bin_loop.simps [of env])
next
  case (Cons q qs)
  obtain s1 r where d: "dispatch_bin env s (request_command q) = Ok (s1, r)" "server_ok s1"
    using bin_front.handle_total [OF Cons.prems(2)] by blast
  with Cons.prems(3) obtain rs' where
    rs': "bin_front.run env s1 (map request_command qs) = Ok (s', rs')" "rs = r # rs'"
    by (auto simp: outcome_iff)
  have c: "read_command (concat (map request_bytes (q # qs)) @ tail)
      = Ok (request_command q, concat (map request_bytes qs) @ tail)"
    using Cons.prems(1) by (simp add: read_request)
  have "open_bin_loop env w (Suc i) s1 (concat (map request_bytes qs) @ tail) = (s', map BinResponse rs', StillReading)"
    using Cons.IH [OF _ d(2) rs'(1), of "Suc i"] Cons.prems(1) by simp
  with c d Cons.prems(1) assms(2) rs'(2) show ?case
    by (subst open_bin_loop.simps) (simp add: request_code)
qed

lemma starved_short: "length tail < 5 \<Longrightarrow> \<exists>e. read_command tail = Err e \<and> starved e"
  by (auto simp: read_command_def read_loop.simps [of None] read_frame_def read_full_def)

text \<open>C17: A peer that stays connected keeps its handler: after the commands it has sent were answered, in
  order and each as the handlers give it, the handler waits in \<open>ReadCommand\<close> for bytes that need not come,
  also in the middle of a frame; nothing else ends it. The same holds for a peer that has not sent the four
  bytes of the magic. \<open>Stop\<close> of the server waits for these handlers and closes no connection, so with one
  such peer it does not return, and the socket file is not removed.\<close>

theorem idle_peer_keeps_handler:
  assumes "\<forall>q \<in> set qs. request_ok q \<and> fst q \<noteq> CmdShutdown" and "\<And>i. w i" and "server_ok s"
    and "read_command tail = Err e" and "starved e" and "length few < 4"
    and "sent = ''BIN1'' @ string_of_bytes (concat (map request_bytes qs) @ tail)"
  shows "\<exists>s' rs. bin_front.run env s (map request_command qs) = Ok (s', rs) \<and> length rs = length qs
    \<and> serve_peer env w sizes s (True, sent) = (s', BinAck # map BinResponse rs, StillReading)
    \<and> serve_peer env w sizes s (True, few) = (s, [], StillReading)
    \<and> (\<forall>peer \<in> {sent, few}.
         server_stop (True # waits @ [snd (snd (serve_peer env w sizes s (True, peer))) \<noteq> StillReading]) srv = None)"
proof -
  obtain s' rs where run: "bin_front.run env s (map request_command qs) = Ok (s', rs)" "length rs = length qs"
    using bin_front.run_total [OF assms(3), of env "map request_command qs"] by auto
  have "take 4 sent = ''BIN1''" "drop 4 sent = string_of_bytes (concat (map request_bytes qs) @ tail)"
    "\<not> length sent < 4" by (simp_all add: assms(7))
  moreover note loop = open_loop_requests [where w = w and i = "Suc 0", OF assms(1-3) run(1) assms(4,5)]
  ultimately have served: "serve_peer env w sizes s (True, sent) = (s', BinAck # map BinResponse rs, StillReading)"
    by (simp add: serve_peer_def handle_open_def loop assms(2))
  have waits: "serve_peer env w sizes s (True, few) = (s, [], StillReading)"
    using assms(6) by (simp add: serve_peer_def handle_open_def)
  have "server_stop (True # waits @ [False]) srv = None" by (simp add: server_stop_def)
  with run served waits show ?thesis by simp
qed

theorem idle_peer_keeps_handler_witness:
  "\<exists>s' rs. serve_peer demo_senv (\<lambda>_. True) [] demo_server
       (True, ''BIN1'' @ string_of_bytes (request_bytes (CmdListDaemons, [], [])))
     = (s', BinAck # map BinResponse rs, StillReading) \<and> length rs = 1"
proof -
  have ok: "\<forall>q \<in> set [(CmdListDaemons, [], [])]. request_ok q \<and> fst q \<noteq> CmdShutdown"
    by (simp add: request_ok_def bin_consts)
  obtain e where "read_command [] = Err e" "starved e" using starved_short [of "[]"] by auto
  from idle_peer_keeps_handler [OF ok _ demo_server_ok this, where w = "\<lambda>_. True" and few = "[]" and env = demo_senv
      and sizes = "[]" and waits = "[]" and srv = "new_listener empty_config", OF TrueI _ refl]
  show ?thesis by fastforce
qed

section \<open>Laws about the server\<close>

lemma parse_loop_not_Panic: "parse_loop stack s \<noteq> Panic"
proof (induction stack s rule: parse_loop.induct)
  case (1 stack s)
  have val: "parse_text_value line \<noteq> Panic" for line by (simp add: parse_text_value_def split: option.split)
  show ?case
    by (subst parse_loop.simps) (auto simp: Let_def val "1.IH" split: option.split outcome.split)
qed

lemma parse_command_not_Panic: "parse_command p \<noteq> Panic"
  using parse_loop_not_Panic [of "[]" "tp_reader p"]
  by (cases "parse_loop [] (tp_reader p)") (auto simp: parse_command_def)

text \<open>What the abstract commands keep, every connection keeps.\<close>

locale server_law =
  fixes env :: server_env and law :: "server \<Rightarrow> bool"
  assumes law_ok: "law s \<Longrightarrow> server_ok s"
    and law_serve: "law s \<Longrightarrow> law (fst (serve env v named s))"
begin

lemma dispatch_kept:
  assumes "law s"
  shows "\<exists>s' r. dispatch env s c = Ok (s', r) \<and> law s'"
proof (cases "txt_verb c")
  case None
  with text_front.reads [OF None law_ok [OF assms], of env] assms show ?thesis by blast
next
  case (Some v)
  with text_front.refines [OF Some, of env s] law_serve [OF assms] show ?thesis by blast
qed

lemma dispatch_bin_kept:
  assumes "law s"
  shows "\<exists>s' r. dispatch_bin env s c = Ok (s', r) \<and> law s'"
proof (cases "bin_verb c")
  case None
  with bin_front.reads [OF None law_ok [OF assms], of env] assms show ?thesis by blast
next
  case (Some v)
  with bin_front.refines [OF Some, of env s] law_serve [OF assms] show ?thesis by blast
qed

lemma bin_loop_kept: "law s \<Longrightarrow> law (fst (bin_loop env w i s conn))"
proof (induction conn arbitrary: i s rule: length_induct)
  case (1 conn)
  show ?case
  proof (cases "read_command conn")
    case (Ok x)
    obtain cmd rest where x: "x = (cmd, rest)" by fastforce
    have short: "length rest < length conn"
      using Ok by (auto simp: x read_command_def dest: read_loop_shorter)
    obtain s1 r where d: "dispatch_bin env s cmd = Ok (s1, r)" "law s1"
      using dispatch_bin_kept [OF "1.prems"] by blast
    have "law (fst (bin_loop env w (Suc i) s1 rest))" using "1.IH" short d(2) by blast
    with Ok d "1.prems" show ?thesis
      by (subst bin_loop.simps) (simp add: x case_prod_beta Let_def)
  qed (use "1.prems" in \<open>subst bin_loop.simps, simp\<close>)+
qed

lemma text_loop_kept: "law s \<Longrightarrow> law (fst (text_loop env w i s p))"
proof (induction "length (tp_reader p)" arbitrary: i s p rule: less_induct)
  case less
  show ?case
  proof (cases "parse_command p")
    case (Ok x)
    obtain cmd p' where x: "x = (cmd, p')" by fastforce
    have short: "length (tp_reader p') < length (tp_reader p)"
      using Ok by (auto simp: x parse_command_def outcome_iff dest: parse_loop_length)
    obtain s1 r where d: "dispatch env s cmd = Ok (s1, r)" "law s1"
      using dispatch_kept [OF less.prems] by blast
    have "law (fst (text_loop env w (Suc i) s1 p'))" using less.hyps [OF short d(2)] .
    with Ok d less.prems show ?thesis
      by (subst text_loop.simps) (simp add: x case_prod_beta Let_def)
  qed (use less.prems in \<open>subst text_loop.simps, simp\<close>)+
qed

lemma handle_connection_kept: "law s \<Longrightarrow> law (fst (handle_connection env w sizes s conn))"
  using bin_loop_kept [of s w] text_loop_kept [of s w]
  by (simp add: handle_connection_def case_prod_beta Let_def split: outcome.split)

lemma bin_loop_crash: "law s \<Longrightarrow> snd (snd (bin_loop env w i s conn)) = Crashed \<Longrightarrow> 65541 \<le> length conn"
proof (induction conn arbitrary: i s rule: length_induct)
  case (1 conn)
  show ?case
  proof (cases "read_command conn")
    case (Ok x)
    obtain cmd rest where x: "x = (cmd, rest)" by fastforce
    have short: "length rest < length conn"
      using Ok by (auto simp: x read_command_def dest: read_loop_shorter)
    obtain s1 r where d: "dispatch_bin env s cmd = Ok (s1, r)" "law s1"
      using dispatch_bin_kept [OF "1.prems"(1)] by blast
    have "snd (snd (bin_loop env w (Suc i) s1 rest)) = Crashed"
      using "1.prems"(2) Ok d by (subst (asm) bin_loop.simps) (auto simp: x case_prod_beta Let_def split: if_splits)
    with "1.IH" short d(2) show ?thesis by fastforce
  next
    case (Err e)
    with "1.prems"(2) show ?thesis by (subst (asm) bin_loop.simps) simp
  next
    case Panic
    then show ?thesis using read_loop_Panic [of None None "[]" conn] by (simp add: read_command_def)
  qed
qed

lemma text_loop_crash: "law s \<Longrightarrow> snd (snd (text_loop env w i s p)) \<noteq> Crashed"
proof (induction "length (tp_reader p)" arbitrary: i s p rule: less_induct)
  case less
  show ?case
  proof (cases "parse_command p")
    case (Ok x)
    obtain cmd p' where x: "x = (cmd, p')" by fastforce
    have short: "length (tp_reader p') < length (tp_reader p)"
      using Ok by (auto simp: x parse_command_def outcome_iff dest: parse_loop_length)
    obtain s1 r where d: "dispatch env s cmd = Ok (s1, r)" "law s1"
      using dispatch_kept [OF less.prems] by blast
    have "snd (snd (text_loop env w (Suc i) s1 p')) \<noteq> Crashed" using less.hyps [OF short d(2)] .
    with Ok d show ?thesis
      by (subst text_loop.simps) (simp add: x case_prod_beta Let_def)
  next
    case Panic
    then show ?thesis by (simp add: parse_command_not_Panic)
  qed (subst text_loop.simps, simp)
qed

text \<open>A handler panics only on more than 64 KiB sent in the binary mode.\<close>

lemma handle_connection_crash:
  assumes "law s" and "snd (snd (handle_connection env w sizes s conn)) = Crashed"
  shows "take 4 conn = ''BIN1'' \<and> 65545 \<le> length conn"
proof -
  have four: "4 \<le> length conn"
  proof (rule ccontr)
    assume "\<not> 4 \<le> length conn"
    then have "\<exists>e. read_full 4 conn = Err e" by (simp add: read_full_def)
    with assms(2) show False by (auto simp: handle_connection_def)
  qed
  then have r: "read_full 4 conn = Ok (take 4 conn, drop 4 conn)" by (simp add: read_full_def)
  show ?thesis
  proof (cases "take 4 conn = ''BIN1''")
    case True
    then have "snd (snd (bin_loop env w (Suc 0) s (bytes_of_string (drop 4 conn)))) = Crashed"
      using assms(2) by (auto simp: handle_connection_def r case_prod_beta Let_def split: if_splits)
    with bin_loop_crash [OF assms(1)] have "65541 \<le> length (bytes_of_string (drop 4 conn))" by blast
    with True show ?thesis by simp
  next
    case False
    have "snd (snd (text_loop env w 0 s p)) \<noteq> Crashed" for p by (rule text_loop_crash [OF assms(1)])
    moreover have "new_parser t \<noteq> Panic" for t by (simp add: new_parser_def Let_def split: outcome.split)
    ultimately show ?thesis
      using assms(2) False
      by (auto simp: handle_connection_def r case_prod_beta Let_def split: outcome.splits if_splits)
  qed
qed

lemma serve_peer_crash:
  assumes "law s" and "snd (snd (serve_peer env w sizes s peer)) = Crashed"
  shows "take 4 (snd peer) = ''BIN1'' \<and> 65545 \<le> length (snd peer)"
proof -
  obtain s' es ending where o: "handle_open env w sizes s (snd peer) = (s', es, ending)" by (metis prod_cases3)
  have "snd (snd (handle_connection env w sizes s (snd peer))) = Crashed"
    using assms(2) handle_open_cases [OF o] o by (auto simp: serve_peer_def split: prod.splits if_splits)
  then show ?thesis by (rule handle_connection_crash [OF assms(1)])
qed

lemma serve_peer_kept: "law s \<Longrightarrow> law (fst (serve_peer env w sizes s peer))"
proof -
  assume "law s"
  obtain stays conn where p: "peer = (stays, conn)" by fastforce
  obtain s' es ending where o: "handle_open env w sizes s conn = (s', es, ending)" by (metis prod_cases3)
  then have "fst (handle_connection env w sizes s conn) = s'"
    using handle_open_cases [OF o] by auto
  with handle_connection_kept [OF \<open>law s\<close>, of w sizes conn] o show ?thesis
    by (auto simp: serve_peer_def p)
qed

end

definition configured_server :: "program_config set \<Rightarrow> server \<Rightarrow> bool" where
  "configured_server C s \<longleftrightarrow> server_ok s \<and> pred_option (pm_all (\<lambda>_ p. p_config p \<in> C)) (s_pm s)"

lemma serve_daemon_pm: "s_pm (fst (serve_daemon env v name s)) = s_pm s"
  by (simp add: serve_daemon_def mark_ready_def Let_def split: option.split prod.split)

lemma serve_program_pm:
  assumes "pm_all (\<lambda>_ p. p_config p \<in> C) m"
  shows "pred_option (pm_all (\<lambda>_ p. p_config p \<in> C)) (s_pm (fst (serve_program env v name m s)))"
  using configured.start_program_kept [OF assms] configured.stop_program_kept [OF assms]
  by (simp add: serve_program_def case_prod_beta Let_def)

interpretation configured_serve: server_law env "configured_server C"
proof
  fix s v named assume ok: "configured_server C s"
  then have "pred_option (pm_all (\<lambda>_ p. p_config p \<in> C)) (s_pm (fst (serve env v named s)))"
    by (auto simp: configured_server_def serve_def serve_daemon_pm serve_program_pm split: option.split)
  with ok serve_ok show "configured_server C (fst (serve env v named s))"
    by (simp add: configured_server_def)
qed (simp add: configured_server_def)

end
