(* ===== verification/Kerno_Events.thy ===== *)
theory Kerno_Events
  imports Orchestrator Server_Peers
begin

text \<open>
  The running program. Between startup and shutdown the goroutines of the components share the managers:
  the handlers of the management server, the monitors of daemons, programs and the session WM, the health
  checks and the configuration watcher. An event is what one of them does from one wait to its next, and
  the program's life is a list of events in the order in which they take effect. The waits of the monitors
  and health checks are where other events come between: each of them is split there, and put together
  again is the operation of its component.
\<close>

section \<open>Operations split at their waits\<close>

text \<open>\<open>monitorDaemon\<close> from the end of the process to the backoff, and from its end on.\<close>

definition monitor_exit :: "dm_env \<Rightarrow> dm \<Rightarrow> bool \<Rightarrow> string \<Rightarrow> dm \<Rightarrow> dm \<times> duration option" where
  "monitor_exit env m0 failed name m =
     (case (dm_get m0 name, dm_get m name) of
        (Some d0, Some d) \<Rightarrow>
          if d_cmd d0 = None then (m, None)
          else if \<not> should_restart (d_restart_count d) (dc_restart (d_config d)) failed
          then (dm_modify name (monitor_clear (dm_clock m) \<circ> set_state DaemonStopped)
                  (dm_emit (close_writers d) m), None)
          else if e_cancelled env (dm_clock m) then (m, None)
          else (m, Some (next_restart_delay (e_ovf env) (d_restart_count d)))
      | _ \<Rightarrow> (m, None))"

definition monitor_wake :: "dm_env \<Rightarrow> duration \<Rightarrow> string \<Rightarrow> dm \<Rightarrow> dm" where
  "monitor_wake env delay name m =
     (case dm_get m name of
        None \<Rightarrow> m
      | Some d \<Rightarrow>
          (case dm_start env name
                  (dm_modify name monitor_rearm (dm_emit (BackedOff name delay # close_writers d) m)) of
             (m2, None) \<Rightarrow> m2
           | (m2, Some e) \<Rightarrow> dm_modify name (set_state DaemonFailed) m2))"

text \<open>\<open>monitor\<close> of the session WM.\<close>

definition wm_exit :: "wm_env \<Rightarrow> wm \<Rightarrow> bool \<Rightarrow> wm \<Rightarrow> wm \<times> duration option" where
  "wm_exit env m0 failed m =
     (if w_cmd m0 = None then (m, None)
      else
        let m1 = m\<lparr>w_cmd := None, w_pid := 0, w_pgid := 0\<rparr>
        in if w_stopping m then (wm_set StateStopped m1, None)
           else if \<not> wm_should_restart (wc_restart (w_cfg m)) failed
           then (wm_set (if failed then StateFailed else StateStopped) m1, None)
           else if we_cancelled env (w_clock m) then (wm_set StateStopped m1, None)
           else let delay = wm_next_restart_delay (we_ovf env) (w_restart_count m)
                in (wm_emit [WmBackedOff delay] m1, Some delay))"

definition wm_wake :: "wm_env \<Rightarrow> wm \<Rightarrow> wm" where
  "wm_wake env m =
     (if w_stopping m then wm_set StateStopped m
      else case wm_start_process env (wm_count_restart m) of
             (m3, None) \<Rightarrow> m3
           | (m3, Some e) \<Rightarrow> wm_set StateFailed m3)"

text \<open>\<open>RunHealthCheck\<close> up to its first attempt, and from the last one on.\<close>

definition health_begin :: "string \<Rightarrow> pm \<Rightarrow> pm" where
  "health_begin name m =
     (case pm_get m name of
        None \<Rightarrow> m
      | Some p \<Rightarrow>
          if pc_health_check (p_config p) = [] then pm_modify name mark_healthy m
          else pm_modify name (\<lambda>p. p\<lparr>p_health := HealthChecking\<rparr>) m)"

definition health_end :: "string \<Rightarrow> health_result \<Rightarrow> pm \<Rightarrow> pm" where
  "health_end name result m =
     (case result of
        HealthPassed k \<Rightarrow> pm_modify name mark_healthy m
      | HealthCancelled k \<Rightarrow> m
      | HealthGaveUp k \<Rightarrow> pm_modify name (\<lambda>p. p\<lparr>p_health := HealthFailed, p_state := ProgHealthFailed\<rparr>) m)"

lemma monitor_daemon_split:
  "monitor_daemon env m0 failed name m =
     (case monitor_exit env m0 failed name m of
        (m1, None) \<Rightarrow> m1
      | (m1, Some delay) \<Rightarrow> monitor_wake env delay name (dm_at (dm_clock m1 + max 0 (sint delay)) m1))"
  by (simp add: monitor_daemon_def monitor_exit_def monitor_wake_def Let_def split: option.split)

lemma wm_emit_clock: "wm_emit es (m\<lparr>w_clock := t\<rparr>) = (wm_emit es m)\<lparr>w_clock := t\<rparr>"
  by (simp add: wm_emit_def)

lemma wm_monitor_split:
  "wm_monitor env m0 failed meanwhile m =
     (case wm_exit env m0 failed m of
        (m1, None) \<Rightarrow> m1
      | (m1, Some delay) \<Rightarrow> wm_wake env (meanwhile (m1\<lparr>w_clock := w_clock m1 + max 0 (sint delay)\<rparr>)))"
proof -
  have "w_clock (wm_emit es m1) = w_clock m1" for es m1 by (simp add: wm_emit_def)
  then show ?thesis by (simp add: wm_monitor_def wm_exit_def wm_wake_def Let_def wm_emit_clock)
qed

lemma run_health_check_split:
  assumes "pm_get m name = Some p" and "pc_health_check (p_config p) \<noteq> []"
  shows "run_health_check halted passes meanwhile name m =
    (let r = health_attempts halted (passes (health_timeout (p_config p))) 0 (health_retries (p_config p))
     in (health_end name r (meanwhile (health_begin name m)), r))"
  using assms by (simp add: run_health_check_def health_begin_def health_end_def Let_def split: health_result.split)

section \<open>State and events\<close>

text \<open>The managers as the orchestrator holds them; whether the server's context is cancelled; the
  connections accepted, each with the state of the server it came in and its peer; and the managers as they
  were after each earlier event, the latest first, since a monitor goes by what it read when it began. A
  monitor of a daemon has the context of the call of \<open>Start\<close> that launched it: that of an error group, of the
  server or of the watcher.\<close>

record kerno =
  k_orch :: orch
  k_cancelled :: bool
  k_conns :: "((nat \<Rightarrow> bool) \<times> server \<times> bool \<times> string) list"
  k_past :: "orch list"

datatype kerno_event =
    TimePasses nat
  | Connected "nat \<Rightarrow> bool" "nat list" "bool \<times> string"
  | Requested bin_command
  | DaemonExits nat "time \<Rightarrow> bool" bool string
  | DaemonWakes duration string
  | ProgramExits nat int string
  | HealthBegins string
  | HealthEnds string health_result
  | WmExits nat bool
  | WmWakes
  | ConfigChanged "daemon_config go_map \<Rightarrow> daemon_config go_map" "string list \<Rightarrow> string list" bool
      "daemon_config list option"

definition server_env_of :: "orch_env \<Rightarrow> server_env" where
  "server_env_of env = \<lparr>se_daemons = oe_dm env, se_programs = oe_pm env\<rparr>"

text \<open>The server the main program makes works on the same managers and registry.\<close>

definition server_of :: "kerno \<Rightarrow> server" where
  "server_of k =
     (let x = k_orch k
      in \<lparr>s_manager = dm_at (o_clock x) (o_dm x), s_pm = Some (pm_at (o_clock x) (o_pm x)),
          s_features = Some (o_features x), s_cancelled = k_cancelled k\<rparr>)"

definition put_server :: "server \<Rightarrow> kerno \<Rightarrow> kerno" where
  "put_server s k =
     (let x = k_orch k;
          m = s_manager s;
          p = (case s_pm s of None \<Rightarrow> o_pm x | Some p \<Rightarrow> p);
          f = (case s_features s of None \<Rightarrow> o_features x | Some f \<Rightarrow> f)
      in k\<lparr>k_cancelled := s_cancelled s,
           k_orch := x\<lparr>o_dm := m, o_pm := p, o_features := f, o_clock := max (dm_clock m) (pm_clock p),
             o_log := o_log x @ map DE (drop (length (dm_trace (o_dm x))) (dm_trace m))
                        @ map PE (drop (length (pm_trace (o_pm x))) (pm_trace p))\<rparr>\<rparr>)"

definition began :: "nat \<Rightarrow> kerno \<Rightarrow> orch" where
  "began n k = (if n < length (k_past k) then k_past k ! n else k_orch k)"

definition with_orch :: "(orch \<Rightarrow> orch) \<Rightarrow> kerno \<Rightarrow> kerno" where
  "with_orch f k = k\<lparr>k_orch := f (k_orch k)\<rparr>"

definition in_dm :: "(dm \<Rightarrow> dm) \<Rightarrow> kerno \<Rightarrow> kerno" where
  "in_dm f = with_orch (\<lambda>x. fst (on_dm (\<lambda>m. (f m, None)) x))"

definition in_pm :: "(pm \<Rightarrow> pm) \<Rightarrow> kerno \<Rightarrow> kerno" where
  "in_pm f = with_orch (\<lambda>x. fst (on_pm (\<lambda>m. (f m, None)) x))"

definition in_wm :: "(wm \<Rightarrow> wm) \<Rightarrow> kerno \<Rightarrow> kerno" where
  "in_wm f = with_orch (\<lambda>x. fst (on_wm (\<lambda>m. (f m, None)) x))"

text \<open>One event; None when a goroutine panics, which ends the program.\<close>

fun handle_event :: "orch_env \<Rightarrow> kerno_event \<Rightarrow> kerno \<Rightarrow> kerno option" where
  "handle_event env (TimePasses n) k =
     Some (with_orch (\<lambda>x. x\<lparr>o_clock := o_clock x + int n\<rparr>) k)"
| "handle_event env (Connected w sizes peer) k =
     (case serve_peer (server_env_of env) w sizes (server_of k) peer of
        (s, es, ending) \<Rightarrow>
          if ending = Crashed then None
          else Some (put_server s (k\<lparr>k_conns := k_conns k @ [(w, server_of k, peer)]\<rparr>)))"
| "handle_event env (Requested c) k =
     (case dispatch_bin (server_env_of env) (server_of k) c of
        Ok (s, r) \<Rightarrow> Some (put_server s k)
      | _ \<Rightarrow> None)"
| "handle_event env (DaemonExits n ctx failed name) k =
     Some (in_dm (\<lambda>m. fst (monitor_exit ((oe_dm env)\<lparr>e_cancelled := ctx\<rparr>) (o_dm (began n k)) failed name m)) k)"
| "handle_event env (DaemonWakes delay name) k = Some (in_dm (monitor_wake (oe_dm env) delay name) k)"
| "handle_event env (ProgramExits n code name) k =
     Some (in_pm (monitor_program (o_pm (began n k)) code name) k)"
| "handle_event env (HealthBegins name) k = Some (in_pm (health_begin name) k)"
| "handle_event env (HealthEnds name r) k = Some (in_pm (health_end name r) k)"
| "handle_event env (WmExits n failed) k =
     Some (in_wm (\<lambda>m. fst (wm_exit (oe_wm env) (o_wm (began n k)) failed m)) k)"
| "handle_event env WmWakes k = Some (in_wm (wm_wake (oe_wm env)) k)"
| "handle_event env (ConfigChanged ra rr exists loaded) k =
     Some (in_dm (\<lambda>m. fst (reload_config (oe_dm env) ra rr exists loaded m)) k)"

fun run_events :: "orch_env \<Rightarrow> kerno_event list \<Rightarrow> kerno \<Rightarrow> kerno option" where
  "run_events env [] k = Some k"
| "run_events env (e # es) k =
     (case handle_event env e k of
        None \<Rightarrow> None
      | Some k1 \<Rightarrow> run_events env es (k1\<lparr>k_past := k_orch k1 # k_past k1\<rparr>))"

section \<open>What every event keeps\<close>

definition kerno_ok :: "program_config set \<Rightarrow> orch \<Rightarrow> bool" where
  "kerno_ok C x \<longleftrightarrow> dm_inv (o_dm x) \<and> pm_inv (o_pm x) \<and> wm_inv (o_wm x) \<and> registry_ok (o_features x)
     \<and> pm_all (\<lambda>_ p. p_config p \<in> C) (o_pm x)"

lemma kerno_ok_clock [simp]: "kerno_ok C (x\<lparr>o_clock := t\<rparr>) = kerno_ok C x"
  by (simp add: kerno_ok_def)

lemma monitor_exit_inv: "dm_inv m \<Longrightarrow> dm_inv (fst (monitor_exit env m0 failed name m))"
proof -
  assume inv: "dm_inv m"
  have "dm_inv (dm_modify name (monitor_clear t \<circ> set_state DaemonStopped) (dm_emit es m))" for t es
    using inv by (intro modify_inv) (simp_all add: clear_ok)
  with inv show ?thesis by (simp add: monitor_exit_def split: option.split)
qed

lemma monitor_wake_inv: "dm_inv m \<Longrightarrow> dm_inv (monitor_wake env delay name m)"
proof -
  assume inv: "dm_inv m"
  have restarted: "dm_inv (case dm_start env name m1 of (m2, None) \<Rightarrow> m2
      | (m2, Some e) \<Rightarrow> dm_modify name (set_state DaemonFailed) m2)" if "dm_inv m1" for m1
    using start_inv [OF that, of env name]
    by (auto simp: modify_inv failed_ok split: prod.split option.split)
  have "dm_inv (dm_modify name monitor_rearm (dm_emit es m))" for es
    using inv by (intro modify_inv rearm_ok) simp_all
  note restart = restarted [OF this]
  with inv show ?thesis by (simp add: monitor_wake_def split: option.split)
qed

lemma wm_exit_inv: "wm_inv m \<Longrightarrow> wm_inv (fst (wm_exit env m0 failed m))"
  by (simp add: wm_exit_def wm_inv_def wm_sections Let_def)

lemma wm_wake_inv: "wm_inv m \<Longrightarrow> wm_inv (wm_wake env m)"
proof -
  assume inv: "wm_inv m"
  then have "wm_inv (wm_count_restart m)" by (simp add: wm_inv_def wm_count_restart_def)
  then have "wm_inv (fst (wm_start_process env (wm_count_restart m)))" by (rule start_process_inv)
  moreover have "wm_inv m' \<Longrightarrow> wm_inv (wm_set StateFailed m')" for m' by (simp add: wm_inv_def wm_set_def)
  ultimately show ?thesis
    using inv by (auto simp: wm_wake_def wm_inv_def wm_set_def split: option.split prod.split)
qed

lemma reload_inv: "dm_inv m \<Longrightarrow> dm_inv (fst (reload_config env ra rr exists loaded m))"
  by (simp add: reload_config_def Let_def configs_inv add_inv remove_inv split: option.split)

text \<open>The health check's two halves keep every law the sections keep.\<close>

context program_law
begin

lemma health_begin_kept: "pm_all law m \<Longrightarrow> pm_all law (health_begin name m)"
  by (auto simp: health_begin_def intro!: sections split: option.split)

lemma health_end_kept: "pm_all law m \<Longrightarrow> pm_all law (health_end name r m)"
  by (auto simp: health_end_def intro!: sections split: health_result.split)

end

lemma in_dm_ok: "kerno_ok C (k_orch k) \<Longrightarrow> (\<And>m. dm_inv m \<Longrightarrow> dm_inv (f m)) \<Longrightarrow> kerno_ok C (k_orch (in_dm f k))"
  by (simp add: in_dm_def with_orch_def on_dm_def kerno_ok_def)

lemma in_wm_ok: "kerno_ok C (k_orch k) \<Longrightarrow> (\<And>m. wm_inv m \<Longrightarrow> wm_inv (f m)) \<Longrightarrow> kerno_ok C (k_orch (in_wm f k))"
  by (simp add: in_wm_def with_orch_def on_wm_def kerno_ok_def wm_inv_def)

lemma in_pm_ok:
  "kerno_ok C (k_orch k) \<Longrightarrow> (\<And>m. pm_inv m \<Longrightarrow> pm_inv (f m))
   \<Longrightarrow> (\<And>m. pm_all (\<lambda>_ p. p_config p \<in> C) m \<Longrightarrow> pm_all (\<lambda>_ p. p_config p \<in> C) (f m))
   \<Longrightarrow> kerno_ok C (k_orch (in_pm f k))"
  by (simp add: in_pm_def with_orch_def on_pm_def kerno_ok_def)

lemma server_of_ok: "kerno_ok C (k_orch k) \<Longrightarrow> configured_server C (server_of k)"
  by (simp add: kerno_ok_def configured_server_def server_ok_def server_of_def Let_def)

lemma put_server_ok: "kerno_ok C (k_orch k) \<Longrightarrow> configured_server C s \<Longrightarrow> kerno_ok C (k_orch (put_server s k))"
  by (auto simp: kerno_ok_def configured_server_def server_ok_def put_server_def Let_def split: option.split)

lemma handle_event_ok:
  assumes "kerno_ok C (k_orch k)" and "handle_event env e k = Some k'"
  shows "kerno_ok C (k_orch k')"
proof (cases e)
  case (Connected w sizes peer)
  then have "k' = put_server (fst (serve_peer (server_env_of env) w sizes (server_of k) peer))
      (k\<lparr>k_conns := k_conns k @ [(w, server_of k, peer)]\<rparr>)"
    using assms(2) by (auto split: prod.splits if_splits)
  with configured_serve.serve_peer_kept [OF server_of_ok [OF assms(1)]] assms(1) show ?thesis
    by (simp add: put_server_ok)
next
  case (Requested c)
  from configured_serve.dispatch_bin_kept [OF server_of_ok [OF assms(1)], of "server_env_of env" c]
  obtain s r where "dispatch_bin (server_env_of env) (server_of k) c = Ok (s, r)" "configured_server C s"
    by blast
  with Requested assms show ?thesis by (auto intro: put_server_ok)
qed (use assms in \<open>auto simp: with_orch_def intro: in_dm_ok in_wm_ok in_pm_ok monitor_exit_inv
    monitor_wake_inv wm_exit_inv wm_wake_inv reload_inv monitor_program_inv configured.monitor_program_kept
    configured.health_begin_kept configured.health_end_kept well_formed.health_begin_kept [folded pm_inv_all]
    well_formed.health_end_kept [folded pm_inv_all]\<close>)

end
