(* ===== verification/Kerno_Life.thy ===== *)
theory Kerno_Life
  imports Boot Kerno_Events "HOL-Library.Sublist"
begin

text \<open>
  The life of the whole program, \<open>run\<close> of \<open>cmd/a-kerno/main.go\<close>: from the environment and the files over
  the startup and the events of a session to the exit code.
\<close>

section \<open>From the boot to the end\<close>

datatype life_end = Exits int | Hangs | Crashes

text \<open>A handler ends when some number of reads is enough for it.\<close>

definition peer_ends :: "server_env \<Rightarrow> (nat \<Rightarrow> bool) \<times> server \<times> bool \<times> string \<Rightarrow> bool" where
  "peer_ends env c \<longleftrightarrow>
     (case c of (w, s, peer) \<Rightarrow> \<exists>ns. snd (snd (serve_peer env w (4096 # ns) s peer)) \<noteq> StillReading)"

definition session_start :: "orch \<Rightarrow> kerno" where
  "session_start x = \<lparr>k_orch = x, k_cancelled = False, k_conns = [], k_past = [x]\<rparr>"

text \<open>The state in which the program waits for its end, if it gets there.\<close>

definition kerno_up :: "boot_env \<Rightarrow> time \<Rightarrow> orch_env \<Rightarrow> bool \<Rightarrow> orch option" where
  "kerno_up b now env listening =
     (case boot b now of
        None \<Rightarrow> None
      | Some x \<Rightarrow> if listening \<and> snd (orch_run env x) = None then Some (fst (orch_run env x)) else None)"

text \<open>The state at the end and how it ends. The server's \<open>Stop\<close> returns if every handler ends.\<close>

definition kerno_life ::
  "boot_env \<Rightarrow> time \<Rightarrow> orch_env \<Rightarrow> bool \<Rightarrow> kerno_event list \<Rightarrow> orch option \<times> life_end" where
  "kerno_life b now env listening es =
     (case boot b now of
        None \<Rightarrow> (None, Exits 1)
      | Some x \<Rightarrow>
          (case (if kerno_up b now env listening = None then Some (session_start x)
                 else run_events env es (session_start (fst (orch_run env x)))) of
             None \<Rightarrow> (None, Crashes)
           | Some k \<Rightarrow>
               (case kerno_main env listening (\<lambda>_. k_orch k)
                       (\<forall>c \<in> set (k_conns k). peer_ends (server_env_of env) c) x of
                  (x', None) \<Rightarrow> (Some x', Hangs)
                | (x', Some code) \<Rightarrow> (Some x', Exits code))))"

section \<open>What the startup and the events keep\<close>

lemma register_features_ok: "registry_ok r \<Longrightarrow> registry_ok (register_features ds r)"
  by (induction ds arbitrary: r) (simp_all add: Let_def registry_ok_register registry_ok_set_ready)

lemma run_phase_ok: "kerno_ok C x \<Longrightarrow> kerno_ok C (fst (run_phase env phase x))"
  using start_phase_inv [of "pm_at (o_clock x) (o_pm x)"]
    configured.start_phase_kept [of C "pm_at (o_clock x) (o_pm x)"]
  by (simp add: run_phase_def on_pm_def kerno_ok_def case_prod_beta Let_def)

lemma start_all_ok: "kerno_ok C x \<Longrightarrow> kerno_ok C (fst (on_dm (dm_start_all env eg srt) x))"
  using dm_inv_all_started [of "dm_at (o_clock x) (o_dm x)"]
  by (simp add: on_dm_def kerno_ok_def case_prod_beta Let_def)

lemma wm_start_ok: "kerno_ok C x \<Longrightarrow> kerno_ok C (fst (on_wm (wm_start env) x))"
  using wm_start_inv [of "(o_wm x)\<lparr>w_clock := o_clock x\<rparr>"]
  by (simp add: on_wm_def kerno_ok_def case_prod_beta Let_def wm_inv_def)

lemma orch_run_ok:
  assumes "kerno_ok C x"
  shows "kerno_ok C (fst (orch_run env x))"
proof -
  obtain x2 u2 where 2: "on_dm (dm_start_all (oe_dm env) (oe_dgroup env) (oe_up env))
      (fst (run_phase env phase_early x)) = (x2, u2)" by fastforce
  let ?x3 = "x2\<lparr>o_features := register_features (dm_list (o_dm x2)) (o_features x2)\<rparr>"
  obtain x4 u4 where 4: "on_wm (wm_start (oe_wm env)) ?x3 = (x4, u4)" by fastforce
  have ok2: "kerno_ok C x2" using start_all_ok [OF run_phase_ok [OF assms]] 2 by (metis fst_conv)
  then have "kerno_ok C ?x3" by (simp add: kerno_ok_def register_features_ok)
  then have "kerno_ok C x4" using wm_start_ok 4 by (metis fst_conv)
  with ok2 run_phase_ok [of C x4 env phase_post] 2 4 show ?thesis
    by (simp add: orch_run_def Let_def split: option.split)
qed

lemma run_events_ok:
  "kerno_ok C (k_orch k) \<Longrightarrow> run_events env es k = Some k' \<Longrightarrow> kerno_ok C (k_orch k')"
proof (induction es arbitrary: k)
  case (Cons e es)
  then obtain k1 where k1: "handle_event env e k = Some k1" by (auto split: option.splits)
  with Cons.IH [of "k1\<lparr>k_past := k_orch k1 # k_past k1\<rparr>"] Cons.prems handle_event_ok [OF Cons.prems(1) k1]
  show ?case by simp
qed simp

text \<open>A program that crashes does so in the handler of a connection.\<close>

lemma handle_event_None:
  assumes "kerno_ok C (k_orch k)" and "handle_event env e k = None"
  shows "\<exists>w sizes peer. e = Connected w sizes peer
    \<and> snd (snd (serve_peer (server_env_of env) w sizes (server_of k) peer)) = Crashed"
proof (cases e)
  case (Requested c)
  with configured_serve.dispatch_bin_kept [OF server_of_ok [OF assms(1)], of "server_env_of env" c] assms(2)
  show ?thesis by fastforce
qed (use assms(2) in \<open>auto split: prod.splits if_splits\<close>)

lemma run_events_None:
  "kerno_ok C (k_orch k) \<Longrightarrow> run_events env es k = None \<Longrightarrow>
     \<exists>before w sizes peer k1. prefix (before @ [Connected w sizes peer]) es \<and> run_events env before k = Some k1
       \<and> snd (snd (serve_peer (server_env_of env) w sizes (server_of k1) peer)) = Crashed"
proof (induction es arbitrary: k)
  case (Cons e es)
  show ?case
  proof (cases "handle_event env e k")
    case None
    from handle_event_None [OF Cons.prems(1) None] obtain w sizes peer where
      "e = Connected w sizes peer" "snd (snd (serve_peer (server_env_of env) w sizes (server_of k) peer)) = Crashed"
      by blast
    then show ?thesis
      by (intro exI [of _ "[]"] exI [of _ w] exI [of _ sizes] exI [of _ peer] exI [of _ k]) simp
  next
    case (Some k1)
    let ?k1 = "k1\<lparr>k_past := k_orch k1 # k_past k1\<rparr>"
    obtain before w sizes peer k2 where
      "prefix (before @ [Connected w sizes peer]) es" "run_events env before ?k1 = Some k2"
      "snd (snd (serve_peer (server_env_of env) w sizes (server_of k2) peer)) = Crashed"
      using Cons.IH [of ?k1] Cons.prems Some handle_event_ok [OF Cons.prems(1) Some] by auto
    with Some show ?thesis
      by (intro exI [of _ "e # before"] exI [of _ w] exI [of _ sizes] exI [of _ peer] exI [of _ k2]) simp
  qed
qed simp

section \<open>How the program ends\<close>

lemma boot_ok:
  assumes "boot b now = Some x" and "go_sort program_key (be_program_sort b)"
  shows "kerno_ok {pc. program_config_ok pc} x"
proof -
  from boot_Some [OF assms(1)] obtain cfg uid home where
    x: "x = \<lparr>o_dm = new_daemon_manager (boot_daemons b cfg uid home) now,
             o_pm = new_program_manager (boot_programs b cfg uid home) now,
             o_wm = new_wm (boot_wm b cfg uid home) now,
             o_features = new_registry, o_clock = now, o_log = []\<rparr>"
    by (auto simp: Let_def)
  have "pm_all (\<lambda>_ p. p_config p \<in> {pc. program_config_ok pc}) (new_program_manager (boot_programs b cfg uid home) now)"
    using boot_programs_ok [OF assms(2)] by (intro pm_all_new) (simp add: new_program_def)
  then show ?thesis
    by (simp add: x kerno_ok_def new_manager_inv new_manager_pm_inv registry_ok_new wm_inv_def new_wm_def)
qed

lemma orch_shutdown_configured:
  assumes "kerno_ok C x" and "orch_shutdown env x = (x', r)" and "pm_get (o_pm x') n = Some p"
  shows "p_config p \<in> C"
proof -
  have kept: "pm_all (\<lambda>_ p. p_config p \<in> C) (o_pm y')"
    if "on_pm (stop_phase penv phase) y = (y', u)" "pm_all (\<lambda>_ p. p_config p \<in> C) (o_pm y)" for penv phase y y' u
    using configured.stop_phase_kept [of C "pm_at (o_clock y) (o_pm y)" penv phase] that
    by (auto simp: on_pm_def split: prod.splits)
  obtain x1 u1 where 1: "on_pm (stop_phase (oe_pm env) phase_post) x = (x1, u1)" by fastforce
  obtain x2 u2 where 2: "on_wm (wm_stop (oe_wm env)) x1 = (x2, u2)" by fastforce
  obtain x3 u3 where 3: "on_dm (dm_stop_all (oe_dm env) (oe_down env)) x2 = (x3, u3)" by fastforce
  obtain x4 u4 where 4: "on_pm (stop_phase (oe_pm env) phase_early) x3 = (x4, u4)" by fastforce
  have "x' = x4" using assms(2) 1 2 3 4 by (auto simp: orch_shutdown_def Let_def)
  moreover have "o_pm x3 = o_pm x1" using wm_stop_step [OF 2] stop_all_step [OF 3] by auto
  moreover have "pm_all (\<lambda>_ p. p_config p \<in> C) (o_pm x)" using assms(1) by (simp add: kerno_ok_def)
  ultimately have "pm_all (\<lambda>_ p. p_config p \<in> C) (o_pm x')" using kept [OF 1] kept [OF 4] by simp
  with assms(3) show ?thesis by (simp add: pm_all_def)
qed

text \<open>What a program that exits with 0 leaves behind.\<close>

definition all_down :: "orch \<Rightarrow> bool" where
  "all_down x \<longleftrightarrow>
     (\<forall>n p. pm_get (o_pm x) n = Some p \<longrightarrow> \<not> prog_is_running p)
     \<and> (\<forall>n d. dm_get (o_dm x) n = Some d \<and> dc_enabled (d_config d) \<longrightarrow> \<not> is_running d)
     \<and> (wm_enabled (o_wm x) \<longrightarrow> w_state (o_wm x) = StateStopped)"

lemma wm_stop_enabled: "wm_enabled (fst (wm_stop env m)) = wm_enabled m"
  by (simp add: wm_stop_def wm_enabled_def wm_sections Let_def split: stop_result.split prod.split)

lemma orch_shutdown_wm: "wm_enabled (o_wm (fst (orch_shutdown env x))) = wm_enabled (o_wm x)"
proof -
  obtain x1 u1 where 1: "on_pm (stop_phase (oe_pm env) phase_post) x = (x1, u1)" by fastforce
  obtain x2 u2 where 2: "on_wm (wm_stop (oe_wm env)) x1 = (x2, u2)" by fastforce
  obtain x3 u3 where 3: "on_dm (dm_stop_all (oe_dm env) (oe_down env)) x2 = (x3, u3)" by fastforce
  obtain x4 u4 where 4: "on_pm (stop_phase (oe_pm env) phase_early) x3 = (x4, u4)" by fastforce
  have "o_wm (fst (orch_shutdown env x)) = o_wm x2" "o_wm x1 = o_wm x"
    using stop_phase_step [OF 1] stop_all_step [OF 3] stop_phase_step [OF 4] 1 2 3 4
    by (auto simp: orch_shutdown_def Let_def)
  moreover have "wm_enabled (o_wm x2) = wm_enabled (o_wm x1)"
    using wm_stop_enabled [of "oe_wm env" "(o_wm x1)\<lparr>w_clock := o_clock x1\<rparr>"] 2
    by (auto simp: on_wm_def wm_enabled_def split: prod.splits)
  ultimately show ?thesis by simp
qed

lemma shutdown_all_down:
  assumes "kerno_ok {pc. program_config_ok pc} x" and "go_sort (\<lambda>e. - snd e) (oe_down env)"
    and "\<And>p. e_kill_ok (oe_dm env) p" and "\<And>p. pe_kill_ok (oe_pm env) p"
  shows "\<exists>x'. orch_shutdown (background env) x = (x', None) \<and> all_down x'"
proof -
  obtain x' r where sh: "orch_shutdown (background env) x = (x', r)" by fastforce
  have inv: "dm_inv (o_dm x)" "pm_inv (o_pm x)" using assms(1) by (simp_all add: kerno_ok_def)
  note down = orch_shutdown_result [OF inv assms(2) assms(3,4) sh]
  have "managed_phase p" if "pm_get (o_pm x') n = Some p" for n p
    using orch_shutdown_configured [OF assms(1) sh that]
    by (auto simp: program_config_ok_def managed_phase_def phase_or_default_def phase_early_def phase_post_def)
  with down sh orch_shutdown_wm [of "background env" x] show ?thesis by (auto simp: all_down_def)
qed

text \<open>When the program does not come up, and when an event crashes it.\<close>

lemma not_up_exits:
  assumes "kerno_up b now env listening = None" and "kerno_life b now env listening es = (xo, ending)"
  shows "ending = Exits 1"
proof (cases "boot b now")
  case (Some x)
  then have "\<not> listening \<or> snd (orch_run env x) \<noteq> None" using assms(1) by (auto simp: kerno_up_def split: if_splits)
  then show ?thesis
    using Some assms
    by (cases "orch_run env x") (auto simp: kerno_life_def kerno_main_def Let_def split: option.splits if_splits)
qed (use assms(2) in \<open>simp add: kerno_life_def\<close>)

lemma crash_by_peer:
  assumes ok: "kerno_ok {pc. program_config_ok pc} (k_orch k)" and none: "run_events env es k = None"
  shows "\<exists>w sizes peer. Connected w sizes peer \<in> set es \<and> take 4 (snd peer) = ''BIN1'' \<and> 65545 \<le> length (snd peer)"
proof -
  from run_events_None [OF ok none] obtain before w sizes peer k1 where
    at: "prefix (before @ [Connected w sizes peer]) es" "run_events env before k = Some k1"
      "snd (snd (serve_peer (server_env_of env) w sizes (server_of k1) peer)) = Crashed" by blast
  have "configured_server {pc. program_config_ok pc} (server_of k1)"
    by (rule server_of_ok [OF run_events_ok [OF ok at(2)]])
  from configured_serve.serve_peer_crash [OF this at(3)] at(1) have
    "Connected w sizes peer \<in> set es \<and> take 4 (snd peer) = ''BIN1'' \<and> 65545 \<le> length (snd peer)"
    by (auto simp: prefix_def)
  then show ?thesis by blast
qed


text \<open>A session of an empty home: it ends with 0, and hangs once a peer stays connected.\<close>

lemma empty_home_up: "kerno_up empty_home 1 demo_oenv True \<noteq> None"
  by code_simp


section \<open>Monitors during the shutdown\<close>

text \<open>Only a signal cancels the context of the monitors that the watcher's reloads launched; the shutdown
  command cancels the server's alone, and \<open>StopAll\<close> leaves the restart policies as they are.\<close>

lemma monitor_wake_runs:
  assumes "dm_get m name = Some d" and "d_state d = DaemonStopped" and "dc_socket (d_config d) = []"
    and "e_logdup env name (dm_clock m)" and "e_spawn env name (dm_clock m) = Some pid"
  shows "\<exists>d'. dm_get (monitor_wake env delay name m) name = Some d' \<and> is_running d' \<and> d_cmd d' = Some pid
    \<and> dm_trace (monitor_wake env delay name m)
      = dm_trace m @ (BackedOff name delay # close_writers d) @ [Spawned name pid, MonitorLaunched name]"
  using assms
  by (simp add: monitor_wake_def dm_start_def start_gate_def monitor_rearm_def dm_get_modify set_state_def
      record_process_def is_running_def Let_def)

text \<open>C10: A daemon that the shutdown has just stopped comes back when the context of its monitor is not
  done: the end of its process makes the monitor back off, and after the delay \<open>Start\<close> finds the daemon
  stopped and spawns it once more. The last step of the shutdown, which stops the early programs, leaves it
  running, and then the program exits.\<close>

theorem shutdown_races_monitor:
  assumes "dm_get (o_dm (k_orch k)) name = Some d" and "d_state d = DaemonStopped" and "dc_socket (d_config d) = []"
    and "dm_get (o_dm (began n k)) name = Some d0" and "d_cmd d0 \<noteq> None"
    and "should_restart (d_restart_count d) (dc_restart (d_config d)) failed"
    and "\<not> ctx (o_clock (k_orch k))" and "\<And>t. e_logdup (oe_dm env) name t"
    and "\<And>t. e_spawn (oe_dm env) name t = Some pid"
  defines "delay \<equiv> next_restart_delay (e_ovf (oe_dm env)) (d_restart_count d)"
  shows "\<exists>k'. run_events env [DaemonExits n ctx failed name, TimePasses t, DaemonWakes delay name] k = Some k'
    \<and> (\<exists>x es. fst (on_pm (stop_phase (oe_pm (background env)) phase_early) (k_orch k')) = x
        \<and> (\<exists>d'. dm_get (o_dm x) name = Some d' \<and> is_running d' \<and> d_cmd d' = Some pid)
        \<and> o_log x = o_log (k_orch k) @ map DE (BackedOff name delay # close_writers d
            @ [Spawned name pid, MonitorLaunched name]) @ map PE es)"
proof -
  let ?x = "k_orch k"
  let ?m = "dm_at (o_clock ?x + int t) (o_dm ?x)"
  let ?x3 = "?x\<lparr>o_dm := monitor_wake (oe_dm env) delay name ?m,
      o_clock := dm_clock (monitor_wake (oe_dm env) delay name ?m),
      o_log := o_log ?x @ map DE (drop (length (dm_trace (o_dm ?x))) (dm_trace (monitor_wake (oe_dm env) delay name ?m)))\<rparr>"
  have twice: "dm_at t2 (dm_at t1 m) = dm_at t2 m" for t1 t2 m by (simp add: dm_at_def)
  have g: "dm_get ?m name = Some d" using assms(1) by simp
  obtain d' where d': "dm_get (monitor_wake (oe_dm env) delay name ?m) name = Some d'" "is_running d'" "d_cmd d' = Some pid"
    and trace: "dm_trace (monitor_wake (oe_dm env) delay name ?m)
      = dm_trace ?m @ (BackedOff name delay # close_writers d) @ [Spawned name pid, MonitorLaunched name]"
    using monitor_wake_runs [OF g assms(2,3,8,9), of delay] by blast
  obtain k' where run: "run_events env [DaemonExits n ctx failed name, TimePasses t, DaemonWakes delay name] k = Some k'"
    and x3: "k_orch k' = ?x3"
    using assms(1,4-7)
    by (simp add: in_dm_def with_orch_def on_dm_def monitor_exit_def Let_def twice)
  obtain x u where on: "on_pm (stop_phase (oe_pm (background env)) phase_early) ?x3 = (x, u)" by fastforce
  from stop_phase_step [OF on] obtain es where
    "o_log x = o_log ?x3 @ map PE es" "o_dm x = monitor_wake (oe_dm env) delay name ?m" by auto
  with run x3 on d' trace show ?thesis by auto
qed

text \<open>The demonstration's daemon, just stopped by the shutdown.\<close>

definition stopped_session :: kerno where
  "stopped_session =
     (let m1 = fst (dm_start demo_env ''bus'' demo); m2 = fst (dm_stop demo_env ''bus'' m1)
      in \<lparr>k_orch = demo_orch\<lparr>o_dm := m2\<rparr>, k_cancelled = True, k_conns = [], k_past = [demo_orch\<lparr>o_dm := m1\<rparr>]\<rparr>)"

theorem shutdown_races_monitor_witness:
  "\<exists>k' d'. run_events demo_oenv [DaemonExits 0 (\<lambda>_. False) True ''bus'', TimePasses (nat (sec 1)),
        DaemonWakes (next_restart_delay 0 0) ''bus''] stopped_session = Some k'
     \<and> dm_get (o_dm (fst (on_pm (stop_phase (oe_pm (background demo_oenv)) phase_early) (k_orch k')))) ''bus'' = Some d'
     \<and> is_running d'"
proof -
  let ?m1 = "fst (dm_start demo_env ''bus'' demo)"
  let ?d = "set_state DaemonRunning (record_process 101 1 (set_state DaemonStarting (new_daemon bus_config)))"
  have g: "dm_get ?m1 ''bus'' = Some ?d" by (simp add: demo_start_bus dm_get_modify demo_simps)
  obtain m2 r where st: "dm_stop demo_env ''bus'' ?m1 = (m2, r)" by fastforce
  obtain w t where "stop_wait (e_alive demo_env (d_pgid ?d)) (e_cancelled demo_env) (e_lag demo_env) (dm_clock ?m1) = (w, t)"
    by fastforce
  moreover have "\<And>t. \<not> e_cancelled demo_env t" by (simp add: demo_simps)
  ultimately have "w \<noteq> Cancelled" "stop_wait (e_alive demo_env (d_pgid ?d)) (e_cancelled demo_env) (e_lag demo_env) (dm_clock ?m1) = (w, t)"
    using stop_wait_not_cancelled [of "e_cancelled demo_env"] by blast+
  then have "\<exists>t'. dm_get m2 ''bus'' = Some (cleanup_daemon t' ?d)"
    using stop_active [OF g] st g
    by (cases w) (auto simp: Let_def cleanup_get set_state_def demo_env_def split: if_splits)
  then obtain t' where g2: "dm_get (o_dm (k_orch stopped_session)) ''bus'' = Some (cleanup_daemon t' ?d)"
    using st by (auto simp: stopped_session_def Let_def)
  have past: "dm_get (o_dm (began 0 stopped_session)) ''bus'' = Some ?d"
    using g by (simp add: stopped_session_def Let_def began_def)
  have facts: "d_state (cleanup_daemon t' ?d) = DaemonStopped" "dc_socket (d_config (cleanup_daemon t' ?d)) = []"
    "d_cmd ?d \<noteq> None" "d_restart_count (cleanup_daemon t' ?d) = 0" "e_ovf (oe_dm demo_oenv) = 0"
    "should_restart (d_restart_count (cleanup_daemon t' ?d)) (dc_restart (d_config (cleanup_daemon t' ?d))) True"
    "e_logdup (oe_dm demo_oenv) ''bus'' u" "e_spawn (oe_dm demo_oenv) ''bus'' u = Some 101" for u
    by (simp_all add: cleanup_daemon_def set_state_def record_process_def new_daemon_def bus_config_def
        should_restart_def demo_oenv_def demo_env_def)
  from shutdown_races_monitor [OF g2 facts(1,2) past facts(3,6) _ facts(7,8), of "\<lambda>_. False" "nat (sec 1)"]
  show ?thesis by (auto simp: facts(4,5))
qed

end
