(* ===== verification/Process_Launch.thy ===== *)
theory Process_Launch
  imports Daemon_Lifecycle Program_Manager Session_WM
begin

text \<open>
  The commands the managers give to \<open>os/exec\<close>: the executable, its arguments and its environment, as
  \<open>Start\<close> of the daemons, \<open>StartProgram\<close> and \<open>executeHealthCheck\<close> of the programs and \<open>startProcess\<close> of the
  session WM build them. \<open>Cmd.Environ\<close> and \<open>Cmd.Start\<close> keep the last entry of each variable, as the
  documentation of \<open>Cmd.Env\<close> says.
\<close>

section \<open>Environments of \<open>os/exec\<close>\<close>

definition NUL :: char where "NUL = CHR 0x00"

text \<open>The variable an entry is for, if it has the form of one; a leading equals sign belongs to the name.\<close>

fun env_key :: "string \<Rightarrow> string option" where
  "env_key [] = None"
| "env_key (c # kv) =
     (if c = CHR ''='' then Some (if CHR ''='' \<in> set kv then c # takeWhile (\<lambda>x. x \<noteq> CHR ''='') kv else [])
      else if CHR ''='' \<in> set kv then Some (c # takeWhile (\<lambda>x. x \<noteq> CHR ''='') kv)
      else None)"

text \<open>\<open>dedupEnv\<close>, from the last entry to the first; entries with a zero byte are left out.\<close>

fun dedup_rev :: "string list \<Rightarrow> string list \<Rightarrow> string list" where
  "dedup_rev saw [] = []"
| "dedup_rev saw (kv # kvs) =
     (if NUL \<in> set kv then dedup_rev saw kvs
      else case env_key kv of
             None \<Rightarrow> if kv \<noteq> [] then kv # dedup_rev saw kvs else dedup_rev saw kvs
           | Some k \<Rightarrow> if k \<in> set saw then dedup_rev saw kvs else kv # dedup_rev (k # saw) kvs)"

definition dedup_env :: "string list \<Rightarrow> string list" where
  "dedup_env env = rev (dedup_rev [] (rev env))"

text \<open>\<open>Cmd.Start\<close> refuses an environment with a zero byte.\<close>

definition env_refused :: "string list \<Rightarrow> bool" where
  "env_refused env \<longleftrightarrow> (\<exists>kv \<in> set env. NUL \<in> set kv)"

text \<open>What a process finds under a name.\<close>

definition env_lookup :: "string list \<Rightarrow> string \<Rightarrow> string option" where
  "env_lookup env k = map_option (drop (Suc (length k))) (List.find (\<lambda>kv. env_key kv = Some k) env)"

section \<open>Commands\<close>

text \<open>The environment is None where \<open>cmd.Env\<close> stays nil.\<close>

record command =
  c_path :: string
  c_args :: "string list"
  c_env :: "string list option"

text \<open>The loop over the configured variables, in the order \<open>range\<close> gives them.\<close>

definition env_entry :: "string \<times> string \<Rightarrow> string" where
  "env_entry kv = fst kv @ ''='' @ snd kv"

definition command_env :: "string list \<Rightarrow> string go_map \<Rightarrow> string list option" where
  "command_env inherited vars =
     (if vars = [] then None else Some (dedup_env inherited @ map env_entry vars))"

definition daemon_command :: "string list \<Rightarrow> (string go_map \<Rightarrow> string go_map) \<Rightarrow> daemon_config \<Rightarrow> command" where
  "daemon_command inherited rng cfg =
     \<lparr>c_path = dc_exec cfg, c_args = [], c_env = command_env inherited (rng (dc_env cfg))\<rparr>"

definition program_command :: "string list \<Rightarrow> (string go_map \<Rightarrow> string go_map) \<Rightarrow> program_config \<Rightarrow> command" where
  "program_command inherited rng cfg =
     \<lparr>c_path = ''/bin/sh'', c_args = [''-c'', pc_exec cfg], c_env = command_env inherited (rng (pc_env cfg))\<rparr>"

definition health_command :: "string \<Rightarrow> command" where
  "health_command cmd = \<lparr>c_path = ''/bin/sh'', c_args = [''-c'', cmd], c_env = None\<rparr>"

definition wm_command :: "wm_config \<Rightarrow> command option" where
  "wm_command cfg =
     (case parse_spec (wc_spec cfg) of
        [] \<Rightarrow> None
      | name # args \<Rightarrow> Some \<lparr>c_path = name, c_args = args, c_env = None\<rparr>)"

text \<open>The environment the process is started with, or None when \<open>Cmd.Start\<close> refuses it.\<close>

definition process_env :: "string list \<Rightarrow> command \<Rightarrow> string list option" where
  "process_env inherited c =
     (let env = (case c_env c of None \<Rightarrow> inherited | Some env \<Rightarrow> env)
      in if env_refused env then None else Some (dedup_env env))"

section \<open>What a process finds in its environment\<close>

lemma find_unique:
  assumes "x \<in> set xs" and "P x" and "\<And>y. y \<in> set xs \<Longrightarrow> P y \<Longrightarrow> y = x"
  shows "List.find P xs = Some x"
  using assms
proof (induction xs)
  case (Cons a xs)
  show ?case
  proof (cases "P a")
    case True
    have "a = x" using Cons.prems(3) [OF _ True] by simp
    with True show ?thesis by simp
  next
    case False
    then have "x \<in> set xs" using Cons.prems(1,2) by auto
    moreover have "y = x" if "y \<in> set xs" "P y" for y using that by (intro Cons.prems(3)) simp_all
    ultimately have "List.find P xs = Some x" using Cons.prems(2) Cons.IH by blast
    with False show ?thesis by simp
  qed
qed simp

definition entry_of :: "string \<Rightarrow> string \<Rightarrow> bool" where
  "entry_of k kv \<longleftrightarrow> env_key kv = Some k \<and> NUL \<notin> set kv"

lemma dedup_rev_Cons:
  "dedup_rev saw (kv # kvs) = dedup_rev saw kvs \<and> (\<forall>k. entry_of k kv \<longrightarrow> k \<in> set saw)
   \<or> env_key kv = None \<and> dedup_rev saw (kv # kvs) = kv # dedup_rev saw kvs
   \<or> (\<exists>k. entry_of k kv \<and> k \<notin> set saw \<and> dedup_rev saw (kv # kvs) = kv # dedup_rev (k # saw) kvs)"
  by (simp add: entry_of_def split: option.split)

declare dedup_rev.simps(2) [simp del]

lemma entry_of_unique: "entry_of k kv \<Longrightarrow> entry_of k' kv \<Longrightarrow> k' = k"
  by (simp add: entry_of_def)

lemma dedup_rev_key:
  "x \<in> set (dedup_rev saw kvs) \<Longrightarrow> env_key x = Some k \<Longrightarrow> k \<notin> set saw \<and> List.find (entry_of k) kvs = Some x"
proof (induction kvs arbitrary: saw)
  case (Cons kv kvs)
  from dedup_rev_Cons [of saw kv kvs] show ?case
  proof (elim disjE exE conjE)
    assume "dedup_rev saw (kv # kvs) = dedup_rev saw kvs" "\<forall>k. entry_of k kv \<longrightarrow> k \<in> set saw"
    with Cons.IH [of saw] Cons.prems show ?thesis by auto
  next
    assume bare: "env_key kv = None" "dedup_rev saw (kv # kvs) = kv # dedup_rev saw kvs"
    then have "\<not> entry_of k kv" "x \<noteq> kv" using Cons.prems(2) by (auto simp: entry_of_def)
    with bare Cons.IH [of saw] Cons.prems show ?thesis by simp
  next
    fix k' assume keep: "entry_of k' kv" "k' \<notin> set saw"
      "dedup_rev saw (kv # kvs) = kv # dedup_rev (k' # saw) kvs"
    show ?thesis
    proof (cases "x = kv")
      case True
      with keep(1) Cons.prems(2) have "k' = k" by (simp add: entry_of_def)
      with keep True show ?thesis by simp
    next
      case False
      with keep(3) Cons.prems have "x \<in> set (dedup_rev (k' # saw) kvs)" by simp
      from Cons.IH [OF this Cons.prems(2)] show ?thesis using entry_of_unique [OF keep(1)] by auto
    qed
  qed
qed simp

lemma dedup_rev_find:
  "k \<notin> set saw \<Longrightarrow> List.find (entry_of k) kvs = Some x \<Longrightarrow> x \<in> set (dedup_rev saw kvs)"
proof (induction kvs arbitrary: saw)
  case (Cons kv kvs)
  show ?case
  proof (cases "entry_of k kv")
    case True
    with dedup_rev_Cons [of saw kv kvs] Cons.prems show ?thesis by (auto simp: entry_of_def)
  next
    case False
    then have rest: "List.find (entry_of k) kvs = Some x" using Cons.prems(2) by simp
    from dedup_rev_Cons [of saw kv kvs] show ?thesis
    proof (elim disjE exE conjE)
      fix k' assume "entry_of k' kv" "dedup_rev saw (kv # kvs) = kv # dedup_rev (k' # saw) kvs"
      with False Cons.IH [OF _ rest, of "k' # saw"] Cons.prems(1) show ?thesis by auto
    qed (use Cons.IH [OF Cons.prems(1) rest] in simp_all)
  qed
qed simp

text \<open>A process finds the last entry of a variable, and keeping it once more changes nothing.\<close>

lemma dedup_rev_finds: "List.find (entry_of k) (dedup_rev [] kvs) = List.find (entry_of k) kvs"
proof (cases "List.find (entry_of k) kvs")
  case None
  have "List.find (entry_of k) (dedup_rev [] kvs) = None"
    unfolding find_None_iff using dedup_rev_key [of _ "[]" kvs k] None by (auto simp: entry_of_def)
  with None show ?thesis by simp
next
  case (Some x)
  have "List.find (entry_of k) (dedup_rev [] kvs) = Some x"
  proof (rule find_unique)
    show "x \<in> set (dedup_rev [] kvs)" using dedup_rev_find [OF _ Some, of "[]"] by simp
    show "entry_of k x" using Some by (auto simp: find_Some_iff)
    show "y = x" if "y \<in> set (dedup_rev [] kvs)" "entry_of k y" for y
      using dedup_rev_key [of y "[]" kvs k] that Some by (simp add: entry_of_def)
  qed
  with Some show ?thesis by simp
qed

lemma dedup_no_nul: "kv \<in> set (dedup_env env) \<Longrightarrow> NUL \<notin> set kv"
proof -
  have "\<forall>kv \<in> set (dedup_rev saw kvs). NUL \<notin> set kv" for saw kvs
  proof (induction kvs arbitrary: saw)
    case (Cons kv kvs)
    then show ?case by (simp add: dedup_rev.simps(2) split: option.split)
  qed simp
  then show "kv \<in> set (dedup_env env) \<Longrightarrow> NUL \<notin> set kv" by (simp add: dedup_env_def)
qed

lemma env_lookup_dedup:
  "env_lookup (dedup_env env) k = map_option (drop (Suc (length k))) (List.find (entry_of k) (rev env))"
proof -
  have "List.find (\<lambda>kv. env_key kv = Some k) (dedup_env env) = List.find (entry_of k) (rev env)"
  proof (cases "List.find (entry_of k) (rev env)")
    case None
    then show ?thesis
      using dedup_rev_key [of _ "[]" "rev env" k]
      by (auto simp: find_None_iff [of "\<lambda>kv. env_key kv = Some k"] dedup_env_def)
  next
    case (Some x)
    have "List.find (\<lambda>kv. env_key kv = Some k) (dedup_env env) = Some x"
    proof (rule find_unique)
      show "x \<in> set (dedup_env env)" using dedup_rev_find [OF _ Some, of "[]"] by (simp add: dedup_env_def)
      show "env_key x = Some k" using Some by (auto simp: find_Some_iff entry_of_def)
      show "y = x" if "y \<in> set (dedup_env env)" "env_key y = Some k" for y
        using dedup_rev_key [of y "[]" "rev env" k] that Some by (simp add: dedup_env_def)
    qed
    with Some show ?thesis by simp
  qed
  then show ?thesis by (simp add: env_lookup_def)
qed

text \<open>A name a variable can have.\<close>

definition plain_name :: "string \<Rightarrow> bool" where
  "plain_name k \<longleftrightarrow> k \<noteq> [] \<and> CHR ''='' \<notin> set k \<and> NUL \<notin> set k"

lemma env_key_entry: "plain_name k \<Longrightarrow> env_key (k @ ''='' @ v) = Some k"
  by (cases k) (auto simp: plain_name_def takeWhile_append)

lemma entry_of_entry:
  assumes "plain_name (fst kv)" and "NUL \<notin> set (snd kv)"
  shows "entry_of k (env_entry kv) \<longleftrightarrow> k = fst kv"
  using assms env_key_entry [OF assms(1), of "snd kv"]
  by (auto simp: entry_of_def env_entry_def plain_name_def NUL_def)

lemma find_append: "List.find P (xs @ ys) = (case List.find P xs of None \<Rightarrow> List.find P ys | Some x \<Rightarrow> Some x)"
  by (induction xs) simp_all

lemma find_entries:
  assumes "\<And>kv. kv \<in> set vars \<Longrightarrow> plain_name (fst kv) \<and> NUL \<notin> set (snd kv)"
  shows "List.find (entry_of k) (map env_entry vars) = map_option (\<lambda>v. env_entry (k, v)) (map_of vars k)"
  using assms
proof (induction vars)
  case (Cons kv vars)
  then have "entry_of k (env_entry kv) \<longleftrightarrow> k = fst kv" by (intro entry_of_entry) simp_all
  with Cons show ?case by (cases kv) auto
qed simp

lemma process_env_lookup:
  assumes "go_map_ok vars" and "mset rvars = mset vars"
    and "\<And>kv. kv \<in> set vars \<Longrightarrow> plain_name (fst kv) \<and> NUL \<notin> set (snd kv)" and "\<not> env_refused inherited"
    and "c_env c = command_env inherited rvars"
  shows "\<exists>env. process_env inherited c = Some env \<and>
    env_lookup env k = (case map_of vars k of Some v \<Rightarrow> Some v | None \<Rightarrow> env_lookup (dedup_env inherited) k)"
proof (cases "rvars = []")
  case True
  then have "vars = []" using assms(2) by simp
  with True assms(4,5) show ?thesis by (simp add: process_env_def command_env_def)
next
  case False
  let ?env = "dedup_env inherited @ map env_entry rvars"
  have set: "set rvars = set vars" using assms(2) by (metis set_mset_mset)
  have "\<not> env_refused ?env"
    using dedup_no_nul assms(3) set by (auto simp: env_refused_def env_entry_def plain_name_def NUL_def)
  then have p: "process_env inherited c = Some (dedup_env ?env)"
    using False assms(5) by (simp add: process_env_def command_env_def)
  have "mset (map fst (rev rvars)) = mset (map fst vars)" using assms(2) by simp
  then have "distinct (map fst (rev rvars))" using assms(1) unfolding go_map_ok_def by (metis mset_eq_imp_distinct_iff)
  then have m: "map_of (rev rvars) = map_of vars"
    using assms(1) set unfolding go_map_ok_def by (intro map_of_inject_set [THEN iffD2]) simp_all
  have "List.find (entry_of k) (map env_entry (rev rvars)) = map_option (\<lambda>v. env_entry (k, v)) (map_of vars k)"
    using find_entries [of "rev rvars" k] assms(3) set m by simp
  then have "env_lookup (dedup_env ?env) k =
      (case map_of vars k of Some v \<Rightarrow> Some v | None \<Rightarrow> env_lookup (dedup_env inherited) k)"
    using dedup_rev_finds [of k "rev inherited"] env_lookup_dedup [of inherited k]
    unfolding env_lookup_dedup [of ?env]
    by (simp add: find_append rev_map env_entry_def dedup_env_def split: option.split)
  with p show ?thesis by simp
qed

text \<open>C27: Daemons and programs are started with the environment the manager has, with the configured
  variables in place of inherited ones of the same name, whatever order the map is ranged over in; a daemon
  is started by its \<open>exec\<close> alone, without arguments, a program by the shell. This holds for every variable
  whose name a shell could set and every configured value without a zero byte.\<close>

theorem child_environment:
  assumes "go_map_ok (dc_env d)" and "go_map_ok (pc_env p)" and "\<And>vs. mset (rng vs) = mset vs"
    and "\<And>kv. kv \<in> set (dc_env d) \<union> set (pc_env p) \<Longrightarrow> plain_name (fst kv) \<and> NUL \<notin> set (snd kv)"
    and "\<not> env_refused inherited"
  shows "\<exists>denv penv. process_env inherited (daemon_command inherited rng d) = Some denv
    \<and> process_env inherited (program_command inherited rng p) = Some penv
    \<and> (\<forall>k. env_lookup denv k =
          (case map_of (dc_env d) k of Some v \<Rightarrow> Some v | None \<Rightarrow> env_lookup (dedup_env inherited) k))
    \<and> (\<forall>k. env_lookup penv k =
          (case map_of (pc_env p) k of Some v \<Rightarrow> Some v | None \<Rightarrow> env_lookup (dedup_env inherited) k))
    \<and> c_path (daemon_command inherited rng d) = dc_exec d \<and> c_args (daemon_command inherited rng d) = []
    \<and> c_path (program_command inherited rng p) = ''/bin/sh''
    \<and> c_args (program_command inherited rng p) = [''-c'', pc_exec p]"
proof -
  have 1: "\<exists>env. process_env inherited (daemon_command inherited rng d) = Some env \<and> env_lookup env k =
      (case map_of (dc_env d) k of Some v \<Rightarrow> Some v | None \<Rightarrow> env_lookup (dedup_env inherited) k)" for k
    by (rule process_env_lookup [OF assms(1,3) _ assms(5)]) (simp_all add: assms(4) daemon_command_def)
  have 2: "\<exists>env. process_env inherited (program_command inherited rng p) = Some env \<and> env_lookup env k =
      (case map_of (pc_env p) k of Some v \<Rightarrow> Some v | None \<Rightarrow> env_lookup (dedup_env inherited) k)" for k
    by (rule process_env_lookup [OF assms(2,3) _ assms(5)]) (simp_all add: assms(4) program_command_def)
  obtain denv where "process_env inherited (daemon_command inherited rng d) = Some denv" using 1 by blast
  moreover obtain penv where "process_env inherited (program_command inherited rng p) = Some penv" using 2 by blast
  moreover have "c_path (daemon_command inherited rng d) = dc_exec d" "c_args (daemon_command inherited rng d) = []"
    "c_path (program_command inherited rng p) = ''/bin/sh''"
    "c_args (program_command inherited rng p) = [''-c'', pc_exec p]"
    by (simp_all add: daemon_command_def program_command_def)
  ultimately show ?thesis using 1 2 by auto
qed

theorem child_environment_witness:
  "\<exists>env. process_env [''PATH=/bin'', ''ADE=0''] (daemon_command [''PATH=/bin'', ''ADE=0''] rev
       (bus_config\<lparr>dc_env := [(''ADE'', ''1''), (''X'', ''y'')]\<rparr>)) = Some env
     \<and> env_lookup env ''ADE'' = Some ''1'' \<and> env_lookup env ''PATH'' = Some ''/bin''"
proof -
  let ?inh = "[''PATH=/bin'', ''ADE=0'']" and ?d = "bus_config\<lparr>dc_env := [(''ADE'', ''1''), (''X'', ''y'')]\<rparr>"
  let ?p = "prog [] [] 0 []"
  have "go_map_ok (dc_env ?d)" "go_map_ok (pc_env ?p)" by (simp_all add: go_map_ok_def prog_def)
  moreover have "plain_name (fst kv) \<and> NUL \<notin> set (snd kv)" if "kv \<in> set (dc_env ?d) \<union> set (pc_env ?p)" for kv
    using that by (auto simp: plain_name_def NUL_def prog_def)
  moreover have "\<not> env_refused ?inh" by (simp add: env_refused_def NUL_def)
  moreover have "env_lookup (dedup_env ?inh) ''PATH'' = Some ''/bin''" by code_simp
  ultimately show ?thesis
    using child_environment [of ?d ?p rev ?inh] by fastforce
qed

end
