(* ===== verification/Client.thy ===== *)
theory Client
  imports Server_Connection
begin

text \<open>
  The client library \<open>client/kerno/client.go\<close>. A client is its protocol, the bytes it has sent and the
  bytes its connection still delivers before the peer closes it; \<open>cl_write\<close> says whether writes
  succeed, and \<open>cl_take\<close> how many bytes the buffered reader of one text command takes from the
  connection, which are lost with it.
\<close>

section \<open>Data\<close>

record daemon_info =
  di_name :: string
  di_pid :: int
  di_state :: string
  di_restart :: string

record daemon_status =
  ds_name :: string
  ds_pid :: int
  ds_pgid :: int
  ds_state :: string
  ds_exit_code :: int
  ds_uptime :: string
  ds_restarts :: int
  ds_restart_policy :: string
  ds_order :: int
  ds_socket :: string
  ds_socket_ok :: bool
  ds_exec :: string

record feature_info =
  fi_name :: string
  fi_version :: string
  fi_ready :: bool

record program_info =
  pi_name :: string
  pi_state :: string
  pi_phase :: string
  pi_pid :: int

record program_status =
  ps_name :: string
  ps_state :: string
  ps_pid :: int
  ps_exit_code :: int
  ps_health :: string
  ps_phase :: string
  ps_priority :: int
  ps_exec :: string

record client =
  cl_binary :: bool
  cl_write :: bool
  cl_take :: nat
  cl_in :: string
  cl_sent :: string

datatype client_error =
    ClientWriteFailed
  | TextReplyBad txt_err
  | BinReplyBad bin_err
  | AckUnread io_err
  | AckUnexpected string

type_synonym 'a api = "client \<Rightarrow> client \<times> (client_error, 'a) outcome"

section \<open>Connecting\<close>

text \<open>\<open>NewClient\<close> and \<open>NewBinaryClient\<close> once the connection stands: what the connection delivers and
  whether writes to it succeed are given.\<close>

definition new_client :: "bool \<Rightarrow> nat \<Rightarrow> string \<Rightarrow> (client_error, client) outcome" where
  "new_client w k replies =
     (if \<not> w then Err ClientWriteFailed
      else Ok \<lparr>cl_binary = False, cl_write = w, cl_take = k, cl_in = replies, cl_sent = ''TXT01'' @ [NL]\<rparr>)"

definition new_binary_client :: "bool \<Rightarrow> nat \<Rightarrow> string \<Rightarrow> (client_error, client) outcome" where
  "new_binary_client w k replies =
     (if \<not> w then Err ClientWriteFailed
      else case read_full 4 replies of
             Ok (ack, rest) \<Rightarrow>
               if ack \<noteq> ''BIN1'' then Err (AckUnexpected ack)
               else Ok \<lparr>cl_binary = True, cl_write = w, cl_take = k, cl_in = rest, cl_sent = ''BIN1''\<rparr>
           | Err e \<Rightarrow> Err (AckUnread e)
           | Panic \<Rightarrow> Panic)"

section \<open>Sending a command\<close>

text \<open>\<open>%q\<close> of a key; the keys are \<open>name\<close> and \<open>lines\<close>.\<close>

definition text_command :: "string \<Rightarrow> string go_map \<Rightarrow> string" where
  "text_command verb attrs =
     concat (map (\<lambda>(key, val). [QUOTE] @ key @ [QUOTE] @ '' '' @ val @ [NL]) attrs) @ verb @ [NL]"

definition send_command :: "string \<Rightarrow> string go_map \<Rightarrow> txt_command api" where
  "send_command verb attrs c =
     (if \<not> cl_write c then (c, Err ClientWriteFailed)
      else let c1 = c\<lparr>cl_sent := cl_sent c @ text_command verb attrs, cl_in := drop (cl_take c) (cl_in c)\<rparr>
           in case new_parser (cl_in c) of
                Err e \<Rightarrow> (c1, Err (TextReplyBad e))
              | Panic \<Rightarrow> (c1, Panic)
              | Ok p \<Rightarrow>
                  (case parse_command p of
                     Ok (cmd, _) \<Rightarrow> (c1, Ok cmd)
                   | Err e \<Rightarrow> (c1, Err (TextReplyBad e))
                   | Panic \<Rightarrow> (c1, Panic)))"

definition send_bin_command :: "byte \<Rightarrow> go_value go_map \<Rightarrow> bin_command api" where
  "send_bin_command code attrs c =
     (if \<not> cl_write c then (c, Err ClientWriteFailed)
      else let c1 = c\<lparr>cl_sent := cl_sent c @ string_of_bytes (write_command code attrs [])\<rparr>
           in case read_command (bytes_of_string (cl_in c)) of
                Ok (resp, rest) \<Rightarrow> (c1\<lparr>cl_in := string_of_bytes rest\<rparr>, Ok resp)
              | Err e \<Rightarrow> (c1, Err (BinReplyBad e))
              | Panic \<Rightarrow> (c1, Panic))"

text \<open>A method hands the error on, or makes its value of the reply.\<close>

definition reply_to :: "('r \<Rightarrow> 'a) \<Rightarrow> 'r api \<Rightarrow> 'a api" where
  "reply_to f call c = (case call c of (c', r) \<Rightarrow> (c', obind r (\<lambda>x. Ok (f x))))"

section \<open>Reading replies\<close>

definition empty_daemon_status :: daemon_status where
  "empty_daemon_status =
     \<lparr>ds_name = [], ds_pid = 0, ds_pgid = 0, ds_state = [], ds_exit_code = 0, ds_uptime = [],
      ds_restarts = 0, ds_restart_policy = [], ds_order = 0, ds_socket = [], ds_socket_ok = False, ds_exec = []\<rparr>"

definition empty_program_status :: program_status where
  "empty_program_status =
     \<lparr>ps_name = [], ps_state = [], ps_pid = 0, ps_exit_code = 0, ps_health = [], ps_phase = [],
      ps_priority = 0, ps_exec = []\<rparr>"

definition parse_daemon_list :: "txt_command \<Rightarrow> daemon_info list" where "parse_daemon_list cmd = []"
definition parse_daemon_status :: "txt_command \<Rightarrow> daemon_status" where
  "parse_daemon_status cmd = empty_daemon_status"
definition parse_feature_list :: "txt_command \<Rightarrow> feature_info list" where "parse_feature_list cmd = []"
definition parse_log_lines :: "txt_command \<Rightarrow> string list" where "parse_log_lines cmd = []"
definition parse_program_list :: "txt_command \<Rightarrow> program_info list" where "parse_program_list cmd = []"
definition parse_program_status :: "txt_command \<Rightarrow> program_status" where
  "parse_program_status cmd = empty_program_status"

definition parse_daemon_list_msg :: "bin_command \<Rightarrow> daemon_info list" where "parse_daemon_list_msg r = []"
definition parse_daemon_status_msg :: "bin_command \<Rightarrow> daemon_status" where
  "parse_daemon_status_msg r = empty_daemon_status"
definition parse_feature_list_msg :: "bin_command \<Rightarrow> feature_info list" where "parse_feature_list_msg r = []"
definition parse_log_lines_msg :: "bin_command \<Rightarrow> string list" where "parse_log_lines_msg r = []"
definition parse_program_list_msg :: "bin_command \<Rightarrow> program_info list" where "parse_program_list_msg r = []"
definition parse_program_status_msg :: "bin_command \<Rightarrow> program_status" where
  "parse_program_status_msg r = empty_program_status"

section \<open>The methods\<close>

definition named :: "string \<Rightarrow> string go_map" where "named name = [(''name'', name)]"
definition bin_named :: "string \<Rightarrow> go_value go_map" where "bin_named name = [(''name'', GString name)]"

definition client_list_daemons :: "daemon_info list api" where
  "client_list_daemons c =
     (if cl_binary c then reply_to parse_daemon_list_msg (send_bin_command CmdListDaemons []) c
      else reply_to parse_daemon_list (send_command ''list-daemons'' []) c)"

definition client_status :: "string \<Rightarrow> daemon_status api" where
  "client_status name c =
     (if cl_binary c then reply_to parse_daemon_status_msg (send_bin_command CmdStatus (bin_named name)) c
      else reply_to parse_daemon_status (send_command ''status'' (named name)) c)"

definition client_restart :: "string \<Rightarrow> unit api" where
  "client_restart name c =
     (if cl_binary c then reply_to (\<lambda>_. ()) (send_bin_command CmdRestart (bin_named name)) c
      else reply_to (\<lambda>_. ()) (send_command ''restart'' (named name)) c)"

definition client_stop :: "string \<Rightarrow> unit api" where
  "client_stop name c =
     (if cl_binary c then reply_to (\<lambda>_. ()) (send_bin_command CmdStop (bin_named name)) c
      else reply_to (\<lambda>_. ()) (send_command ''stop'' (named name)) c)"

definition client_start :: "string \<Rightarrow> unit api" where
  "client_start name c =
     (if cl_binary c then reply_to (\<lambda>_. ()) (send_bin_command CmdStart (bin_named name)) c
      else reply_to (\<lambda>_. ()) (send_command ''start'' (named name)) c)"

definition client_list_features :: "feature_info list api" where
  "client_list_features c =
     (if cl_binary c then reply_to parse_feature_list_msg (send_bin_command CmdListFeatures []) c
      else reply_to parse_feature_list (send_command ''list-features'' []) c)"

definition log_lines_asked :: "int \<Rightarrow> int" where
  "log_lines_asked n = (if n \<le> 0 then 50 else n)"

text \<open>The order in which the \<open>range\<close> loop meets the two attributes is \<open>ord\<close>, any permutation.\<close>

definition client_logs ::
  "(string go_map \<Rightarrow> string go_map) \<Rightarrow> (go_value go_map \<Rightarrow> go_value go_map) \<Rightarrow> string \<Rightarrow> int \<Rightarrow> string list api"
where
  "client_logs ord bord name n c =
     (if cl_binary c
      then reply_to parse_log_lines_msg (send_bin_command CmdLogs
             (bord [(''name'', GString name), (''lines'', GInt64 (of_int (log_lines_asked n)))])) c
      else reply_to parse_log_lines (send_command ''logs''
             (ord [(''name'', name), (''lines'', show_int (log_lines_asked n))])) c)"

definition client_shutdown :: "unit api" where
  "client_shutdown c =
     (if cl_binary c then reply_to (\<lambda>_. ()) (send_bin_command CmdShutdown []) c
      else reply_to (\<lambda>_. ()) (send_command ''shutdown'' []) c)"

definition client_list_programs :: "program_info list api" where
  "client_list_programs c =
     (if cl_binary c then reply_to parse_program_list_msg (send_bin_command CmdListPrograms []) c
      else reply_to parse_program_list (send_command ''prog-list'' []) c)"

definition client_program_status :: "string \<Rightarrow> program_status api" where
  "client_program_status name c =
     (if cl_binary c then reply_to parse_program_status_msg (send_bin_command CmdProgramStatus (bin_named name)) c
      else reply_to parse_program_status (send_command ''prog-status'' (named name)) c)"

definition client_start_program :: "string \<Rightarrow> unit api" where
  "client_start_program name c =
     (if cl_binary c then reply_to (\<lambda>_. ()) (send_bin_command CmdStartProgram (bin_named name)) c
      else reply_to (\<lambda>_. ()) (send_command ''prog-start'' (named name)) c)"

definition client_stop_program :: "string \<Rightarrow> unit api" where
  "client_stop_program name c =
     (if cl_binary c then reply_to (\<lambda>_. ()) (send_bin_command CmdStopProgram (bin_named name)) c
      else reply_to (\<lambda>_. ()) (send_command ''prog-stop'' (named name)) c)"

end
