(* ===== verification/Client_Protocol.thy ===== *)
theory Client_Protocol
  imports Client
begin

text \<open>
  The client library against the server: a session of binary calls is understood by the server and
  reads the replies, but every call succeeds with an empty value whatever the server answered; a text
  session gets nothing done, and its commands would be misread.
\<close>

section \<open>The calls as data\<close>

datatype api_call =
    CallListDaemons | CallStatus string | CallRestart string | CallStop string | CallStart string
  | CallListFeatures | CallLogs string int | CallShutdown | CallListPrograms
  | CallProgramStatus string | CallStartProgram string | CallStopProgram string

datatype api_value =
    Nothing | Daemons "daemon_info list" | Daemon daemon_status | Features "feature_info list"
  | LogLines "string list" | Programs "program_info list" | Program program_status

fun client_call ::
  "(string go_map \<Rightarrow> string go_map) \<Rightarrow> (go_value go_map \<Rightarrow> go_value go_map) \<Rightarrow> api_call \<Rightarrow> api_value api"
where
  "client_call ord bord CallListDaemons = reply_to Daemons client_list_daemons"
| "client_call ord bord (CallStatus name) = reply_to Daemon (client_status name)"
| "client_call ord bord (CallRestart name) = reply_to (\<lambda>_. Nothing) (client_restart name)"
| "client_call ord bord (CallStop name) = reply_to (\<lambda>_. Nothing) (client_stop name)"
| "client_call ord bord (CallStart name) = reply_to (\<lambda>_. Nothing) (client_start name)"
| "client_call ord bord CallListFeatures = reply_to Features client_list_features"
| "client_call ord bord (CallLogs name n) = reply_to LogLines (client_logs ord bord name n)"
| "client_call ord bord CallShutdown = reply_to (\<lambda>_. Nothing) client_shutdown"
| "client_call ord bord CallListPrograms = reply_to Programs client_list_programs"
| "client_call ord bord (CallProgramStatus name) = reply_to Program (client_program_status name)"
| "client_call ord bord (CallStartProgram name) = reply_to (\<lambda>_. Nothing) (client_start_program name)"
| "client_call ord bord (CallStopProgram name) = reply_to (\<lambda>_. Nothing) (client_stop_program name)"

fun run_calls ::
  "(string go_map \<Rightarrow> string go_map) \<Rightarrow> (go_value go_map \<Rightarrow> go_value go_map) \<Rightarrow> api_call list
    \<Rightarrow> client \<Rightarrow> client \<times> (client_error, api_value) outcome list"
where
  "run_calls ord bord [] c = (c, [])"
| "run_calls ord bord (a # as) c =
     (case client_call ord bord a c of (c1, r) \<Rightarrow>
        (case run_calls ord bord as c1 of (c2, rs) \<Rightarrow> (c2, r # rs)))"

fun empty_reply :: "api_call \<Rightarrow> api_value" where
  "empty_reply CallListDaemons = Daemons []"
| "empty_reply (CallStatus name) = Daemon empty_daemon_status"
| "empty_reply CallListFeatures = Features []"
| "empty_reply (CallLogs name n) = LogLines []"
| "empty_reply CallListPrograms = Programs []"
| "empty_reply (CallProgramStatus name) = Program empty_program_status"
| "empty_reply a = Nothing"

section \<open>Binary sessions\<close>

fun call_request :: "(go_value go_map \<Rightarrow> go_value go_map) \<Rightarrow> api_call \<Rightarrow> request" where
  "call_request bord CallListDaemons = (CmdListDaemons, [], [])"
| "call_request bord (CallStatus name) = (CmdStatus, bin_named name, [])"
| "call_request bord (CallRestart name) = (CmdRestart, bin_named name, [])"
| "call_request bord (CallStop name) = (CmdStop, bin_named name, [])"
| "call_request bord (CallStart name) = (CmdStart, bin_named name, [])"
| "call_request bord CallListFeatures = (CmdListFeatures, [], [])"
| "call_request bord (CallLogs name n) =
     (CmdLogs, bord [(''name'', GString name), (''lines'', GInt64 (of_int (log_lines_asked n)))], [])"
| "call_request bord CallShutdown = (CmdShutdown, [], [])"
| "call_request bord CallListPrograms = (CmdListPrograms, [], [])"
| "call_request bord (CallProgramStatus name) = (CmdProgramStatus, bin_named name, [])"
| "call_request bord (CallStartProgram name) = (CmdStartProgram, bin_named name, [])"
| "call_request bord (CallStopProgram name) = (CmdStopProgram, bin_named name, [])"

fun call_name :: "api_call \<Rightarrow> string" where
  "call_name (CallStatus name) = name"
| "call_name (CallRestart name) = name"
| "call_name (CallStop name) = name"
| "call_name (CallStart name) = name"
| "call_name (CallLogs name n) = name"
| "call_name (CallProgramStatus name) = name"
| "call_name (CallStartProgram name) = name"
| "call_name (CallStopProgram name) = name"
| "call_name a = []"

lemma sendable_str: "length key < 65534 \<Longrightarrow> length key + length v + 7 < 2 ^ 32 \<Longrightarrow> sendable (key, GString v)"
  by (simp add: sendable_def encode_attr_def encode_str_def put_key_len_def put_uint32_def Let_def)

lemma sendable_int: "length key < 65000 \<Longrightarrow> sendable (key, GInt64 v)"
  by (simp add: sendable_def encode_attr_def encode_int_def put_key_len_def put_uint64_def Let_def)

lemma call_request_ok:
  assumes "length (call_name a) < 4000000000" and "any_order bord"
  shows "request_ok (call_request bord a)"
proof -
  have s: "sendable (''name'', GString (call_name a))" using assms(1) by (intro sendable_str) simp_all
  have ok: "go_map_ok (bord m) \<and> (\<forall>kv \<in> set (bord m). sendable kv)"
    if "go_map_ok m" "\<forall>kv \<in> set m. sendable kv" for m
    using that assms(2) unfolding any_order_def go_map_ok_def
    by (metis mset_eq_setD mset_map mset_eq_imp_distinct_iff)
  show ?thesis
  proof (cases a)
    case (CallLogs name n)
    let ?m = "[(''name'', GString name), (''lines'', GInt64 (of_int (log_lines_asked n)))]"
    have "go_map_ok ?m" "\<forall>kv \<in> set ?m. sendable kv"
      using s CallLogs by (simp_all add: go_map_ok_def sendable_int)
    from ok [OF this] show ?thesis unfolding CallLogs call_request.simps request_ok_def by simp
  qed (use s in \<open>auto simp: request_ok_def bin_named_def go_map_ok_def\<close>)
qed

lemma bytes_of_append: "bytes_of_string (xs @ ys) = bytes_of_string xs @ bytes_of_string ys"
  by (simp add: bytes_of_string_def)

lemma send_bin_command_reply:
  assumes "cl_write c" and "sendable (''message'', GString msg)"
    and "cl_in c = string_of_bytes (write_response code msg) @ later"
  shows "\<exists>resp. send_bin_command req attrs c =
    (c\<lparr>cl_sent := cl_sent c @ string_of_bytes (request_bytes (req, attrs, [])), cl_in := later\<rparr>, Ok resp)"
proof -
  have "read_command (bytes_of_string (cl_in c))
      = Ok (command_of code [(''message'', GString msg)] [], bytes_of_string later)"
    using assms(2) read_loop_write_command [of "[(''message'', GString msg)]" "[]" code "bytes_of_string later"]
    by (simp add: assms(3) write_response_def read_command_def go_map_ok_def bytes_of_append)
  then show ?thesis using assms(1) by (simp add: send_bin_command_def request_bytes_def)
qed

text \<open>One call: what it sends is its request, and any reply makes it succeed with the empty value.\<close>

lemma client_call_reply:
  assumes "cl_binary c" and "cl_write c" and "sendable (''message'', GString msg)"
    and "cl_in c = string_of_bytes (write_response code msg) @ later"
  shows "client_call ord bord a c =
    (c\<lparr>cl_sent := cl_sent c @ string_of_bytes (request_bytes (call_request bord a)), cl_in := later\<rparr>,
     Ok (empty_reply a))"
proof -
  have send: "\<exists>resp. send_bin_command req attrs c =
      (c\<lparr>cl_sent := cl_sent c @ string_of_bytes (request_bytes (req, attrs, [])), cl_in := later\<rparr>, Ok resp)"
    for req attrs
    by (rule send_bin_command_reply [OF assms(2-4)])
  show ?thesis
  proof (cases a)
    case CallListDaemons
    then show ?thesis using assms(1) send [of CmdListDaemons "[]"]
      by (auto simp: reply_to_def client_list_daemons_def parse_daemon_list_msg_def)
  next
    case (CallStatus name)
    then show ?thesis using assms(1) send [of CmdStatus "bin_named name"]
      by (auto simp: reply_to_def client_status_def parse_daemon_status_msg_def)
  next
    case (CallRestart name)
    then show ?thesis using assms(1) send [of CmdRestart "bin_named name"]
      by (auto simp: reply_to_def client_restart_def)
  next
    case (CallStop name)
    then show ?thesis using assms(1) send [of CmdStop "bin_named name"]
      by (auto simp: reply_to_def client_stop_def)
  next
    case (CallStart name)
    then show ?thesis using assms(1) send [of CmdStart "bin_named name"]
      by (auto simp: reply_to_def client_start_def)
  next
    case CallListFeatures
    then show ?thesis using assms(1) send [of CmdListFeatures "[]"]
      by (auto simp: reply_to_def client_list_features_def parse_feature_list_msg_def)
  next
    case (CallLogs name n)
    then show ?thesis
      using assms(1) send [of CmdLogs "bord [(''name'', GString name), (''lines'', GInt64 (of_int (log_lines_asked n)))]"]
      by (auto simp: reply_to_def client_logs_def parse_log_lines_msg_def)
  next
    case CallShutdown
    then show ?thesis using assms(1) send [of CmdShutdown "[]"]
      by (auto simp: reply_to_def client_shutdown_def)
  next
    case CallListPrograms
    then show ?thesis using assms(1) send [of CmdListPrograms "[]"]
      by (auto simp: reply_to_def client_list_programs_def parse_program_list_msg_def)
  next
    case (CallProgramStatus name)
    then show ?thesis using assms(1) send [of CmdProgramStatus "bin_named name"]
      by (auto simp: reply_to_def client_program_status_def parse_program_status_msg_def)
  next
    case (CallStartProgram name)
    then show ?thesis using assms(1) send [of CmdStartProgram "bin_named name"]
      by (auto simp: reply_to_def client_start_program_def)
  next
    case (CallStopProgram name)
    then show ?thesis using assms(1) send [of CmdStopProgram "bin_named name"]
      by (auto simp: reply_to_def client_stop_program_def)
  qed
qed

text \<open>The bytes of the server's replies, with \<open>msg\<close> for their wording.\<close>

definition reply_bytes :: "(bin_reply \<Rightarrow> string) \<Rightarrow> bin_reply \<Rightarrow> string" where
  "reply_bytes msg r = string_of_bytes (write_response (reply_code r) (msg r))"

lemma run_calls_replies:
  assumes "cl_binary c" and "cl_write c" and "\<And>r. sendable (''message'', GString (msg r))"
    and "length rs = length as" and "cl_in c = concat (map (reply_bytes msg) rs)"
  shows "run_calls ord bord as c =
    (c\<lparr>cl_sent := cl_sent c @ string_of_bytes (concat (map (\<lambda>a. request_bytes (call_request bord a)) as)),
       cl_in := []\<rparr>,
     map (\<lambda>a. Ok (empty_reply a)) as)"
  using assms(1,2,4,5)
proof (induction as arbitrary: c rs)
  case Nil
  then show ?case by (simp add: string_of_bytes_def)
next
  case (Cons a as)
  then obtain r rs' where rs: "rs = r # rs'" by (cases rs) auto
  let ?c1 = "c\<lparr>cl_sent := cl_sent c @ string_of_bytes (request_bytes (call_request bord a)),
    cl_in := concat (map (reply_bytes msg) rs')\<rparr>"
  have 1: "client_call ord bord a c = (?c1, Ok (empty_reply a))"
    by (rule client_call_reply [OF Cons.prems(1,2) assms(3) [of r], of "reply_code r"])
      (simp add: Cons.prems(4) rs reply_bytes_def [of msg r])
  show ?case
    using Cons.IH [of ?c1 rs'] Cons.prems rs by (simp add: 1 string_of_bytes_def)
qed

text \<open>C18: A session of the binary client with the server. The server understands every call: it answers
  each with what its handlers give for the request the call stands for. The client reads every answer,
  and every call returns without an error and with an empty value, whatever the server answered, refusals
  included.\<close>

theorem binary_client_session:
  assumes "\<forall>a \<in> set as. length (call_name a) < 4000000000 \<and> a \<noteq> CallShutdown" and "any_order bord"
    and "server_ok s" and "\<And>i. w i" and "\<And>r. sendable (''message'', GString (msg r))"
  shows "\<exists>s' rs c c'. bin_front.run env s (map (\<lambda>a. request_command (call_request bord a)) as) = Ok (s', rs)
    \<and> new_binary_client True k (''BIN1'' @ concat (map (reply_bytes msg) rs)) = Ok c
    \<and> run_calls ord bord as c = (c', map (\<lambda>a. Ok (empty_reply a)) as)
    \<and> handle_connection env w sizes s (cl_sent c') = (s', BinAck # map BinResponse rs, Closed)"
proof -
  let ?qs = "map (call_request bord) as"
  have ok: "\<forall>q \<in> set ?qs. request_ok q \<and> fst q \<noteq> CmdShutdown"
  proof
    fix q assume "q \<in> set ?qs"
    then obtain a where a: "a \<in> set as" "q = call_request bord a" by auto
    have "fst (call_request bord a) \<noteq> CmdShutdown" if "a \<noteq> CallShutdown"
      using that by (cases a) (simp_all add: bin_consts)
    then show "request_ok q \<and> fst q \<noteq> CmdShutdown"
      using a assms(1) call_request_ok [OF _ assms(2)] by blast
  qed
  obtain s' rs where run: "bin_front.run env s (map request_command ?qs) = Ok (s', rs)"
      "length rs = length as"
    using bin_front.run_total [OF assms(3), of env "map request_command ?qs"] by auto
  let ?c = "\<lparr>cl_binary = True, cl_write = True, cl_take = k, cl_in = concat (map (reply_bytes msg) rs),
    cl_sent = ''BIN1''\<rparr>"
  have ack: "read_full 4 (''BIN1'' @ concat (map (reply_bytes msg) rs))
      = Ok (''BIN1'', concat (map (reply_bytes msg) rs))"
    by (rule read_full_append) simp
  have new: "new_binary_client True k (''BIN1'' @ concat (map (reply_bytes msg) rs)) = Ok ?c"
    unfolding new_binary_client_def ack by simp
  note calls = run_calls_replies [of ?c msg rs as ord bord, OF _ _ assms(5) run(2)]
  have closed: "bin_loop env w i s' [] = (s', [], Closed)" for i
    by (subst bin_loop.simps, subst read_command_def, subst read_loop.simps)
      (simp add: read_frame_def read_full_def)
  have "handle_connection env w sizes s (''BIN1'' @ string_of_bytes (concat (map request_bytes ?qs)))
      = (s', BinAck # map BinResponse rs, Closed)"
    using bin_loop_requests [where w = w and i = 1 and tail = "[]", OF ok assms(4) assms(3) run(1)] closed
    by (simp only: bin_magic [of w, OF assms(4)]) simp
  with run(1) new calls show ?thesis by (simp add: comp_def)
qed

lemma demo_nope: "dm_get demo ''nope'' = None"
  by (simp add: demo_def new_daemon_manager_def dm_get_def indexd_config_def bus_config_def)

theorem binary_client_session_witness:
  "\<exists>s' c'. handle_connection demo_senv (\<lambda>_. True) [] demo_server (cl_sent c')
      = (s', [BinAck, BinResponse (BinFail (DaemonUnknown ''nope''))], Closed)
    \<and> (\<exists>c. run_calls id id [CallStop ''nope''] c = (c', [Ok Nothing]))"
proof -
  have "\<forall>a \<in> set [CallStop ''nope'']. length (call_name a) < 4000000000 \<and> a \<noteq> CallShutdown" by simp
  moreover have "\<And>r. sendable (''message'', GString ((\<lambda>r :: bin_reply. []) r))"
    by (rule sendable_str) simp_all
  ultimately obtain s' rs c c' where *: "run_calls id id [CallStop ''nope''] c = (c', [Ok Nothing])"
      "handle_connection demo_senv (\<lambda>_. True) [] demo_server (cl_sent c') = (s', BinAck # map BinResponse rs, Closed)"
      "bin_front.run demo_senv demo_server [request_command (call_request id (CallStop ''nope''))] = Ok (s', rs)"
    using binary_client_session [of "[CallStop ''nope'']" id demo_server "\<lambda>_. True" "\<lambda>_. []" demo_senv 0 id "[]"]
      any_order_id demo_server_ok by auto
  have "bin_name (request_command (call_request id (CallStop ''nope''))) = Some ''nope''"
    by (simp add: request_command_def command_of_def bin_named_def bin_name_def bin_attr_name_def
        bin_attr_def bin_attr_value_def)
  moreover have "dm_get (s_manager demo_server) ''nope'' = None"
    by (simp add: demo_server_def demo_start_bus dm_get_modify demo_nope)
  ultimately have "dispatch_bin demo_senv demo_server (request_command (call_request id (CallStop ''nope'')))
      = Ok (demo_server, BinFail (DaemonUnknown ''nope''))"
    by (simp add: dispatch_bin_def request_code bin_consts handle_bin_stop_def)
  with *(3) have "rs = [BinFail (DaemonUnknown ''nope'')]" by (simp add: outcome_iff)
  with * show ?thesis by auto
qed

section \<open>Text sessions\<close>

lemma new_parser_no_header: "take 3 s \<noteq> ''TXT'' \<Longrightarrow> \<exists>e. new_parser s = Err e"
  by (cases "5 \<le> length s") (auto simp: new_parser_def read_full_def min_def take_take)

lemma reply_no_header:
  "take 3 (format_ok_with_body attrs body @ later) \<noteq> ''TXT''" "take 3 (format_error m @ later) \<noteq> ''TXT''"
proof -
  have "show_int TxtCodeOK = ''20''" "show_int TxtCodeError = ''50''" by code_simp+
  then show "take 3 (format_ok_with_body attrs body @ later) \<noteq> ''TXT''"
    "take 3 (format_error m @ later) \<noteq> ''TXT''"
    by (simp_all add: format_ok_with_body_def format_error_def format_response_def)
qed

text \<open>What a server may have written when the client reads: nothing, or a response of either form.\<close>

definition text_replies :: "string \<Rightarrow> bool" where
  "text_replies s \<longleftrightarrow> s = [] \<or> (\<exists>attrs body later. s = format_ok_with_body attrs body @ later)
     \<or> (\<exists>m later. s = format_error m @ later)"

lemma send_command_fails:
  assumes "cl_write c" and "text_replies (cl_in c)"
  shows "\<exists>e. send_command verb attrs c =
    (c\<lparr>cl_sent := cl_sent c @ text_command verb attrs, cl_in := drop (cl_take c) (cl_in c)\<rparr>, Err e)"
proof -
  have "take 3 (cl_in c) \<noteq> ''TXT''"
    using assms(2) reply_no_header by (auto simp: text_replies_def)
  then obtain e where "new_parser (cl_in c) = Err e" using new_parser_no_header by blast
  then show ?thesis using assms(1) by (simp add: send_command_def)
qed

lemma client_call_text:
  assumes "\<not> cl_binary c" and "cl_write c" and "text_replies (cl_in c)"
  shows "\<exists>c' e t. client_call ord bord a c = (c', Err e) \<and> cl_sent c' = cl_sent c @ t"
proof -
  have send: "\<exists>c' e t. (\<forall>f. reply_to f (send_command verb attrs) c = (c', Err e)) \<and> cl_sent c' = cl_sent c @ t"
    for verb attrs
    using send_command_fails [OF assms(2,3), of verb attrs] by (fastforce simp: reply_to_def)
  have again: "reply_to g (\<lambda>c. reply_to f call c) c = reply_to (g \<circ> f) call c" for f g and call :: "txt_command api"
    by (simp add: reply_to_def split: prod.split) (metis comp_apply obind.simps outcome.exhaust)
  note defs = client_list_daemons_def client_status_def client_restart_def client_stop_def client_start_def
    client_list_features_def client_logs_def client_shutdown_def client_list_programs_def
    client_program_status_def client_start_program_def client_stop_program_def
  have outer: "reply_to g m c = reply_to g (\<lambda>c. reply_to f call c) c" if "m c = reply_to f call c"
    for f call and g :: "'z \<Rightarrow> api_value" and m :: "'z api"
    using that by (simp add: reply_to_def)
  have "\<exists>f verb attrs. client_call ord bord a c = reply_to f (send_command verb attrs) c"
    using assms(1) by (cases a) (auto simp: outer defs again intro!: exI)
  then show ?thesis using send by metis
qed

text \<open>The text client gets nothing done. Whatever command it sends, the server's handler reads for
  ever and executes nothing; and the client, which expects the protocol's header in front of every
  answer, ends every call with an error, also where a server answers in one of the formats of the
  protocol.\<close>

theorem text_client_gets_nothing:
  assumes "new_client True k replies = Ok c" and "text_replies replies" and "5 \<le> n"
  shows "\<exists>c' e. client_call ord bord a c = (c', Err e)
    \<and> handle_connection env w (n # ns) s (cl_sent c') = (s, [], StillReading)"
proof -
  have c: "\<not> cl_binary c" "cl_write c" "cl_in c = replies" "cl_sent c = ''TXT01'' @ [NL]"
    using assms(1) by (auto simp: new_client_def)
  obtain c' e t where call: "client_call ord bord a c = (c', Err e)" "cl_sent c' = ''TXT01'' @ [NL] @ t"
    using client_call_text [of c ord bord a] c assms(2) by auto
  have "take 5 (cl_sent c') = ''TXT01''" "take 4 (cl_sent c') = ''TXT0''" "take 3 (cl_sent c') = ''TXT''"
    "5 \<le> length (cl_sent c')"
    by (simp_all add: call(2))
  then have "handle_connection env w (n # ns) s (cl_sent c') = (s, [], StillReading)"
    using text_mode_stuck [of "cl_sent c'" n env w ns s] assms(3) by auto
  with call(1) show ?thesis by blast
qed

theorem text_client_gets_nothing_witness:
  "\<exists>c c' e. new_client True 0 (format_ok_with_body [] []) = Ok c
    \<and> client_call id id (CallStop ''bus'') c = (c', Err e)
    \<and> handle_connection demo_senv (\<lambda>_. True) [4096] demo_server (cl_sent c') = (demo_server, [], StillReading)"
proof -
  let ?c = "\<lparr>cl_binary = False, cl_write = True, cl_take = 0, cl_in = format_ok_with_body [] [],
    cl_sent = ''TXT01'' @ [NL]\<rparr>"
  have new: "new_client True 0 (format_ok_with_body [] []) = Ok ?c" by (simp add: new_client_def)
  have "text_replies (format_ok_with_body [] [])" unfolding text_replies_def by (metis append_Nil2)
  from text_client_gets_nothing [OF new this, of 4096 id id "CallStop ''bus''" demo_senv "\<lambda>_. True" "[]" demo_server]
  show ?thesis using new by auto
qed

text \<open>Even a server that read the command would take the quoted key and the value for one string: the
  name it looks up is not the one the client was given.\<close>

theorem text_client_name_misread:
  assumes "verb \<in> set command_verbs" and "NL \<notin> set name" and "trimmed (QUOTE # ''name'' @ [QUOTE] @ '' '' @ name)"
    and "tp_reader p = text_command verb (named name) @ rest"
  shows "\<exists>cmd. parse_command p = Ok (cmd, p\<lparr>tp_reader := rest\<rparr>) \<and> tc_name cmd = verb
    \<and> arg_name cmd = Some (''name'' @ [QUOTE] @ '' '' @ name)"
proof -
  let ?v = "zero_value\<lparr>v_type := TypeString, v_str := ''name'' @ [QUOTE] @ '' '' @ name\<rparr>"
  have "line_value ?v" using assms(2,3) by (simp add: line_value_def zero_value_def)
  moreover have "render_value ?v = [QUOTE] @ ''name'' @ [QUOTE] @ '' '' @ name"
    by (simp add: render_value_def zero_value_def)
  ultimately have "parse_loop [] (text_command verb (named name) @ rest) = Ok (\<lparr>tc_name = verb, tc_args = [?v]\<rparr>, rest)"
    using parse_loop_command [OF _ assms(1), of "[?v]" "[]" rest]
    by (simp add: text_command_def named_def)
  then show ?thesis by (simp add: parse_command_def assms(4) arg_name_def zero_value_def)
qed

theorem text_client_name_misread_witness:
  "\<exists>cmd p. parse_command \<lparr>tp_reader = text_command ''status'' (named ''bus''), tp_header = ''TXT'', tp_version = ''01''\<rparr>
      = Ok (cmd, p) \<and> arg_name cmd = Some (''name'' @ [QUOTE] @ '' bus'')"
proof -
  have "trimmed (QUOTE # ''name'' @ [QUOTE] @ '' '' @ ''bus'')" by code_simp
  moreover have "''status'' \<in> set command_verbs" by code_simp
  ultimately show ?thesis
    using text_client_name_misread [of "''status''" "''bus''"
        "\<lparr>tp_reader = text_command ''status'' (named ''bus''), tp_header = ''TXT'', tp_version = ''01''\<rparr>" "[]"]
    by auto
qed

end
