(* ===== verification/First_Start.thy ===== *)
theory First_Start
  imports Boot Server_Listener
begin

text \<open>
  The first start, when there is no configuration yet: the templates that \<open>createTemplateConfig\<close>
  (\<open>internal/daemon/config.go\<close>) and \<open>writeTemplate\<close> (\<open>internal/kernocfg/config.go\<close>) write, byte for byte, and
  what the program boots with when it reads them back. How the INI library reads them is what its
  documentation says of lines \<open>key = value\<close> under a section header.
\<close>

section \<open>The templates\<close>

text \<open>\<open>defaultTemplate\<close> of both packages; the dash in the second is three bytes of UTF-8.\<close>

definition daemons_template :: string where
  "daemons_template = concat (map (\<lambda>l. l @ [CHR 0x0A])
     [''# ADE Daemons Configuration'',
      ''#'',
      ''# Managed by a-kerno. Changes are picked up automatically via fsnotify.'',
      ''#'',
      ''# One section per daemon. Toggle enabled to start/stop on reload.'',
      ''# Property changes do not restart an already running daemon.'',
      ''#'',
      ''# Keys:'',
      ''#   enabled = true                    (default true)'',
      ''#   exec = a-lancxo                   (required; PATH or absolute)'',
      ''#   order = 10                        (startup order, lower = earlier, default: 0)'',
      ''#   restart = on-failure              (always | on-failure | once | disabled)'',
      ''#   ready_timeout = 10                (seconds to wait for socket, default: 10)'',
      ''#   socket = ${ADE_RUNTIME_DIR}/indexd'',
      ''#   env = KEY=VALUE                   (repeatable)'',
      '''',
      ''[a-lancxo]'',
      ''enabled = true'',
      ''exec = a-lancxo'',
      ''order = 10'',
      ''restart = on-failure'',
      ''ready_timeout = 10'',
      ''socket = ${ADE_RUNTIME_DIR}/indexd'',
      ''env = ADE_INDEXD_SOCK=${ADE_RUNTIME_DIR}/indexd''])"

definition kerno_template :: string where
  "kerno_template = concat (map (\<lambda>l. l @ [CHR 0x0A])
     [''# Configuration for a-kerno'',
      ''#'',
      ''# Managed by a-kerno.'',
      ''#'',
      ''# [composer] '' @ [CHR 0xE2, CHR 0x80, CHR 0x94] @ '' session window manager / compositor'',
      ''# Keys:'',
      ''#   run = command line (required for GUI session)'',
      ''#   restart = always | on-failure | disabled'',
      '''',
      ''[composer]'',
      ''run = Hyprland'',
      ''restart = always''])"

datatype template_error = MkdirFailed string | WriteFailed string

text \<open>What is written where, or the error; \<open>mkdir\<close> and \<open>write\<close> say whether the calls succeed.\<close>

definition create_template_config ::
  "(string \<Rightarrow> bool) \<Rightarrow> (string \<Rightarrow> bool) \<Rightarrow> string \<Rightarrow> template_error + string \<times> string" where
  "create_template_config mkdir write path =
     (let dir = path_dir path
      in if \<not> mkdir dir then Inl (MkdirFailed dir)
         else if \<not> write path then Inl (WriteFailed path)
         else Inr (path, daemons_template))"

definition write_template ::
  "(string \<Rightarrow> bool) \<Rightarrow> (string \<Rightarrow> bool) \<Rightarrow> string \<Rightarrow> template_error + string \<times> string" where
  "write_template mkdir write path =
     (let dir = path_dir path
      in if \<not> mkdir dir then Inl (MkdirFailed dir)
         else if \<not> write path then Inl (WriteFailed path)
         else Inr (path, kerno_template))"

text \<open>A file that is not there, as \<open>LoadConfig\<close> and \<open>Load\<close> find it after the call: written, with what was
  written in it, or still missing.\<close>

definition written :: "template_error + string \<times> string \<Rightarrow> bool" where
  "written r = (case r of Inl e \<Rightarrow> False | Inr x \<Rightarrow> True)"

definition read_back :: "template_error + string \<times> string \<Rightarrow> file_result" where
  "read_back r = (case r of Inl e \<Rightarrow> FileMissing | Inr (path, data) \<Rightarrow> FileData data)"

lemma template_read:
  "read_or_create FileMissing (written (create_template_config mkdir write path))
      (read_back (create_template_config mkdir write path)) =
    (if mkdir (path_dir path) \<and> write path then Inr daemons_template else Inl TemplateFailed)"
  "read_or_create FileMissing (written (write_template mkdir write path))
      (read_back (write_template mkdir write path)) =
    (if mkdir (path_dir path) \<and> write path then Inr kerno_template else Inl TemplateFailed)"
  by (simp_all add: read_or_create_def written_def read_back_def create_template_config_def
      write_template_def Let_def)

section \<open>What the templates say\<close>

definition template_daemon :: ini_section where
  "template_daemon = ini_section_of ''a-lancxo''
     [(''enabled'', ''true''), (''exec'', ''a-lancxo''), (''order'', ''10''), (''restart'', ''on-failure''),
      (''ready_timeout'', ''10''), (''socket'', ''${ADE_RUNTIME_DIR}/indexd''),
      (''env'', ''ADE_INDEXD_SOCK=${ADE_RUNTIME_DIR}/indexd'')]"

definition template_composer :: ini_section where
  "template_composer = ini_section_of ''composer'' [(''run'', ''Hyprland''), (''restart'', ''always'')]"

definition first_daemon :: "string \<Rightarrow> daemon_config" where
  "first_daemon dir =
     \<lparr>dc_name = ''a-lancxo'', dc_exec = ''a-lancxo'', dc_order = 10, dc_restart = RestartOnFailure,
      dc_ready_timeout = sec 10, dc_socket = dir @ ''/indexd'',
      dc_env = [(''ADE_INDEXD_SOCK'', dir @ ''/indexd'')], dc_enabled = True\<rparr>"

lemma template_keys [simp]:
  "is_name template_daemon = ''a-lancxo''" "ini_string template_daemon ''exec'' = ''a-lancxo''"
  "ini_string template_daemon ''order'' = ''10''" "ini_string template_daemon ''restart'' = ''on-failure''"
  "ini_string template_daemon ''ready_timeout'' = ''10''"
  "ini_string template_daemon ''socket'' = ''${ADE_RUNTIME_DIR}/indexd''"
  "ini_shadows template_daemon ''env'' = [''ADE_INDEXD_SOCK=${ADE_RUNTIME_DIR}/indexd'']"
  "ini_bool_default template_daemon ''enabled'' True"
  "ini_string template_composer ''run'' = ''Hyprland''" "ini_string template_composer ''restart'' = ''always''"
  by (simp_all add: template_daemon_def template_composer_def ini_section_of_def ini_string_def
      ini_shadows_def ini_bool_default_def ini_key_of_def)

lemma template_expansions:
  "expand_placeholders getenv uid home ''${ADE_RUNTIME_DIR}/indexd'' = ade_runtime_dir getenv uid @ ''/indexd''"
  "expand_placeholders getenv uid home ''ADE_INDEXD_SOCK=${ADE_RUNTIME_DIR}/indexd'' =
     ''ADE_INDEXD_SOCK='' @ ade_runtime_dir getenv uid @ ''/indexd''"
  "expand_placeholders getenv uid home ''a-lancxo'' = ''a-lancxo''"
  "expand_placeholders getenv uid home ''Hyprland'' = ''Hyprland''"
  by (simp_all add: expand_placeholders_def var_defs has_prefix_def replace_all.simps)


lemma template_ten: "go_parse_int ''10'' = Some 10" "parse_duration fp ''10'' = Some (seconds 10)"
proof -
  have "show_nat 10 = ''10''" by code_simp
  then show "go_parse_int ''10'' = Some 10" "parse_duration fp ''10'' = Some (seconds 10)"
    using go_parse_show_nat [of 10] timeout_in_seconds [of 10 fp] by simp_all
qed

lemma template_trims:
  "trim_space ''on-failure'' = ''on-failure''" "trim_space ''always'' = ''always''"
  "trim_space ''Hyprland'' = ''Hyprland''" "trim_space [] = []"
  by code_simp+

lemma template_sections:
  "section_order template_daemon = Inr 10" "section_restart template_daemon = Inr RestartOnFailure"
  "section_timeout h template_daemon = Inr (seconds 10)"
  "section_path h template_daemon ''exec'' = ''a-lancxo''"
  "section_path h template_daemon ''socket'' = ade_runtime_dir (h_getenv h) (h_uid h) @ ''/indexd''"
  "add_env h (ini_shadows template_daemon ''env'') [] =
     Inr [(''ADE_INDEXD_SOCK'', ade_runtime_dir (h_getenv h) (h_uid h) @ ''/indexd'')]"
  by (simp_all add: section_order_def section_restart_def section_timeout_def section_path_def
      template_trims template_ten expand_daemon_var_def template_expansions valid_restart_policies_def policy_names)

lemma template_daemon_config:
  "daemon_config_from_section h template_daemon = Inr (first_daemon (ade_runtime_dir (h_getenv h) (h_uid h)))"
proof -
  have "sint (seconds 10 :: duration) = sec 10" by (simp add: seconds_def sec_def)
  then show ?thesis
    by (simp add: daemon_config_from_section_def template_sections first_daemon_def Let_def del: template_keys(7))
qed


section \<open>The first start\<close>

text \<open>The files are missing, and are created and read back as the templates say, where the directories can be
  made and the files be written.\<close>

definition fresh_home ::
  "boot_env \<Rightarrow> config \<Rightarrow> (string \<Rightarrow> bool) \<Rightarrow> (string \<Rightarrow> bool) \<Rightarrow> bool" where
  "fresh_home b cfg mkdir write \<longleftrightarrow>
     (let d = cfg_daemons_ini cfg; k = cfg_kerno_ini cfg
      in be_file b d = FileMissing \<and> be_created b d = written (create_template_config mkdir write d)
       \<and> be_again b d = read_back (create_template_config mkdir write d)
       \<and> be_file b k = FileMissing \<and> be_created b k = written (write_template mkdir write k)
       \<and> be_again b k = read_back (write_template mkdir write k)
       \<and> be_dir b (cfg_autostart_dir cfg) = DirMissing)"

text \<open>The INI library on the two templates.\<close>

definition reads_templates :: "(string \<Rightarrow> ini_file option) \<Rightarrow> bool" where
  "reads_templates parse \<longleftrightarrow>
     (case parse daemons_template of None \<Rightarrow> False | Some f \<Rightarrow> named_sections f = [template_daemon])
   \<and> (case parse kerno_template of None \<Rightarrow> False | Some f \<Rightarrow> if_section f ''composer'' = Some template_composer)"

lemma first_daemons:
  assumes "fresh_home b cfg mkdir write" and "reads_templates (be_ini b)" and "go_sort dc_order (be_daemon_sort b)"
  shows "boot_daemons b cfg uid home =
    (if mkdir (path_dir (cfg_daemons_ini cfg)) \<and> write (cfg_daemons_ini cfg)
     then [first_daemon (ade_runtime_dir (be_getenv b) uid)] else [])"
proof -
  obtain f where f: "be_ini b daemons_template = Some f" "named_sections f = [template_daemon]"
    using assms(2) by (auto simp: reads_templates_def split: option.splits)
  have "be_daemon_sort b [c] = [c]" for c
    using assms(3) mset_single_iff [of "be_daemon_sort b [c]" c] by (simp add: go_sort_def)
  then show ?thesis
    using assms(1) f
    by (simp add: boot_daemons_def Let_def load_config_def fresh_home_def template_read template_daemon_config)
qed

lemma first_wm:
  assumes "fresh_home b cfg mkdir write" and "reads_templates (be_ini b)"
    and "be_getenv b ''ADE_COMPOSITOR'' = []" "be_getenv b ''ADE_WM'' = []" "be_getenv b ''ADE_WM_RESTART'' = []"
  shows "boot_wm b cfg uid home =
    \<lparr>wc_spec = (if mkdir (path_dir (cfg_kerno_ini cfg)) \<and> write (cfg_kerno_ini cfg) then ''Hyprland'' else []),
     wc_restart = RestartAlways\<rparr>"
proof -
  obtain f where f: "be_ini b kerno_template = Some f" "if_section f ''composer'' = Some template_composer"
    using assms(2) by (auto simp: reads_templates_def split: option.splits)
  have "wm_parse_policy [] = []" "wm_parse_policy ''always'' = RestartAlways"
    by (simp_all add: wm_parse_policy_def template_trims policy_names)
  then show ?thesis
    using assms(1,3-5) f
    by (simp add: boot_wm_def Let_def load_wm_config_def load_composer_def parse_composer_def fresh_home_def
        template_read template_trims template_expansions expand_composer_var_def wm_load_config_def
        empty_composer_def has_prefix_def policy_names)
qed

lemma first_programs:
  assumes "fresh_home b cfg mkdir write"
  shows "boot_programs b cfg uid home = []"
  using assms by (simp add: boot_programs_def Let_def load_program_configs_def scan_dir_def fresh_home_def)


definition template_reader :: "string \<Rightarrow> ini_file option" where
  "template_reader s =
     (if s = daemons_template then Some (ini_file_of [template_daemon])
      else if s = kerno_template then Some (ini_file_of [template_composer]) else None)"

definition new_home :: boot_env where
  "new_home = empty_home
     \<lparr>be_created := (\<lambda>p. True), be_ini := template_reader,
      be_again := (\<lambda>p. FileData (if p = ''/home/u/.config/ade/daemons.ini'' then daemons_template else kerno_template))\<rparr>"


lemma templates_differ: "daemons_template \<noteq> kerno_template"
proof -
  have "take 3 daemons_template = ''# A''" "take 3 kerno_template = ''# C''"
    by (simp_all add: daemons_template_def kerno_template_def)
  then show ?thesis by auto
qed

lemma new_home_paths:
  "cfg_daemons_ini (fst (init_config (\<lambda>_. []) (Some (''1000'', ''/home/u'')))) = ''/home/u/.config/ade/daemons.ini''"
  "cfg_kerno_ini (fst (init_config (\<lambda>_. []) (Some (''1000'', ''/home/u'')))) = ''/home/u/.config/ade/a-kerno.ini''"
proof -
  have "expand_var (\<lambda>_. []) ''1000'' ''/home/u'' default_config_home = ''/home/u/.config/ade''"
    "path_join ''/home/u/.config/ade'' ''daemons.ini'' = ''/home/u/.config/ade/daemons.ini''"
    "path_join ''/home/u/.config/ade'' ''a-kerno.ini'' = ''/home/u/.config/ade/a-kerno.ini''"
    by code_simp+
  then show "cfg_daemons_ini (fst (init_config (\<lambda>_. []) (Some (''1000'', ''/home/u'')))) = ''/home/u/.config/ade/daemons.ini''"
    "cfg_kerno_ini (fst (init_config (\<lambda>_. []) (Some (''1000'', ''/home/u'')))) = ''/home/u/.config/ade/a-kerno.ini''"
    by (simp_all add: init_config_def env_or_default_def Let_def)
qed


end
