(* ===== verification/Log_Duplication.thy ===== *)
theory Log_Duplication
  imports Go_Runes Log_Buffer
begin

text \<open>
  The copying of a daemon's output, \<open>internal/logdup/logdup.go\<close> on Linux: two pipes, and one goroutine
  per pipe that scans lines, logs each with a prefix and hands it to the callback, which is the append
  of the daemon's log buffer. The two goroutines take turns in any order, so what the callback sees is
  some interleaving of the lines of both streams.
\<close>

section \<open>The code\<close>

text \<open>\<open>Duplicate\<close>: whether each \<open>os.Pipe\<close> succeeds; the result is the prefix of the log lines. The
  ends of the first pipe are closed again when the second fails.\<close>

datatype dup_error = StdoutPipe | StderrPipe | NotSupported
datatype pipe_effect = PipeOpened | PipeClosed

definition duplicate :: "bool \<Rightarrow> bool \<Rightarrow> string \<Rightarrow> (dup_error + string) \<times> pipe_effect list" where
  "duplicate pipe1 pipe2 name =
     (if \<not> pipe1 then (Inl StdoutPipe, [])
      else if \<not> pipe2 then (Inl StderrPipe, [PipeOpened, PipeClosed])
      else (Inr (''['' @ name @ ''] ''), [PipeOpened, PipeOpened]))"

definition scan_limit :: nat where "scan_limit = 2 * 1024 * 1024"

text \<open>The lines \<open>scanLines\<close> takes from a pipe that delivers \<open>out\<close>; an error of the scanner is ignored.\<close>

definition copied_lines :: "string \<Rightarrow> string list" where
  "copied_lines out = fst (scan_lines scan_limit out)"

text \<open>The body of the loop: the logger and the callback, whose panic would end the program.\<close>

definition copy_line ::
  "string \<Rightarrow> (string \<Rightarrow> 's \<Rightarrow> (unit, 's) outcome) \<Rightarrow> string \<Rightarrow> string list \<times> 's
    \<Rightarrow> (unit, string list \<times> 's) outcome" where
  "copy_line prefix lineCb l st =
     (case st of (logged, s) \<Rightarrow> obind (lineCb l s) (\<lambda>s'. Ok (logged @ [prefix @ l], s')))"

fun copy_lines ::
  "string \<Rightarrow> (string \<Rightarrow> 's \<Rightarrow> (unit, 's) outcome) \<Rightarrow> string list \<Rightarrow> string list \<times> 's
    \<Rightarrow> (unit, string list \<times> 's) outcome"
where
  "copy_lines prefix lineCb [] st = Ok st"
| "copy_lines prefix lineCb (l # ls) st = obind (copy_line prefix lineCb l st) (copy_lines prefix lineCb ls)"

text \<open>\<open>Close\<close> of the writers: the two write ends, then the wait for the two goroutines, then the two read
  ends. A goroutine ends when its scanner does: at the end of the stream, which comes when no process holds
  a write end any more (\<open>held\<close>), or after a line that is too long. None: \<open>Close\<close> does not return.\<close>

definition copy_ends :: "bool \<Rightarrow> string \<Rightarrow> bool" where
  "copy_ends held out \<longleftrightarrow> \<not> held \<or> \<not> snd (scan_lines scan_limit out)"

definition close_log_writers :: "bool \<times> string \<Rightarrow> bool \<times> string \<Rightarrow> pipe_effect list option" where
  "close_log_writers stdout stderr =
     (if copy_ends (fst stdout) (snd stdout) \<and> copy_ends (fst stderr) (snd stderr)
      then Some ([PipeClosed, PipeClosed] @ [PipeClosed, PipeClosed]) else None)"

text \<open>\<open>Duplicate\<close> and \<open>Close\<close> on systems other than Linux.\<close>

definition duplicate_stub :: "string \<Rightarrow> (dup_error + string) \<times> pipe_effect list" where
  "duplicate_stub name = (Inl NotSupported, [])"

definition close_stub :: "pipe_effect list option" where
  "close_stub = Some []"

section \<open>What is logged and kept\<close>

lemma copy_lines_append:
  assumes "lb_append_all ls lb = Ok lb'"
  shows "copy_lines prefix lb_append ls (logged, lb) = Ok (logged @ map (\<lambda>l. prefix @ l) ls, lb')"
  using assms
proof (induction ls arbitrary: logged lb)
  case (Cons l ls)
  then obtain lb1 where "lb_append l lb = Ok lb1" "lb_append_all ls lb1 = Ok lb'"
    by (auto simp: outcome_iff)
  with Cons.IH show ?case by (simp add: copy_line_def)
qed simp

lemma copied_text:
  assumes "\<forall>l \<in> set ls. NL \<notin> set l"
  shows "copied_lines (concat (map (\<lambda>l. l @ [NL]) ls)) = map drop_cr (takeWhile (\<lambda>l. length l < scan_limit) ls)"
  by (simp add: copied_lines_def scan_lines_text [OF assms])

text \<open>From what a daemon writes to its two streams, the lines up to the first one of two megabytes are
  taken from each stream and the rest of that stream is not read; in whatever order the two goroutines
  run, each line taken is logged once behind the prefix, and the log buffer holds the last of them.\<close>

theorem duplicated_output:
  assumes "\<forall>l \<in> set outs \<union> set errs. NL \<notin> set l"
    and "zs \<in> shuffles (copied_lines (concat (map (\<lambda>l. l @ [NL]) outs)))
                        (copied_lines (concat (map (\<lambda>l. l @ [NL]) errs)))"
  shows "\<exists>lb. copy_lines prefix lb_append zs ([], new_log_buffer n) = Ok (map (\<lambda>l. prefix @ l) zs, lb)
    \<and> lb_contents lb = last_n (if n \<le> 0 then 1 else nat n) zs
    \<and> mset zs = mset (map drop_cr (takeWhile (\<lambda>l. length l < scan_limit) outs))
        + mset (map drop_cr (takeWhile (\<lambda>l. length l < scan_limit) errs))"
proof -
  obtain lb where lb: "lb_append_all zs (new_log_buffer n) = Ok lb"
    "lb_contents lb = last_n (if n \<le> 0 then 1 else nat n) zs"
    using ring.appends_to_new [of zs n] by (auto simp: lb_append_all_ring ring.new_ok(3))
  have "mset zs = mset (copied_lines (concat (map (\<lambda>l. l @ [NL]) outs)))
      + mset (copied_lines (concat (map (\<lambda>l. l @ [NL]) errs)))"
    using assms(2) by (rule mset_shuffles)
  then show ?thesis
    using copy_lines_append [OF lb(1), of prefix "[]"] lb(2) assms(1) by (auto simp: copied_text)
qed

theorem duplicated_output_witness:
  "\<exists>lb. copy_lines ''[bus] '' lb_append [''up'', ''warn''] ([], new_log_buffer 1)
      = Ok ([''[bus] up'', ''[bus] warn''], lb) \<and> lb_contents lb = [''warn'']"
proof -
  have "copied_lines (concat (map (\<lambda>l. l @ [NL]) [''up''])) = [''up'']"
    "copied_lines (concat (map (\<lambda>l. l @ [NL]) [''warn''])) = [''warn'']"
    by (subst copied_text; simp add: scan_limit_def drop_cr_def)+
  then have "[''up'', ''warn''] \<in> shuffles (copied_lines (concat (map (\<lambda>l. l @ [NL]) [''up''])))
      (copied_lines (concat (map (\<lambda>l. l @ [NL]) [''warn''])))"
    by simp
  from duplicated_output [OF _ this, of "''[bus] ''" 1] show ?thesis by (auto simp: last_n_def)
qed

text \<open>\<open>Close\<close> after the daemon has ended returns exactly if no process it left behind holds the
  write end of a pipe whose lines all fit the scanner. \<open>cleanupDaemon\<close> and the monitor call it while they hold
  the daemon's lock, so a process that a daemon left outside of its process group, and that keeps its output,
  blocks every later call on that daemon.\<close>

theorem close_waits_for_holders:
  assumes "\<forall>l \<in> set outs \<union> set errs. NL \<notin> set l"
  shows "close_log_writers (held1, concat (map (\<lambda>l. l @ [NL]) outs)) (held2, concat (map (\<lambda>l. l @ [NL]) errs)) = None
    \<longleftrightarrow> held1 \<and> (\<forall>l \<in> set outs. length l < scan_limit) \<or> held2 \<and> (\<forall>l \<in> set errs. length l < scan_limit)"
  using assms by (auto simp: close_log_writers_def copy_ends_def scan_lines_text)

theorem close_waits_for_holders_witness:
  "close_log_writers (True, ''up'' @ [NL]) (False, []) = None"
  using close_waits_for_holders [of "[''up'']" "[]" True False] by (simp add: scan_limit_def)

end
