(* ===== verification/Config_Watch.thy ===== *)
theory Config_Watch
  imports Polling
begin

text \<open>
  The watcher of \<open>daemons.ini\<close>, \<open>WatchConfig\<close> of \<open>internal/daemon/manager.go\<close>: the loop over the events
  of \<open>fsnotify\<close> with its debounce timer. The library is not part of the repository; what it delivers is
  a list of events with their times. The result is the list of times at which \<open>reloadConfig\<close> runs.
\<close>

datatype watch_event =
    FsEvent time bool
  | FsError time
  | ChannelClosed time
  | ContextDone time

fun event_time :: "watch_event \<Rightarrow> time" where
  "event_time (FsEvent t relevant) = t"
| "event_time (FsError t) = t"
| "event_time (ChannelClosed t) = t"
| "event_time (ContextDone t) = t"

definition debounce_interval :: time where "debounce_interval = sec 1"

text \<open>The timer is the time at which it fires, None when there is none pending. Stopping a timer that
  has fired has no effect, so a reload that is due before the event runs. Only a write or a create is
  \<open>relevant\<close>. When a channel is closed the loop ends and the timer is left to fire.\<close>

fun watch_loop :: "time option \<Rightarrow> watch_event list \<Rightarrow> time list" where
  "watch_loop timer [] = (case timer of None \<Rightarrow> [] | Some f \<Rightarrow> [f])"
| "watch_loop timer (e # es) =
     (let (fired, pending) =
            (case timer of
               None \<Rightarrow> ([], None)
             | Some f \<Rightarrow> if f \<le> event_time e then ([f], None) else ([], Some f))
      in fired @
         (case e of
            ContextDone t \<Rightarrow> []
          | ChannelClosed t \<Rightarrow> (case pending of None \<Rightarrow> [] | Some f \<Rightarrow> [f])
          | FsError t \<Rightarrow> watch_loop pending es
          | FsEvent t relevant \<Rightarrow>
              if \<not> relevant then watch_loop pending es
              else watch_loop (Some (t + debounce_interval)) es))"

datatype watch_error = WatcherFailed | WatchFailed

text \<open>\<open>WatchConfig\<close>: whether the watcher is created and the file added to it.\<close>

definition watch_config :: "bool \<Rightarrow> bool \<Rightarrow> watch_event list \<Rightarrow> watch_error + time list" where
  "watch_config created added events =
     (if \<not> created then Inl WatcherFailed
      else if \<not> added then Inl WatchFailed
      else Inr (watch_loop None events))"

section \<open>When the configuration is reloaded\<close>

text \<open>The reference: the times of changes after which it stays quiet for the debounce interval.\<close>

fun quiet :: "time list \<Rightarrow> time list" where
  "quiet [] = []"
| "quiet [t] = [t]"
| "quiet (t # u # ts) = (if t + debounce_interval \<le> u then t # quiet (u # ts) else quiet (u # ts))"

fun changes :: "watch_event list \<Rightarrow> time list" where
  "changes [] = []"
| "changes (FsEvent t relevant # es) = (if relevant then t # changes es else changes es)"
| "changes (e # es) = changes es"

definition keeps_watching :: "watch_event \<Rightarrow> bool" where
  "keeps_watching e \<longleftrightarrow> (case e of ContextDone _ \<Rightarrow> False | ChannelClosed _ \<Rightarrow> False | _ \<Rightarrow> True)"

lemma changes_times: "t \<in> set (changes es) \<Longrightarrow> t \<in> event_time ` set es"
  by (induction es rule: changes.induct) (auto split: if_splits)

lemma quiet_subset: "t \<in> set (quiet ts) \<Longrightarrow> t \<in> set ts"
  by (induction ts rule: quiet.induct) (auto split: if_splits)

text \<open>The loop with a pending timer of a change at \<open>t\<close>, which nothing before the first event has reset.\<close>

lemma quiet_Cons:
  "quiet (t # ts) = (case ts of [] \<Rightarrow> [t] | u # us \<Rightarrow> (if t + debounce_interval \<le> u then [t] else []) @ quiet ts)"
  by (cases ts) auto

lemma watch_loop_pending:
  assumes "sorted (map event_time es)" and "\<forall>e \<in> set es. keeps_watching e"
  shows "watch_loop None es = map (\<lambda>t. t + debounce_interval) (quiet (changes es))
    \<and> (\<forall>t. watch_loop (Some (t + debounce_interval)) es
        = map (\<lambda>t. t + debounce_interval) (quiet (t # changes es)))"
  using assms
proof (induction es)
  case Nil
  then show ?case by simp
next
  case (Cons e es)
  have s: "sorted (map event_time es)" "\<forall>e \<in> set es. keeps_watching e" using Cons.prems by auto
  note IH = Cons.IH [OF s]
  have late: "t + debounce_interval \<le> u" if "t + debounce_interval \<le> event_time e" "u \<in> set (changes es)" for t u
    using that Cons.prems(1) changes_times [OF that(2)] by fastforce
  have skip: "quiet (t # changes es) = t # quiet (changes es)"
    if "t + debounce_interval \<le> event_time e" for t
    using late [OF that] by (cases "changes es") (auto simp: quiet_Cons)
  show ?case
  proof (cases e)
    case (FsEvent u relevant)
    then show ?thesis
      using IH skip by (cases relevant) (auto simp: quiet_Cons [of _ "u # changes es"])
  next
    case (FsError u)
    then show ?thesis using IH skip by auto
  qed (use Cons.prems in \<open>auto simp: keeps_watching_def\<close>)
qed

text \<open>Two reloads are at least the debounce interval apart.\<close>

lemma quiet_gaps:
  "sorted ts \<Longrightarrow> Suc i < length (quiet ts) \<Longrightarrow> quiet ts ! i + debounce_interval \<le> quiet ts ! Suc i"
proof (induction ts arbitrary: i rule: quiet.induct)
  case (3 t u ts)
  show ?case
  proof (cases "t + debounce_interval \<le> u")
    case True
    have first: "u \<le> x" if "x \<in> set (quiet (u # ts))" for x
      using quiet_subset [OF that] 3(3) by auto
    show ?thesis
    proof (cases i)
      case 0
      then have "quiet (u # ts) ! 0 \<in> set (quiet (u # ts))" using 3(4) True by (intro nth_mem) simp
      then show ?thesis using first 0 True by force
    next
      case (Suc j)
      then show ?thesis using 3 True by simp
    qed
  next
    case False
    then show ?thesis using 3 by simp
  qed
qed auto

lemma last_quiet: "ts \<noteq> [] \<Longrightarrow> quiet ts \<noteq> [] \<and> last (quiet ts) = last ts"
  by (induction ts rule: quiet.induct) auto

text \<open>C40: While the watcher runs, the file is reloaded exactly one second after each change that no other
  change follows within that second; so two reloads are never closer than a second, and the last change
  is always followed by one.\<close>

theorem watch_reloads:
  assumes "sorted (map event_time es)" and "\<forall>e \<in> set es. keeps_watching e"
    and "watch_config True True es = Inr reloads"
  shows "reloads = map (\<lambda>t. t + debounce_interval) (quiet (changes es))
    \<and> (\<forall>i. Suc i < length reloads \<longrightarrow> reloads ! i + debounce_interval \<le> reloads ! Suc i)
    \<and> (changes es \<noteq> [] \<longrightarrow> last reloads = last (changes es) + debounce_interval)"
proof -
  have r: "reloads = map (\<lambda>t. t + debounce_interval) (quiet (changes es))"
    using watch_loop_pending [OF assms(1,2)] assms(3) by (simp add: watch_config_def)
  have "sorted (changes es)"
    using assms(1) by (induction es rule: changes.induct) (auto dest!: changes_times)
  then have "\<forall>i. Suc i < length reloads \<longrightarrow> reloads ! i + debounce_interval \<le> reloads ! Suc i"
    using quiet_gaps [of "changes es"] by (simp add: r add.commute)
  moreover have "changes es \<noteq> [] \<longrightarrow> last reloads = last (changes es) + debounce_interval"
    using last_quiet [of "changes es"] by (simp add: r last_map)
  ultimately show ?thesis using r by blast
qed

theorem watch_reloads_witness:
  "watch_config True True [FsEvent 0 True, FsEvent (ms 300) True, FsError (ms 400), FsEvent (sec 5) True]
   = Inr [ms 300 + sec 1, sec 5 + sec 1]"
proof -
  let ?es = "[FsEvent 0 True, FsEvent (ms 300) True, FsError (ms 400), FsEvent (sec 5) True]"
  have "watch_config True True ?es = Inr (watch_loop None ?es)" by (simp add: watch_config_def)
  moreover have "sorted (map event_time ?es)" "\<forall>e \<in> set ?es. keeps_watching e"
    by (simp_all add: ms_def sec_def keeps_watching_def)
  moreover have "quiet (changes ?es) = [ms 300, sec 5]" by (simp add: debounce_interval_def ms_def sec_def)
  ultimately show ?thesis
    using watch_reloads [of ?es "watch_loop None ?es"] by (simp add: debounce_interval_def)
qed

end
