(* ===== verification/Shutdown_Bound.thy ===== *)
theory Shutdown_Bound
  imports Orchestrator
begin

text \<open>
  How long the shutdown takes. Each stop of one program, daemon or WM waits at most ten seconds and the
  100 milliseconds after SIGKILL, and the last round of polling may be late by the sleep and a lag; the
  shutdown is as many of them as there are things to stop.
\<close>

section \<open>Operations of bounded duration\<close>

definition stop_limit :: "time \<Rightarrow> time" where "stop_limit L = sec 10 + ms 200 + L"

text \<open>An operation of a manager that is done on one name after the other and never takes longer than
  \<open>stop_limit L\<close>, where \<open>lags L\<close> says that no round of polling takes longer than \<open>L\<close> besides its
  sleep.\<close>

locale timed_op = named_op lookup op
  for lookup :: "'s \<Rightarrow> string \<Rightarrow> 'v option" and op :: "string \<Rightarrow> 's \<Rightarrow> 's" +
  fixes clock :: "'s \<Rightarrow> time"
    and lags :: "time \<Rightarrow> bool"
  assumes op_clock: "lags L \<Longrightarrow> clock s \<le> clock (op n s) \<and> clock (op n s) \<le> clock s + stop_limit L"
begin

lemma each_clock:
  assumes "lags L"
  shows "clock s \<le> clock (each ns s) \<and> clock (each ns s) \<le> clock s + int (length ns) * stop_limit L"
proof (induction ns arbitrary: s)
  case (Cons n ns)
  have "clock (op n s) \<le> clock (each ns (op n s))
      \<and> clock (each ns (op n s)) \<le> clock (op n s) + int (length ns) * stop_limit L" by (rule Cons)
  with op_clock [OF assms, of s n] show ?case by (simp add: algebra_simps)
qed simp

end

definition lag_within :: "(time \<Rightarrow> nat) \<Rightarrow> time \<Rightarrow> bool" where
  "lag_within lag L \<longleftrightarrow> (\<forall>t. int (lag t) \<le> L)"

lemma lag_within_nonneg: "lag_within lag L \<Longrightarrow> 0 \<le> L"
  unfolding lag_within_def by (meson of_nat_0_le_iff order_trans)

lemma stop_limit_nonneg [simp]: "0 \<le> L \<Longrightarrow> 0 \<le> stop_limit L"
  by (simp add: stop_limit_def sec_def ms_def)

lemma stop_wait_within:
  "lag_within lag L \<Longrightarrow> stop_wait alive cancelled lag now = (r, t) \<Longrightarrow> now \<le> t \<and> t + ms 100 \<le> now + stop_limit L"
  using stop_wait_by [of lag L alive cancelled now r t] by (simp add: lag_within_def stop_limit_def ms_def)

lemma dm_stop_clock:
  assumes "lag_within (e_lag env) L"
  shows "dm_clock m \<le> dm_clock (fst (dm_stop env n m)) \<and> dm_clock (fst (dm_stop env n m)) \<le> dm_clock m + stop_limit L"
proof (cases "dm_get m n")
  case None
  then show ?thesis using lag_within_nonneg [OF assms] by (simp add: dm_stop_def)
next
  case (Some d)
  obtain w t where w: "stop_wait (e_alive env (d_pgid d)) (e_cancelled env) (e_lag env) (dm_clock m) = (w, t)"
    by fastforce
  from stop_wait_within [OF assms w] lag_within_nonneg [OF assms] show ?thesis
    by (cases w) (auto simp: dm_stop_def Some Let_def w dm_cleanup_def dm_at_def dm_emit_def dm_modify_def
        dm_put_def ms_def split: option.split)
qed

lemma stop_program_clock:
  assumes "lag_within (pe_lag env) L"
  shows "pm_clock m \<le> pm_clock (fst (stop_program env n m))
    \<and> pm_clock (fst (stop_program env n m)) \<le> pm_clock m + stop_limit L"
proof (cases "pm_get m n")
  case None
  then show ?thesis using lag_within_nonneg [OF assms] by (simp add: stop_program_def)
next
  case (Some p)
  obtain w t where w: "stop_wait (pe_alive env (p_pid p)) (pe_cancelled env) (pe_lag env) (pm_clock m) = (w, t)"
    by fastforce
  from stop_wait_within [OF assms w] lag_within_nonneg [OF assms] show ?thesis
    by (cases w) (auto simp: stop_program_def Some Let_def w pm_at_def pm_emit_def pm_modify_def pm_put_def
        ms_def split: option.split)
qed

lemma wm_stop_clock:
  assumes "lag_within (we_lag env) L"
  shows "w_clock m \<le> w_clock (fst (wm_stop env m)) \<and> w_clock (fst (wm_stop env m)) \<le> w_clock m + stop_limit L"
proof -
  obtain w t where w: "stop_wait (wm_alive env (w_pgid m)) (we_cancelled env) (we_lag env) (w_clock m) = (w, t)"
    by fastforce
  from stop_wait_within [OF assms w] lag_within_nonneg [OF assms] show ?thesis
    by (cases w) (auto simp: wm_stop_def Let_def w wm_sections ms_def)
qed

interpretation daemon_stops: timed_op dm_get "\<lambda>n m. fst (dm_stop env n m)" dm_clock "lag_within (e_lag env)" for env
  by unfold_locales (auto simp: dm_stop_clock)

interpretation program_stops: timed_op pm_get "\<lambda>n m. fst (stop_program env n m)" pm_clock
    "lag_within (pe_lag env)" for env
  by unfold_locales (auto simp: stop_program_clock)

section \<open>The stages\<close>

lemma stop_programs_each: "stop_programs env names m = prog_stops.each env names m"
  by (induction names arbitrary: m) auto

lemma dm_stop_all_clock:
  assumes "lag_within (e_lag env) L" and "go_sort (\<lambda>e. - snd e) srt"
  shows "dm_clock m \<le> dm_clock (fst (dm_stop_all env srt m))
    \<and> dm_clock (fst (dm_stop_all env srt m)) \<le> dm_clock m + int (length (stop_entries m)) * stop_limit L"
proof -
  have "length (srt (stop_entries m)) = length (stop_entries m)" using assms(2) by (metis go_sort_mset size_mset)
  then show ?thesis
    using daemon_stops.each_clock [OF assms(1), of m "map fst (srt (stop_entries m))"]
    by (simp add: dm_stop_all_def stop_each_each)
qed

lemma stop_phase_clock:
  assumes "lag_within (pe_lag env) L"
  shows "pm_clock m \<le> pm_clock (fst (stop_phase env phase m))
    \<and> pm_clock (fst (stop_phase env phase m)) \<le> pm_clock m + int (length (stop_phase_names phase m)) * stop_limit L"
  using program_stops.each_clock [OF assms, of m "stop_phase_names phase m"]
  by (simp add: stop_phase_def stop_programs_each)

text \<open>The programs of a phase, which no stop changes.\<close>

definition phase_members :: "string \<Rightarrow> pm \<Rightarrow> string set" where
  "phase_members phase m = {k. \<exists>p. pm_get m k = Some p \<and> phase_or_default p = phase}"

lemma stop_phase_names_card:
  assumes "pm_inv m"
  shows "length (stop_phase_names phase m) \<le> card (phase_members phase m)"
proof -
  have ok: "pm_map_ok m" using assms by (simp add: pm_inv_def)
  have "distinct (stop_phase_names phase m)"
    using ok by (simp add: stop_phase_names_def pm_map_ok_def go_map_ok_def distinct_map_filter)
  moreover have "set (stop_phase_names phase m) \<subseteq> phase_members phase m"
    using stop_phase_names_set [OF ok, of _ phase] by (auto simp: phase_members_def)
  moreover have "finite (phase_members phase m)"
    by (rule finite_subset [of _ "dom (pm_get m)"])
      (auto simp: phase_members_def pm_get_def [abs_def] finite_dom_map_of)
  ultimately show ?thesis by (metis card_mono distinct_card)
qed

lemma phase_members_stop: "phase_members phase (fst (stop_phase env phase' m)) = phase_members phase m"
proof -
  have "(\<exists>p. pm_get (fst (stop_phase env phase' m)) k = Some p \<and> phase_or_default p = phase)
      \<longleftrightarrow> (\<exists>p. pm_get m k = Some p \<and> phase_or_default p = phase)" for k
    using stop_programs_config [of env "stop_phase_names phase' m" m k]
    by (cases "pm_get m k"; cases "pm_get (stop_programs env (stop_phase_names phase' m) m) k")
      (simp_all add: stop_phase_def phase_or_default_def)
  then show ?thesis by (simp add: phase_members_def)
qed

lemma phase_members_at [simp]: "phase_members phase (pm_at t m) = phase_members phase m"
  by (simp add: phase_members_def)

lemma phase_members_all:
  assumes "pm_inv m"
  shows "card (phase_members phase_post m) + card (phase_members phase_early m) \<le> length (pm_list m)"
proof -
  let ?D = "dom (pm_get m)"
  have fin: "finite ?D" by (simp add: pm_get_def [abs_def] finite_dom_map_of)
  have sub: "phase_members phase_post m \<union> phase_members phase_early m \<subseteq> ?D"
    "phase_members phase_post m \<inter> phase_members phase_early m = {}"
    by (auto simp: phase_members_def phase_post_def phase_early_def)
  then have "card (phase_members phase_post m) + card (phase_members phase_early m) \<le> card ?D"
    using fin by (metis card_Un_disjoint card_mono finite_Un finite_subset)
  also have "card ?D \<le> length (pm_list m)"
    by (simp add: pm_get_def [abs_def] dom_map_of_conv_image_fst pm_list_def) (metis card_length length_map list.set_map)
  finally show ?thesis .
qed

text \<open>One stage: it begins and ends at the orchestrator's clock.\<close>

definition stage_within :: "orch \<Rightarrow> orch \<Rightarrow> time \<Rightarrow> bool" where
  "stage_within x x' T \<longleftrightarrow> o_clock x \<le> o_clock x' \<and> o_clock x' \<le> o_clock x + T"

lemma stop_phase_within:
  assumes "lag_within (pe_lag env) L" and "pm_inv (o_pm x)"
    and "on_pm (stop_phase env phase) x = (x', r)"
  shows "stage_within x x' (int (card (phase_members phase (o_pm x))) * stop_limit L)
    \<and> pm_inv (o_pm x') \<and> phase_members ph (o_pm x') = phase_members ph (o_pm x)"
proof -
  let ?m = "pm_at (o_clock x) (o_pm x)"
  have inv: "pm_inv ?m" using assms(2) by simp
  have n: "int (length (stop_phase_names phase ?m)) * stop_limit L
      \<le> int (card (phase_members phase (o_pm x))) * stop_limit L"
    using stop_phase_names_card [OF inv, of phase] lag_within_nonneg [OF assms(1)]
    by (intro mult_right_mono) simp_all
  have x': "o_pm x' = fst (stop_phase env phase ?m)" "o_clock x' = pm_clock (fst (stop_phase env phase ?m))"
    using assms(3) by (auto simp: on_pm_def split: prod.splits)
  have "pm_inv (o_pm x')" unfolding x' stop_phase_def using stop_programs_inv [OF inv] by simp
  moreover have "stage_within x x' (int (card (phase_members phase (o_pm x))) * stop_limit L)"
    using stop_phase_clock [OF assms(1), of ?m phase] n by (simp add: stage_within_def x' pm_at_def)
  ultimately show ?thesis by (simp add: x' phase_members_stop)
qed

lemma wm_stop_within:
  assumes "lag_within (we_lag env) L" and "on_wm (wm_stop env) x = (x', r)"
  shows "stage_within x x' (stop_limit L)"
  using wm_stop_clock [OF assms(1), of "(o_wm x)\<lparr>w_clock := o_clock x\<rparr>"] assms(2)
  by (auto simp: stage_within_def on_wm_def split: prod.splits)

lemma stop_all_within:
  assumes "lag_within (e_lag env) L" and "go_sort (\<lambda>e. - snd e) srt"
    and "on_dm (dm_stop_all env srt) x = (x', r)"
  shows "stage_within x x' (int (length (stop_entries (o_dm x))) * stop_limit L)"
  using dm_stop_all_clock [OF assms(1,2), of "dm_at (o_clock x) (o_dm x)"] assms(3)
  by (auto simp: stage_within_def on_dm_def dm_at_def [of "o_clock x"] stop_entries_at [unfolded dm_at_def]
      split: prod.splits)



end
