(* ===== verification/Spec2Isabelle.thy ===== *)
theory Spec2Isabelle
  imports Server_Connection Orchestrator Schedules Restart_Policy Lock_Order Kerno_Life Process_Launch
    Client_Protocol First_Start Log_Duplication Config_Watch Server_Listener Shutdown_Bound
begin

text \<open>
  A verification development for a-kerno, the session daemon of ADE (\<open>0xADE/a-kerno\<close>, Go). The program
  reads declarative configuration, starts daemons, a session window manager and user programs in a
  fixed order, watches them, and serves a management socket in two protocols. The model is a shallow
  embedding: each Go function is an Isabelle function over an explicit state, in the order and with
  the branches of the source.

  \<^bold>\<open>Conventions.\<close> A Go \<open>string\<close> is Isabelle's \<open>string\<close> (a list of bytes); \<open>int\<close> is 64 bits wide, and
  machine words are used where a width decides what happens (length fields of frames, durations).
  A Go map is an association list whose order is the order a \<open>range\<close> loop meets it in, so a theorem
  about all lists holds for every iteration order; \<open>sort.Slice\<close>, which is not stable, is a parameter
  with the contract \<open>go_sort\<close> wherever keys may repeat. Errors are values of data types; the wording of
  error messages is not modelled. A run-time panic is the value \<open>Panic\<close>. What the operating system
  answers (does a process live, does a socket accept, can it be spawned, is the context done) is a
  record of functions of time; what the program does to the outside world is a trace in the state.
  Clocks count nanoseconds. Third-party packages are parameters: \<open>errgroup\<close> is a record with its
  documented behaviour \<open>errgroup_doc\<close>, and the INI library is the record of answers it gives.

  \<^bold>\<open>Theories, from the bottom.\<close>
  \<^item> \<open>Kerno_Prelude\<close>: outcomes of Go operations, slices, streams, Go maps, sorting, and the locales
    \<open>keyed_store\<close> and \<open>named_op\<close> that every manager interprets. \<open>Go_Text\<close>: the part of \<open>strings\<close>,
    \<open>strconv\<close> and \<open>bufio\<close> that the code uses, at byte level.
  \<^item> \<open>Bin_Codec\<close>, \<open>Bin_Parser\<close>, \<open>Bin_Roundtrip\<close>: the BIN01 protocol (\<open>internal/binparser\<close>); what is
    written is read back, and exactly which input makes the reader panic.
  \<^item> \<open>Txt_Parser\<close>, \<open>Txt_Protocol\<close>: the TXT01 parser and response formats (\<open>parser/parser.go\<close>), with
    their round trip.
  \<^item> \<open>Log_Buffer\<close> (\<open>daemon/logbuffer.go\<close>), \<open>Restart_Policy\<close> (\<open>daemon/restart.go\<close>, 64-bit delays),
    \<open>Feature_Registry\<close> (\<open>feature/registry.go\<close>), \<open>Polling\<close> (the waiting loops shared by the managers).
  \<^item> \<open>Daemon_Manager\<close> (\<open>daemon/manager.go\<close>, \<open>daemon.go\<close>, the monitor of \<open>restart.go\<close>): the operations.
    \<open>Daemon_Lifecycle\<close>, \<open>Daemon_Groups\<close>, \<open>Daemon_Shutdown\<close>: the invariant and the outcome of Start, Stop,
    the monitor, StartAll, StopAll and a reload. \<open>Daemon_Steps\<close>: the same operations cut into the
    sections that run under a lock, as an inductive step relation of concurrent calls. \<open>Process_Launch\<close>:
    the commands and the environment that daemons, programs, health checks and the WM are started with.
  \<^item> \<open>Program_Deps\<close> (Kahn's algorithm against a reference), \<open>Program_Manager\<close>, \<open>Program_Lifecycle\<close>,
    \<open>Program_Phases\<close> (\<open>internal/program\<close>): user programs, health checks and phases. \<open>Program_Steps\<close>: the
    concurrent calls on one program. \<open>Schedules\<close>: the sequential operations of both managers are runs of
    these step relations. \<open>Lock_Steps\<close>: the read-write lock of \<open>sync\<close> and what the operations do with
    the lock of one daemon or program, as a step relation of its own. \<open>Lock_Order\<close>: all locks of the
    program together, which are taken in an order: which calls can come to a deadlock and what it
    freezes, and that the others cannot.
  \<^item> \<open>Session_WM\<close> (\<open>internal/sessionwm\<close>): the window manager, its monitor and its configuration.
  \<^item> \<open>Server_Format\<close>, \<open>Server_Handlers\<close>, \<open>Server_Binary\<close>, \<open>Server_Front\<close>, \<open>Server_Commands\<close>,
    \<open>Server_Connection\<close> (\<open>internal/server\<close>): the handlers of both protocols, an abstract server that both
    refine (locale \<open>front_end\<close>), and a connection from its first byte to its end.
    \<open>Server_Listener\<close>: the life of the socket, the accept loop, and which handlers \<open>Stop\<close> waits for.
    \<open>Server_Peers\<close>: binary peers that stay connected, and what every handler keeps of the managers.
  \<^item> \<open>Go_Strings\<close>, \<open>Go_Runes\<close>, \<open>Go_Duration\<close>: more of the standard library at byte level (replacing,
    folding, UTF-8, scanning lines, path cleaning, \<open>time.ParseDuration\<close>). \<open>Ini_Sections\<close>
    (\<open>internal/iniload\<close>) over what the INI library answers.
  \<^item> \<open>Kerno_Config\<close> (\<open>internal/config\<close>), \<open>Composer_Config\<close> (\<open>internal/kernocfg\<close> and \<open>LoadConfig\<close> of
    \<open>internal/sessionwm\<close>), \<open>Daemon_Config\<close> (\<open>daemon/config.go\<close>), \<open>Program_Config\<close>, \<open>Program_Scan\<close>,
    \<open>Program_Loading\<close> (\<open>program/config.go\<close>): from files and environment to configurations, with exactly
    when they are rejected. \<open>Config_Watch\<close>: \<open>WatchConfig\<close> with its debouncing. \<open>Log_Duplication\<close>
    (\<open>internal/logdup\<close>): the output of a daemon on its way to the log and the ring buffer, and its end.
  \<^item> \<open>Client\<close>, \<open>Client_Protocol\<close> (\<open>client/kerno\<close>): the client library, and its sessions with the
    server's model.
  \<^item> \<open>Orchestrator\<close> (\<open>internal/orchestrator\<close>, \<open>cmd/a-kerno\<close>): startup and shutdown over all components.
    \<open>Shutdown_Bound\<close>: how long the shutdown takes. \<open>Boot\<close>: the main program up to the orchestrator;
    \<open>First_Start\<close>: the same without configuration files, from the templates it writes. \<open>Kerno_Events\<close>:
    what happens between startup and shutdown, one event after the other (a connection, a reload, the end
    of a process, a monitor or a health check that wakes up), and the invariant of the whole program.
    \<open>Kerno_Life\<close>: the main program from its start to its exit code. This theory holds the properties that span the components.

  \<^bold>\<open>Bounds and termination.\<close> The polling loops are recursions on the time left before the deadline, with a
  sleep of 100 ms or more in each round (\<open>stop_wait\<close>: ten seconds; \<open>wait_for_socket\<close>: the timeout of the
  daemon), so they are total, and the time at which they return is bounded by theorems. The readers of
  both protocols recurse on the bytes left, \<open>duration_loop\<close> on the text left. Kahn's loop ends because
  every round removes a program. Only the text connection may read for ever; it is followed for a given
  list of reads, and \<open>handler_ends\<close> says that some number of reads is enough. \<open>bufio.Scanner\<close> gives up at
  lines of 64 KiB (desktop files) and 2 MiB (daemon output).

  \<^bold>\<open>Parameters.\<close> The environment, the user, the files and directories and what \<open>ini.v1\<close> makes of a file
  are arguments; so is the floating point step \<open>fp\<close> of \<open>time.ParseDuration\<close>, which no theorem restricts.
  fsnotify is the sequence of events it delivers.

  \<^bold>\<open>Concurrency.\<close> The sequential theories let an operation run from its first section to its last.
  \<open>Kerno_Events\<close> interleaves whole operations, cut where a goroutine waits for a process, a backoff or a
  health check; the commands of one connection advance the clock of the manager they use. \<open>Kerno_Life\<close>
  takes the shutdown without events in between; \<open>shutdown_races_monitor\<close> shows what a monitor does
  there. The interleaving inside Start, Stop and the monitors of one daemon or program is the subject of
  \<open>Daemon_Steps\<close> and \<open>Program_Steps\<close>, that of the lock calls inside these sections of \<open>Lock_Steps\<close> and
  \<open>Lock_Order\<close>.

  \<^bold>\<open>Not modelled.\<close> Log lines, the warnings about legacy markdown files among them, file modes, the wording
  of errors, \<open>SaveConfig\<close> (a placeholder that returns an error), \<open>Close\<close> of the client, which closes its
  connection, and accessors that return a field. What is left of a client's stream after a reply that
  could not be read is not followed. What a process does once it runs is up to the environment.
\<close>

section \<open>Startup\<close>

text \<open>C20: the log of a startup consists of the effects of the early programs, of the daemons, of the
  session WM and of the late programs, in this order, whatever fails; an error of the programs does not
  stop it, an error of the daemons or the WM does. Every process of a program or a daemon that the
  startup spawned has been killed before the next stage begins, because its context belongs to an error
  group that is done when its \<open>Wait\<close> returns.\<close>

theorem startup_sequence:
  assumes "errgroup_doc (oe_dgroup env)" and "errgroup_doc (oe_pgroup env)" and "orch_run env x = (x', r)"
  shows "\<exists>e1 e2 e3 e4. o_log x' = o_log x @ map PE e1 @ map DE e2 @ map WE e3 @ map PE e4
    \<and> (\<forall>pid \<in> set (prog_spawned e1). ProgKilledByContext pid \<in> set e1)
    \<and> (\<forall>pid \<in> set (spawned e2). KilledByContext pid \<in> set e2)
    \<and> (\<forall>pid \<in> set (prog_spawned e4). ProgKilledByContext pid \<in> set e4)
    \<and> (r \<noteq> None \<longrightarrow> e4 = []) \<and> (\<forall>e. r = Some (DaemonsFailed e) \<longrightarrow> e3 = [])"
proof -
  obtain x1 u1 where 1: "run_phase env phase_early x = (x1, u1)" by fastforce
  obtain e1 where e1: "o_log x1 = o_log x @ map PE e1" "prog_killed_after e1"
    using run_phase_step [OF assms(2) 1] by blast
  obtain x2 u2 where 2: "on_dm (dm_start_all (oe_dm env) (oe_dgroup env) (oe_up env)) x1 = (x2, u2)"
    by fastforce
  obtain e2 where e2: "o_log x2 = o_log x1 @ map DE e2" "killed_after e2"
    using start_all_step [OF assms(1) 2] by blast
  let ?x3 = "x2\<lparr>o_features := register_features (dm_list (o_dm x2)) (o_features x2)\<rparr>"
  obtain x4 u4 where 4: "on_wm (wm_start (oe_wm env)) ?x3 = (x4, u4)" by fastforce
  obtain e3 where e3: "o_log x4 = o_log x2 @ map WE e3"
    using wm_start_step [OF 4] by auto
  obtain x5 u5 where 5: "run_phase env phase_post x4 = (x5, u5)" by fastforce
  obtain e4 where e4: "o_log x5 = o_log x4 @ map PE e4" "prog_killed_after e4"
    using run_phase_step [OF assms(2) 5] by blast
  have killed: "prog_killed_after []" by (simp add: prog_killed_after_def)
  consider e where "x' = x2" "r = Some (DaemonsFailed e)" | e where "x' = x4" "r = Some (WmFailed e)"
    | "x' = x5" "r = None"
    using assms(3) 1 2 4 5 by (cases u2; cases u4) (auto simp: orch_run_def Let_def)
  then show ?thesis
  proof cases
    case 1
    with e1 e2 killed show ?thesis
      by (intro exI [of _ e1] exI [of _ e2] exI [of _ "[]"]) (simp add: prog_killed_after_def killed_after_def)
  next
    case 2
    with e1 e2 e3 killed show ?thesis
      by (intro exI [of _ e1] exI [of _ e2] exI [of _ e3] exI [of _ "[]"])
        (simp add: prog_killed_after_def killed_after_def)
  next
    case 3
    with e1 e2 e3 e4 show ?thesis
      by (intro exI [of _ e1] exI [of _ e2] exI [of _ e3] exI [of _ e4])
        (simp add: prog_killed_after_def killed_after_def)
  qed
qed

theorem startup_sequence_witness:
  "\<exists>x' r e1 e2 e3 e4. orch_run demo_oenv demo_orch = (x', r)
     \<and> o_log x' = map PE e1 @ map DE e2 @ map WE e3 @ map PE e4"
proof -
  obtain x' r where run: "orch_run demo_oenv demo_orch = (x', r)" by fastforce
  have "errgroup_doc (oe_dgroup demo_oenv)" "errgroup_doc (oe_pgroup demo_oenv)"
    by (simp_all add: demo_oenv_def first_error_group_doc)
  from startup_sequence [OF this run] run show ?thesis by (auto simp: demo_orch_def)
qed

text \<open>When the startup succeeds, every enabled daemon of the configuration is marked running, every
  enabled daemon the manager holds has its feature, which is ready exactly when the daemon is marked
  running, and a configured session WM is running. (The processes behind the daemons have been killed
  by then, so the features say "ready" for daemons without a process.)\<close>

theorem startup_result:
  assumes "errgroup_doc (oe_dgroup env)" and "go_sort snd (oe_up env)" and "dm_inv (o_dm x)" and "wm_inv (o_wm x)"
    and "errgroup_doc (oe_pgroup env)" and "orch_run env x = (x', None)"
  shows "(\<forall>dc \<in> set (dm_configs (o_dm x)). dc_enabled dc \<longrightarrow>
        (\<exists>d. dm_get (o_dm x') (dc_name dc) = Some d \<and> is_running d))
    \<and> (\<forall>n d. dm_get (o_dm x') n = Some d \<and> dc_enabled (d_config d) \<longrightarrow>
        (\<exists>f. get_feature (o_features x') n = Some f \<and> f_ready f = is_running d))
    \<and> (wm_enabled (o_wm x) \<longrightarrow> w_state (o_wm x') = StateRunning)"
proof -
  obtain x1 u1 where 1: "run_phase env phase_early x = (x1, u1)" by fastforce
  obtain x2 u2 where 2: "on_dm (dm_start_all (oe_dm env) (oe_dgroup env) (oe_up env)) x1 = (x2, u2)"
    by fastforce
  let ?x3 = "x2\<lparr>o_features := register_features (dm_list (o_dm x2)) (o_features x2)\<rparr>"
  obtain x4 u4 where 4: "on_wm (wm_start (oe_wm env)) ?x3 = (x4, u4)" by fastforce
  obtain x5 u5 where 5: "run_phase env phase_post x4 = (x5, u5)" by fastforce
  have ok: "u2 = None" "u4 = None" "x' = x5"
    using assms(6) 1 2 4 5 by (auto simp: orch_run_def Let_def split: option.splits)
  note s1 = run_phase_step [OF assms(5) 1] and s2 = start_all_step [OF assms(1) 2]
    and s4 = wm_start_step [OF 4] and s5 = run_phase_step [OF assms(5) 5]
  have dm: "o_dm x' = o_dm x2" and wm: "o_wm x' = o_wm x4" and ft: "o_features x' = o_features ?x3"
    using s4 s5 ok(3) by auto
  let ?m = "dm_at (o_clock x1) (o_dm x1)"
  have m: "dm_inv ?m" "dm_configs ?m = dm_configs (o_dm x)" using s1 assms(3) by auto
  have all: "dm_start_all (oe_dm env) (oe_dgroup env) (oe_up env) ?m = (o_dm x2, None)"
    using 2 ok(1) by (auto simp: on_dm_def split: prod.splits)
  have inv2: "dm_inv (o_dm x2)"
    using dm_inv_all_started [OF m(1), of "oe_dm env" "oe_dgroup env" "oe_up env"] all by simp
  have running: "\<exists>d. dm_get (o_dm x') (dc_name dc) = Some d \<and> is_running d"
    if "dc \<in> set (dm_configs (o_dm x))" "dc_enabled dc" for dc
    using start_all_running [OF m(1) assms(1,2) all] m(2) that by (simp add: dm is_running_def)
  have feature: "\<exists>f. get_feature (o_features x') n = Some f \<and> f_ready f = is_running d"
    if "dm_get (o_dm x') n = Some d" "dc_enabled (d_config d)" for n d
  proof -
    have d: "d_name d = n" "d \<in> set (dm_list (o_dm x2))"
      using that(1) inv2 dm_list_get [of "o_dm x2" d] by (auto simp: dm dm_inv_def daemon_ok_def)
    from register_features_ready [OF dm_list_names [OF inv2] d(2) that(2), of "o_features x2"] d(1)
    show ?thesis by (simp add: ft)
  qed
  have "w_state (o_wm x') = StateRunning" if "wm_enabled (o_wm x)"
  proof -
    have "o_wm x2 = o_wm x" using s1 s2 by auto
    then have "wm_start (oe_wm env) ((o_wm x)\<lparr>w_clock := o_clock x2\<rparr>) = (o_wm x4, None)"
      using 4 ok(2) by (auto simp: on_wm_def split: prod.splits)
    moreover have "wm_inv ((o_wm x)\<lparr>w_clock := o_clock x2\<rparr>)" "wm_enabled ((o_wm x)\<lparr>w_clock := o_clock x2\<rparr>)"
      using assms(4) that by (simp_all add: wm_inv_def wm_enabled_def)
    ultimately show ?thesis by (simp add: wm wm_start_running)
  qed
  with running feature show ?thesis by blast
qed

lemma demo_run_ok: "\<exists>x'. orch_run demo_oenv demo_orch = (x', None)"
proof -
  obtain x1 u1 where 1: "run_phase demo_oenv phase_early demo_orch = (x1, u1)" by fastforce
  have "errgroup_doc (oe_pgroup demo_oenv)" by (simp add: demo_oenv_def first_error_group_doc)
  from run_phase_step [OF this 1] have x1: "o_dm x1 = demo" "o_wm x1 = demo_wm"
    by (auto simp: demo_orch_def)
  obtain x2 u2 where 2: "on_dm (dm_start_all demo_env first_error_group (sort_key snd)) x1 = (x2, u2)"
    by fastforce
  have u2: "u2 = None"
    using 2 demo_start_all [of "o_clock x1"] by (auto simp: on_dm_def x1 split: prod.splits)
  have w2: "o_wm x2 = demo_wm"
    using start_all_step [of demo_oenv x1 x2 u2] 2 x1 by (auto simp: demo_oenv_def first_error_group_doc)
  obtain x4 u4 where 4: "on_wm (wm_start demo_wenv)
      (x2\<lparr>o_features := register_features (dm_list (o_dm x2)) (o_features x2)\<rparr>) = (x4, u4)" by fastforce
  have "snd (wm_start demo_wenv (demo_wm\<lparr>w_clock := t\<rparr>)) = None" for t
    by (simp add: wm_start_def wm_enabled_def demo_wm_def new_wm_def start_process_result demo_wm_fields
        demo_wenv_def)
  then have "u4 = None" using 4 w2 by (auto simp: on_wm_def split: prod.splits) (metis snd_conv)
  with 1 2 4 u2 show ?thesis by (auto simp: orch_run_def Let_def demo_oenv_def)
qed

theorem startup_result_witness:
  "\<exists>x' d. orch_run demo_oenv demo_orch = (x', None) \<and> dm_get (o_dm x') ''bus'' = Some d \<and> is_running d
     \<and> w_state (o_wm x') = StateRunning"
proof -
  obtain x' where run: "orch_run demo_oenv demo_orch = (x', None)" using demo_run_ok by blast
  have "errgroup_doc (oe_dgroup demo_oenv)" "errgroup_doc (oe_pgroup demo_oenv)" "go_sort snd (oe_up demo_oenv)"
    by (simp_all add: demo_oenv_def first_error_group_doc)
  moreover have "dm_inv (o_dm demo_orch)" "wm_inv (o_wm demo_orch)" "wm_enabled (o_wm demo_orch)"
    by (simp_all add: demo_orch_def demo_inv demo_wm_def new_wm_def wm_inv_def wm_enabled_def)
  ultimately show ?thesis
    using startup_result [OF _ _ _ _ _ run] run by (auto simp: demo_orch_def demo_names)
qed

section \<open>Shutdown\<close>



text \<open>The main program ends with 0 exactly when its server listens, the startup succeeds and the
  server can be stopped. When the startup fails it stops the session WM and the daemons but leaves the
  programs as they are: early programs that are marked running stay so and get no signal.\<close>

theorem main_exit_code:
  shows "(snd (kerno_main env listening meanwhile stopped x) = Some 0
      \<longleftrightarrow> listening \<and> snd (orch_run env x) = None \<and> stopped)
    \<and> (snd (kerno_main env listening meanwhile stopped x) = None
      \<longleftrightarrow> listening \<and> snd (orch_run env x) = None \<and> \<not> stopped)
    \<and> snd (kerno_main env listening meanwhile stopped x) \<in> {None, Some 0, Some 1}
    \<and> (listening \<and> snd (orch_run env x) \<noteq> None \<longrightarrow>
         o_pm (fst (kerno_main env listening meanwhile stopped x)) = o_pm (fst (orch_run env x)))"
proof -
  obtain x1 r where run: "orch_run env x = (x1, r)" by fastforce
  let ?b = "background env"
  obtain x2 u2 where 2: "on_wm (wm_stop (oe_wm ?b)) x1 = (x2, u2)" by fastforce
  obtain x3 u3 where 3: "on_dm (dm_stop_all (oe_dm ?b) (oe_down env)) x2 = (x3, u3)" by fastforce
  have "o_pm x3 = o_pm x1" using wm_stop_step [OF 2] stop_all_step [OF 3] by auto
  moreover obtain y where "orch_shutdown ?b (meanwhile x1) = (y, None)"
    by (simp add: orch_shutdown_def Let_def)
  ultimately show ?thesis
    by (cases r) (simp_all add: kerno_main_def run 2 3 Let_def)
qed

theorem main_exit_code_witness:
  "snd (kerno_main demo_oenv True id True demo_orch) = Some 0
   \<and> snd (kerno_main demo_oenv False id True demo_orch) = Some 1"
  using main_exit_code [of demo_oenv True id True demo_orch] main_exit_code [of demo_oenv False id True demo_orch]
    demo_run_ok
  by (auto simp: kerno_main_def)

text \<open>One text connection keeps the program from shutting down. After a startup that succeeded,
  the program stops its server first, and that waits for the handlers of all connections the accept loop
  took; the handler of a peer that sent TXT01 never ends. So nothing after it happens: the program hangs,
  and daemons, session WM and programs stay as they were. Where all peers speak BIN01 and close
  their connections, and no handler panics, the shutdown is reached and the exit code is 0.\<close>

theorem text_client_blocks_shutdown:
  fixes conns :: "(server \<times> string) list" and senv :: server_env and w :: "nat \<Rightarrow> bool"
  assumes "server_start False True True (new_listener cfg) = (srv, None)"
    and "accept_loop arrivals = (conns, True)" and "orch_run env x = (x1, None)"
  defines "stopped \<equiv> server_stop (True # map (handler_ends senv w) conns) srv \<noteq> None"
  shows "((\<exists>sc \<in> set conns. text_peer (snd sc)) \<longrightarrow>
      kerno_main env True meanwhile stopped x = (meanwhile x1, None))
    \<and> ((\<forall>sc \<in> set conns. take 4 (snd sc) = ''BIN1''
          \<and> snd (snd (handle_connection senv w [] (fst sc) (snd sc))) \<noteq> Crashed) \<longrightarrow>
      kerno_main env True meanwhile stopped x
        = (fst (orch_shutdown (background env) (meanwhile x1)), Some 0))"
proof -
  have stopped: "stopped \<longleftrightarrow> (\<forall>sc \<in> set conns. handler_ends senv w sc)"
    by (auto simp: stopped_def server_stop_def Let_def)
  have shut: "\<exists>y. orch_shutdown (background env) (meanwhile x1) = (y, None)"
    by (simp add: orch_shutdown_def Let_def)
  have "\<not> stopped" if "\<exists>sc \<in> set conns. text_peer (snd sc)"
    using that text_peer_never_ends unfolding stopped by (metis surj_pair snd_conv)
  moreover have "stopped" if "\<forall>sc \<in> set conns. take 4 (snd sc) = ''BIN1''
      \<and> snd (snd (handle_connection senv w [] (fst sc) (snd sc))) \<noteq> Crashed"
    using that other_peers_end unfolding stopped by (metis surjective_pairing)
  ultimately show ?thesis using shut by (auto simp: kerno_main_def assms(3))
qed

theorem text_client_blocks_shutdown_witness:
  "\<exists>x1. orch_run demo_oenv demo_orch = (x1, None)
     \<and> kerno_main demo_oenv True id (server_stop [True, handler_ends demo_senv (\<lambda>_. True)
           (demo_server, ''TXT01'')] (fst (server_start False True True (new_listener empty_config))) \<noteq> None) demo_orch
       = (x1, None)"
proof -
  obtain x1 where run: "orch_run demo_oenv demo_orch = (x1, None)" using demo_run_ok by blast
  obtain srv where srv: "server_start False True True (new_listener empty_config) = (srv, None)"
    by (simp add: server_start_def Let_def)
  have acc: "accept_loop [(False, Conn (demo_server, ''TXT01''), False), (False, NetErrClosed, False)]
      = ([(demo_server, ''TXT01'')], True)" by simp
  have "text_peer ''TXT01''" by (simp add: text_peer_def)
  with text_client_blocks_shutdown [OF srv acc run, of id demo_senv "\<lambda>_. True"] srv run show ?thesis by simp
qed

end
